(* ===== verification/Prelude.thy ===== *)
theory Prelude
  imports Main "HOL-Library.Word" "HOL-Library.Multiset" "HOL-Library.Sublist"
    "HOL-Library.State_Monad"
begin

text \<open>
  Shared vocabulary of the development: the result types of fallible and panicking code,
  the early-return operator over state transformers, and generic lemmas on lists, sorting and
  strings.

  A Rust \<open>String\<close> is the list of its UTF-8 bytes (HOL's \<open>char\<close> is a byte).  A Rust
  \<open>Result\<close> is a sum whose left side is the error.  A panic is the value \<open>Panic\<close> of
  type \<open>outcome\<close>.
\<close>

section \<open>Theorem collections\<close>

named_theorems state_defs \<open>definitions of the state transformers, for unfolding\<close>
named_theorems codec_simps \<open>encoders and decoders of the wire format\<close>

section \<open>Panics\<close>

datatype 'a outcome = Panic | Returned 'a

primrec after :: "'a outcome \<Rightarrow> ('a \<Rightarrow> 'b outcome) \<Rightarrow> 'b outcome" where
  "after Panic f = Panic"
| "after (Returned a) f = f a"

lemma after_eq_Returned [simp]:
  "after m f = Returned b \<longleftrightarrow> (\<exists>a. m = Returned a \<and> f a = Returned b)"
  by (cases m) auto

lemma after_assoc: "after (after m f) g = after m (\<lambda>a. after (f a) g)"
  by (cases m) simp_all

section \<open>State transformers with early return\<close>

text \<open>
  \<open>try_bind m f\<close> is the operator \<open>?\<close> of Rust: an error of \<open>m\<close> is returned at once, in the
  state \<open>m\<close> left.  \<open>on_error\<close> runs the destructors of the values that go out of scope at
  such a return.
\<close>

definition try_bind :: "('s, 'e + 'a) state \<Rightarrow> ('a \<Rightarrow> ('s, 'e + 'b) state) \<Rightarrow> ('s, 'e + 'b) state" where
  "try_bind m f = do {
     r \<leftarrow> m;
     (case r of Inl e \<Rightarrow> State_Monad.return (Inl e) | Inr a \<Rightarrow> f a)
   }"

definition ok :: "'a \<Rightarrow> ('s, 'e + 'a) state" where
  "ok a = State_Monad.return (Inr a)"

definition fail :: "'e \<Rightarrow> ('s, 'e + 'a) state" where
  "fail e = State_Monad.return (Inl e)"

definition modify :: "('s \<Rightarrow> 's) \<Rightarrow> ('s, 'e + unit) state" where
  "modify f = State (\<lambda>s. (Inr (), f s))"

definition gets :: "('s \<Rightarrow> 'a) \<Rightarrow> ('s, 'e + 'a) state" where
  "gets f = State (\<lambda>s. (Inr (f s), s))"

definition on_error :: "('s \<Rightarrow> 's) \<Rightarrow> ('s, 'e + 'a) state \<Rightarrow> ('s, 'e + 'a) state" where
  "on_error f m = State (\<lambda>s. case run_state m s of
     (Inl e, s') \<Rightarrow> (Inl e, f s') | (Inr a, s') \<Rightarrow> (Inr a, s'))"

definition map_err :: "('e \<Rightarrow> 'f) \<Rightarrow> ('s, 'e + 'a) state \<Rightarrow> ('s, 'f + 'a) state" where
  "map_err f m = State (\<lambda>s. case run_state m s of
     (Inl e, s') \<Rightarrow> (Inl (f e), s') | (Inr a, s') \<Rightarrow> (Inr a, s'))"

definition of_result :: "'e + 'a \<Rightarrow> ('s, 'e + 'a) state" where
  "of_result r = State_Monad.return r"

text \<open>A \<open>for\<close> loop whose body may return early.\<close>

fun for_each :: "('a \<Rightarrow> ('s, 'e + unit) state) \<Rightarrow> 'a list \<Rightarrow> ('s, 'e + unit) state" where
  "for_each f [] = ok ()"
| "for_each f (x # xs) = try_bind (f x) (\<lambda>_. for_each f xs)"

lemma run_map_err [simp]:
  "run_state (map_err f m) s =
     (case run_state m s of (Inl e, s') \<Rightarrow> (Inl (f e), s') | (Inr a, s') \<Rightarrow> (Inr a, s'))"
  by (simp add: map_err_def)

lemma run_of_result [simp]: "run_state (of_result r) s = (r, s)"
  by (simp add: of_result_def)

lemma run_try_bind [simp]:
  "run_state (try_bind m f) s =
     (case run_state m s of (Inl e, s') \<Rightarrow> (Inl e, s') | (Inr a, s') \<Rightarrow> run_state (f a) s')"
  by (simp add: try_bind_def split: prod.splits sum.splits)

lemma run_ok [simp]: "run_state (ok a) s = (Inr a, s)"
  by (simp add: ok_def)

lemma run_fail [simp]: "run_state (fail e) s = (Inl e, s)"
  by (simp add: fail_def)

lemma run_modify [simp]: "run_state (modify f) s = (Inr (), f s)"
  by (simp add: modify_def)

lemma run_gets [simp]: "run_state (gets f) s = (Inr (f s), s)"
  by (simp add: gets_def)

lemma run_on_error [simp]:
  "run_state (on_error f m) s =
     (case run_state m s of (Inl e, s') \<Rightarrow> (Inl e, f s') | (Inr a, s') \<Rightarrow> (Inr a, s'))"
  by (simp add: on_error_def)

text \<open>Relations between the states before and after a program, composed like the program.\<close>

definition steps :: "('s \<Rightarrow> 's \<Rightarrow> bool) \<Rightarrow> ('s, 'r) state \<Rightarrow> bool" where
  "steps R m \<longleftrightarrow> (\<forall>s. R s (snd (run_state m s)))"

lemma stepsD: "steps R m \<Longrightarrow> run_state m s = (r, s') \<Longrightarrow> R s s'"
  by (metis snd_conv steps_def)

lemma steps_pure:
  assumes "reflp R"
  shows "steps R (ok a)" "steps R (fail e)" "steps R (of_result r)" "steps R (gets f)"
  using assms by (simp_all add: steps_def reflpD)

lemma steps_modify: "(\<And>s. R s (f s)) \<Longrightarrow> steps R (modify f)"
  by (simp add: steps_def)

lemma steps_try_bind:
  assumes "transp R" "steps R m" "\<And>a. steps R (f a)"
  shows "steps R (try_bind m f)"
  unfolding steps_def
proof
  fix s
  obtain r s1 where m: "run_state m s = (r, s1)" by fastforce
  then have "R s s1" by (rule stepsD [OF assms(2)])
  moreover have "R s1 (snd (run_state (f a) s1))" for a
    using assms(3) by (simp add: steps_def)
  ultimately show "R s (snd (run_state (try_bind m f) s))"
    using m transpD [OF assms(1)] by (auto split: sum.split)
qed

lemma snd_map_err [simp]: "snd (run_state (map_err f m) s) = snd (run_state m s)"
  by (simp split: prod.split sum.split)

lemma steps_map_err: "steps R m \<Longrightarrow> steps R (map_err f m)"
  by (simp only: steps_def snd_map_err simp_thms)

lemma steps_on_error:
  assumes "transp R" "steps R m" "\<And>s. R s (f s)"
  shows "steps R (on_error f m)"
  unfolding steps_def
proof
  fix s
  obtain r s1 where m: "run_state m s = (r, s1)" by fastforce
  then have "R s s1" by (rule stepsD [OF assms(2)])
  moreover have "R s1 (f s1)" by (rule assms(3))
  ultimately show "R s (snd (run_state (on_error f m) s))"
    using m transpD [OF assms(1)] by (auto split: sum.split)
qed

lemma steps_for_each:
  assumes "reflp R" "transp R" "\<And>x. x \<in> set xs \<Longrightarrow> steps R (f x)"
  shows "steps R (for_each f xs)"
  using assms(3)
  by (induction xs) (simp_all add: steps_pure [OF assms(1)] steps_try_bind [OF assms(2)])

lemma map_sum_eq [simp]:
  "map_sum f g s = Inr x \<longleftrightarrow> (\<exists>y. s = Inr y \<and> x = g y)"
  "map_sum f g s = Inl e \<longleftrightarrow> (\<exists>y. s = Inl y \<and> e = f y)"
  by (cases s; auto)+

definition of_option :: "'e \<Rightarrow> 'a option \<Rightarrow> 'e + 'a" where
  "of_option e x = (case x of None \<Rightarrow> Inl e | Some a \<Rightarrow> Inr a)"

lemma of_option_simps [simp]:
  "of_option e None = Inl e" "of_option e (Some a) = Inr a"
  by (simp_all add: of_option_def)

section \<open>Stable sorting\<close>

text \<open>Sorting after every push gives what one sort at the end gives.\<close>

lemma sort_key_resort: "sort_key f (sort_key f xs @ ys) = sort_key f (xs @ ys)"
proof (rule properties_for_sort_key)
  show "mset (sort_key f (xs @ ys)) = mset (sort_key f xs @ ys)" by simp
  show "sorted (map f (sort_key f (xs @ ys)))" by simp
next
  fix k
  have "filter (\<lambda>x. f x = f k) (sort_key f (xs @ ys)) = filter (\<lambda>x. f x = f k) (xs @ ys)"
    by (rule sort_key_stable)
  also have "\<dots> = filter (\<lambda>x. f x = f k) (sort_key f xs @ ys)"
    by (simp add: sort_key_stable)
  finally show "filter (\<lambda>x. f k = f x) (sort_key f (xs @ ys)) =
      filter (\<lambda>x. f k = f x) (sort_key f xs @ ys)"
    by (simp add: eq_commute)
qed

section \<open>Lists\<close>

text \<open>A relation that is a function of its left side relates a list to one list only.\<close>

lemma list_all2_right_unique:
  assumes "list_all2 (\<lambda>x y. f x = g y) xs ys" "list_all2 (\<lambda>x y. f x = g y) xs zs" "inj g"
  shows "ys = zs"
  using assms(1,2)
proof (induction xs arbitrary: ys zs)
  case (Cons x xs)
  from Cons.prems obtain y ys' z zs' where eq: "ys = y # ys'" "zs = z # zs'"
    and heads: "f x = g y" "f x = g z"
    and tails: "list_all2 (\<lambda>x y. f x = g y) xs ys'" "list_all2 (\<lambda>x y. f x = g y) xs zs'"
    by (auto simp: list_all2_Cons1)
  from heads have "y = z" using assms(3) by (metis injD)
  with eq tails Cons.IH show ?case by simp
qed simp

lemma sum_list_map_update:
  fixes f :: "'a \<Rightarrow> nat"
  assumes "i < length xs"
  shows "sum_list (map f (xs[i := x])) + f (xs ! i) = sum_list (map f xs) + f x"
proof -
  have "f (xs ! i) \<le> sum_list (map f xs)"
    using assms elem_le_sum_list [of i "map f xs"] by simp
  then show ?thesis using assms by (simp add: map_update sum_list_update)
qed

section \<open>Quotes\<close>

definition squote :: string where
  "squote = [CHR 0x27]"

definition dquote :: string where
  "dquote = [CHR 0x22]"

section \<open>Digits and decimal text\<close>

definition digit_char :: "nat \<Rightarrow> char" where
  "digit_char d = char_of (48 + d)"

definition to_digit :: "char \<Rightarrow> nat option" where
  "to_digit c = (let n = of_char c :: nat in if 48 \<le> n \<and> n \<le> 57 then Some (n - 48) else None)"

lemma to_digit_digit_char [simp]: "d < 10 \<Longrightarrow> to_digit (digit_char d) = Some d"
  by (simp add: to_digit_def digit_char_def Let_def)

lemma to_digit_bound: "to_digit c = Some d \<Longrightarrow> d < 10"
  by (auto simp: to_digit_def Let_def split: if_splits)

text \<open>The decimal text of a natural number, as \<open>to_string\<close> of an unsigned integer gives it.\<close>

fun decimal :: "nat \<Rightarrow> string" where
  "decimal n = (if n < 10 then [digit_char n] else decimal (n div 10) @ [digit_char (n mod 10)])"

declare decimal.simps [simp del]

fun digits_value :: "nat \<Rightarrow> string \<Rightarrow> nat" where
  "digits_value acc [] = acc"
| "digits_value acc (c # cs) =
     digits_value (acc * 10 + (case to_digit c of None \<Rightarrow> 0 | Some d \<Rightarrow> d)) cs"

lemma digits_value_append: "digits_value acc (xs @ ys) = digits_value (digits_value acc xs) ys"
  by (induction acc xs rule: digits_value.induct) simp_all

lemma digits_value_decimal: "digits_value 0 (decimal n) = n"
proof (induction n rule: decimal.induct)
  case (1 n)
  then show ?case
    by (cases "n < 10") (simp_all add: decimal.simps [of n] digits_value_append)
qed

lemma decimal_inject [simp]: "decimal m = decimal n \<longleftrightarrow> m = n"
  by (metis digits_value_decimal)

lemma digit_char_not_minus: "d < 10 \<Longrightarrow> digit_char d \<noteq> CHR ''-''"
proof
  assume "d < 10" and eq: "digit_char d = CHR ''-''"
  then have "to_digit CHR ''-'' = Some d" by (metis to_digit_digit_char)
  then show False by (simp add: to_digit_def)
qed

lemma decimal_no_minus: "CHR ''-'' \<notin> set (decimal n)"
proof (induction n rule: decimal.induct)
  case (1 n)
  then show ?case
    by (cases "n < 10") (auto simp: decimal.simps [of n] digit_char_not_minus [symmetric])
qed

text \<open>The text of an \<open>i64\<close>.\<close>

definition int_text :: "int \<Rightarrow> string" where
  "int_text i = (if i < 0 then CHR ''-'' # decimal (nat (- i)) else decimal (nat i))"

lemma int_text_inject [simp]: "int_text i = int_text j \<longleftrightarrow> i = j"
proof
  assume eq: "int_text i = int_text j"
  show "i = j"
  proof (cases "i < 0"; cases "j < 0")
    assume "i < 0" "\<not> j < 0"
    with eq have "CHR ''-'' \<in> set (decimal (nat j))"
      by (auto simp: int_text_def dest!: sym [of "_ # _"])
    then show ?thesis by (simp add: decimal_no_minus)
  next
    assume "\<not> i < 0" "j < 0"
    with eq have "CHR ''-'' \<in> set (decimal (nat i))"
      by (simp add: int_text_def)
    then show ?thesis by (simp add: decimal_no_minus)
  qed (use eq in \<open>auto simp: int_text_def nat_eq_iff\<close>)
qed simp

end
