(* ===== verification/Failures.thy ===== *)
theory Failures
  imports Prelude
begin

text \<open>
  \<open>tenant/src/failure.rs\<close>: the error every RPC method reports.  A failure of the database
  is turned into a custom failure that carries the database's message.
\<close>

record failure =
  fcode :: "64 word"
  fmessage :: string

definition METHOD_NOT_FOUND :: failure where
  "METHOD_NOT_FOUND = \<lparr>fcode = - 32601, fmessage = ''Method not found''\<rparr>"

definition INVALID_PARAMS :: failure where
  "INVALID_PARAMS = \<lparr>fcode = - 32602, fmessage = ''Invalid params''\<rparr>"

definition INTERNAL_ERROR :: failure where
  "INTERNAL_ERROR = \<lparr>fcode = - 32603, fmessage = ''Internal error''\<rparr>"

definition custom :: "string \<Rightarrow> failure" where
  "custom msg = \<lparr>fcode = - 32000, fmessage = msg\<rparr>"

text \<open>\<open>impl From<DbErr> for Failure\<close>: the text of the database error is the message.\<close>

definition failure_of_db_err :: "string \<Rightarrow> failure" where
  "failure_of_db_err err = custom err"

text \<open>\<open>Display\<close> hides code and message.\<close>

definition failure_display :: "failure \<Rightarrow> string" where
  "failure_display f = ''Failure''"

lemma custom_inject [simp]: "custom a = custom b \<longleftrightarrow> a = b"
  by (simp add: custom_def)

lemma custom_code: "sint (fcode (custom msg)) = - 32000"
  by (simp add: custom_def)

lemma custom_not_internal [simp]: "custom msg \<noteq> INTERNAL_ERROR" "INTERNAL_ERROR \<noteq> custom msg"
  by (simp_all add: custom_def INTERNAL_ERROR_def)

end
