(* ===== verification/Json_Value.thy ===== *)
theory Json_Value
  imports Prelude Complex_Main
begin

text \<open>
  The value type \<open>serde_json::Value\<close> that requests, replies, claims and rows are made of, with
  the accessors the source calls on it (\<open>get\<close>, \<open>as_str\<close>, \<open>cloned\<close>).  It is a
  third-party type: only its documented shape is used.  A number is an integer of the
  \<open>i64\<close>/\<open>u64\<close> range or a finite \<open>f64\<close>, written as the rational it denotes; an object
  is the list of its members, and no two members of an object have the same key.
\<close>

datatype json_number = NInt int | NFloat rat

datatype json =
    JNull
  | JBool bool
  | JNum json_number
  | JStr string
  | JArr "json list"
  | JObj "(string \<times> json) list"

primrec json_get :: "json \<Rightarrow> string \<Rightarrow> json option" where
  "json_get JNull k = None"
| "json_get (JBool b) k = None"
| "json_get (JNum n) k = None"
| "json_get (JStr s) k = None"
| "json_get (JArr xs) k = None"
| "json_get (JObj ms) k = map_of ms k"

primrec as_str :: "json \<Rightarrow> string option" where
  "as_str JNull = None"
| "as_str (JBool b) = None"
| "as_str (JNum n) = None"
| "as_str (JStr s) = Some s"
| "as_str (JArr xs) = None"
| "as_str (JObj ms) = None"

lemma as_str_eq_Some [simp]: "as_str j = Some s \<longleftrightarrow> j = JStr s"
  by (cases j) auto

lemma json_get_SomeE:
  assumes "json_get j k = Some v"
  obtains ms where "j = JObj ms" "map_of ms k = Some v"
  using assms by (cases j) auto

text \<open>Range of the integers a \<open>serde_json::Number\<close> can hold: \<open>i64\<close> or \<open>u64\<close>.\<close>

definition int_in_range :: "int \<Rightarrow> bool" where
  "int_in_range n \<longleftrightarrow> - (2 ^ 63) \<le> n \<and> n < 2 ^ 64"

end
