(* ===== verification/Sql_Value.thy ===== *)
theory Sql_Value
  imports Json_Value
begin

text \<open>
  \<open>tenant/src/value.rs\<close> and \<open>tenant/src/lib.rs\<close>: the parameter values a client binds to a
  query, and their conversion to the values the database layer takes.  \<open>f32\<close> and \<open>f64\<close> are
  the rationals they denote, a \<open>NaiveDate\<close> is its day number, a \<open>Uuid\<close> its 128 bits.
  The type \<open>sea_value\<close> lists the constructors of the third-party \<open>sea_orm::Value\<close> the source
  names.
\<close>

type_synonym uuid = "128 word"
type_synonym naive_date = int

datatype sql_array_type = ArrBool | ArrFloat | ArrInt | ArrString

datatype sql_value =
    SqlBool "bool option"
  | SqlInt "32 word option"
  | SqlFloat "rat option"
  | SqlDouble "rat option"
  | SqlString "string option"
  | SqlJson "json option"
  | SqlChronoDate "naive_date option"
  | SqlUuid "uuid option"
  | SqlArray sql_array_type "sql_value list option"

datatype sea_array_type = SeaArrBool | SeaArrFloat | SeaArrInt | SeaArrString

datatype sea_value =
    SeaBool "bool option"
  | SeaInt "32 word option"
  | SeaFloat "rat option"
  | SeaDouble "rat option"
  | SeaString "string option"
  | SeaJson "json option"
  | SeaChronoDate "naive_date option"
  | SeaUuid "uuid option"
  | SeaArray sea_array_type "sea_value list option"

fun sea_array_type_of :: "sql_array_type \<Rightarrow> sea_array_type" where
  "sea_array_type_of ArrBool = SeaArrBool"
| "sea_array_type_of ArrFloat = SeaArrFloat"
| "sea_array_type_of ArrInt = SeaArrInt"
| "sea_array_type_of ArrString = SeaArrString"

text \<open>\<open>impl From<SQLValue> for sea_orm::Value\<close>, in the order of its match.\<close>

fun sea_of_sql :: "sql_value \<Rightarrow> sea_value" where
  "sea_of_sql (SqlBool v) = SeaBool v"
| "sea_of_sql (SqlFloat v) = SeaFloat v"
| "sea_of_sql (SqlDouble v) = SeaDouble v"
| "sea_of_sql (SqlString v) = SeaString v"
| "sea_of_sql (SqlJson v) = SeaJson v"
| "sea_of_sql (SqlInt v) = SeaInt v"
| "sea_of_sql (SqlUuid v) = SeaUuid v"
| "sea_of_sql (SqlChronoDate v) = SeaChronoDate v"
| "sea_of_sql (SqlArray t v) = SeaArray (sea_array_type_of t) (map_option (map sea_of_sql) v)"

text \<open>The conversions a client's \<open>bind\<close> goes through.\<close>

definition sql_of_i32 :: "32 word \<Rightarrow> sql_value" where
  "sql_of_i32 n = SqlInt (Some n)"

definition sql_of_opt_i32 :: "32 word option \<Rightarrow> sql_value" where
  "sql_of_opt_i32 n = SqlInt n"

definition sql_of_str :: "string \<Rightarrow> sql_value" where
  "sql_of_str s = SqlString (Some s)"

definition sql_of_opt_str :: "string option \<Rightarrow> sql_value" where
  "sql_of_opt_str s = SqlString s"

record query_params =
  query_text :: string
  query_variables :: "sql_value list"

definition query_params_new :: "string \<Rightarrow> query_params" where
  "query_params_new q = \<lparr>query_text = q, query_variables = []\<rparr>"

lemma sea_array_type_of_inject [simp]:
  "sea_array_type_of s = sea_array_type_of t \<longleftrightarrow> s = t"
  by (cases s; cases t) simp_all

lemma map_inject_on:
  "(\<And>x y. x \<in> set xs \<Longrightarrow> f x = f y \<Longrightarrow> x = y) \<Longrightarrow> map f xs = map f ys \<Longrightarrow> xs = ys"
  by (induction xs arbitrary: ys) (auto simp: Cons_eq_map_conv)

lemma sea_of_sql_inject_imp: "sea_of_sql x = sea_of_sql y \<Longrightarrow> x = y"
proof (induction x arbitrary: y)
  case (SqlArray t v)
  from SqlArray.prems obtain t' v' where y: "y = SqlArray t' v'" by (cases y) auto
  show ?case
  proof (cases v)
    case None
    with SqlArray.prems y show ?thesis by simp
  next
    case (Some xs)
    with SqlArray.prems y obtain ys where ys: "v' = Some ys"
      and eq: "map sea_of_sql xs = map sea_of_sql ys" and t: "t = t'"
      by (cases v') auto
    have "xs = ys"
      using eq by (rule map_inject_on [rotated]) (use SqlArray.IH Some in auto)
    with Some y ys t show ?thesis by simp
  qed
qed (rename_tac y, case_tac y, simp_all)+

text \<open>Binding is faithful: two parameter values (nested arrays, typed nulls and all) reach the
  database as the same value only if they are the same value.\<close>

theorem sea_of_sql_inject: "sea_of_sql x = sea_of_sql y \<longleftrightarrow> x = y"
  using sea_of_sql_inject_imp by blast

end
