(* ===== verification/Database.thy ===== *)
theory Database
  imports Failures Sql_Value
begin

text \<open>
  The PostgreSQL server as the program sees it through \<open>sea_orm\<close>: a third party, hence a
  parameter.  A \<open>db_env\<close> answers a call from the history of the calls made before it; nothing
  else is assumed about it.  The calls are recorded in order, so what the program asks of the
  database, and in which transaction, is part of its behaviour.

  A connection pool is a handle, a transaction the handle it was begun on and a number.  A
  transaction that goes out of scope without being committed or rolled back is dropped, which
  \<open>sea_orm\<close> documents as a rollback; the drop is a call of its own here.  \<open>Commit\<close> and
  \<open>Rollback\<close> consume the transaction whatever they answer.
\<close>

type_synonym handle = nat

datatype tx = Tx (tx_db: handle) (tx_no: nat)

text \<open>\<open>ConnectionTrait\<close>: what a statement can be run on.\<close>

datatype target = OnPool handle | OnTx tx

record statement =
  stm_sql :: string
  stm_values :: "sea_value list"

definition from_string :: "string \<Rightarrow> statement" where
  "from_string sql = \<lparr>stm_sql = sql, stm_values = []\<rparr>"

definition from_sql_and_values :: "string \<Rightarrow> sea_value list \<Rightarrow> statement" where
  "from_sql_and_values sql vals = \<lparr>stm_sql = sql, stm_values = vals\<rparr>"

datatype db_call =
    Connect string handle
  | Close handle
  | Begin tx
  | Execute target statement
  | Fetch target statement
  | Stream tx statement
  | Commit tx
  | Rollback tx
  | Drop tx

text \<open>A row converts to a JSON object or not; a row of a stream can also fail to arrive.  (A
  \<open>Fetch\<close> one of whose rows does not arrive fails as a whole: its answer is \<open>Inl\<close>.)\<close>

datatype db_row = Row json | BadRow string | LostRow string

type_synonym db_env = "db_call list \<Rightarrow> db_call \<Rightarrow> string + db_row list"

record world =
  calls :: "db_call list"
  fresh :: nat

definition call :: "db_env \<Rightarrow> db_call \<Rightarrow> ('w world_scheme, string + db_row list) state" where
  "call E c = State (\<lambda>w. (E (calls w) c, w\<lparr>calls := calls w @ [c]\<rparr>))"

text \<open>A call whose \<open>DbErr\<close> the operator \<open>?\<close> turns into a \<open>Failure\<close>.\<close>

definition db :: "db_env \<Rightarrow> db_call \<Rightarrow> ('w world_scheme, failure + db_row list) state" where
  "db E c = map_err failure_of_db_err (call E c)"

definition next_number :: "('w world_scheme, 'e + nat) state" where
  "next_number = State (\<lambda>w. (Inr (fresh w), w\<lparr>fresh := Suc (fresh w)\<rparr>))"

definition begin_on :: "db_env \<Rightarrow> handle \<Rightarrow> ('w world_scheme, string + tx) state" where
  "begin_on E h =
     try_bind next_number (\<lambda>n. try_bind (call E (Begin (Tx h n))) (\<lambda>_. ok (Tx h n)))"

definition connect_to :: "db_env \<Rightarrow> string \<Rightarrow> ('w world_scheme, string + handle) state" where
  "connect_to E url =
     try_bind next_number (\<lambda>n. try_bind (call E (Connect url n)) (\<lambda>_. ok n))"

definition drop_tx :: "tx \<Rightarrow> 'w world_scheme \<Rightarrow> 'w world_scheme" where
  "drop_tx t w = w\<lparr>calls := calls w @ [Drop t]\<rparr>"

text \<open>\<open>find_by_statement(..).one(..)\<close>: the first row, converted.\<close>

definition first_row :: "db_row list \<Rightarrow> failure + json option" where
  "first_row rows =
     (case rows of
        [] \<Rightarrow> Inr None
      | Row v # _ \<Rightarrow> Inr (Some v)
      | BadRow msg # _ \<Rightarrow> Inl (failure_of_db_err msg)
      | LostRow msg # _ \<Rightarrow> Inl (failure_of_db_err msg))"

definition fetch_one :: "db_env \<Rightarrow> target \<Rightarrow> statement \<Rightarrow> ('w world_scheme, failure + json option) state" where
  "fetch_one E c stm = try_bind (db E (Fetch c stm)) (\<lambda>rows. of_result (first_row rows))"

lemma run_call [simp]: "run_state (call E c) w = (E (calls w) c, w\<lparr>calls := calls w @ [c]\<rparr>)"
  by (simp add: call_def)

lemma run_db [simp]:
  "run_state (db E c) w =
     (map_sum failure_of_db_err id (E (calls w) c), w\<lparr>calls := calls w @ [c]\<rparr>)"
  by (simp add: db_def split: sum.splits)

lemma run_next_number [simp]: "run_state next_number w = (Inr (fresh w), w\<lparr>fresh := Suc (fresh w)\<rparr>)"
  by (simp add: next_number_def)

section \<open>Live transactions\<close>

text \<open>Replaying the calls tells which transactions are open: begun successfully, and neither
  committed, rolled back nor dropped since.\<close>

fun live_rev :: "db_env \<Rightarrow> db_call list \<Rightarrow> tx set" where
  "live_rev E [] = {}"
| "live_rev E (Begin t # cs) =
     (case E (rev cs) (Begin t) of Inl _ \<Rightarrow> live_rev E cs | Inr _ \<Rightarrow> insert t (live_rev E cs))"
| "live_rev E (Commit t # cs) = live_rev E cs - {t}"
| "live_rev E (Rollback t # cs) = live_rev E cs - {t}"
| "live_rev E (Drop t # cs) = live_rev E cs - {t}"
| "live_rev E (Connect u h # cs) = live_rev E cs"
| "live_rev E (Close h # cs) = live_rev E cs"
| "live_rev E (Execute c stm # cs) = live_rev E cs"
| "live_rev E (Fetch c stm # cs) = live_rev E cs"
| "live_rev E (Stream t stm # cs) = live_rev E cs"

definition live :: "db_env \<Rightarrow> db_call list \<Rightarrow> tx set" where
  "live E cs = live_rev E (rev cs)"

lemma live_simps [simp]:
  "live E [] = {}"
  "live E (cs @ [Begin t]) =
     (case E cs (Begin t) of Inl _ \<Rightarrow> live E cs | Inr _ \<Rightarrow> insert t (live E cs))"
  "live E (cs @ [Commit t]) = live E cs - {t}"
  "live E (cs @ [Rollback t]) = live E cs - {t}"
  "live E (cs @ [Drop t]) = live E cs - {t}"
  "live E (cs @ [Connect u h]) = live E cs"
  "live E (cs @ [Close h]) = live E cs"
  "live E (cs @ [Execute c stm]) = live E cs"
  "live E (cs @ [Fetch c stm]) = live E cs"
  "live E (cs @ [Stream t stm]) = live E cs"
  by (simp_all add: live_def split: sum.split)

section \<open>The database a call goes to\<close>

fun target_db :: "target \<Rightarrow> handle" where
  "target_db (OnPool h) = h"
| "target_db (OnTx t) = tx_db t"

fun call_db :: "db_call \<Rightarrow> handle" where
  "call_db (Connect u h) = h"
| "call_db (Close h) = h"
| "call_db (Begin t) = tx_db t"
| "call_db (Execute c stm) = target_db c"
| "call_db (Fetch c stm) = target_db c"
| "call_db (Stream t stm) = tx_db t"
| "call_db (Commit t) = tx_db t"
| "call_db (Rollback t) = tx_db t"
| "call_db (Drop t) = tx_db t"

section \<open>Contracts of database programs\<close>

text \<open>
  What the accounting of a program needs to know of it: it only appends calls, and every call
  satisfies a property.  \<open>issues P m\<close> is closed under the combinators of the prelude, so a
  program's contract follows from those of its calls.
\<close>

definition issues :: "(db_call \<Rightarrow> bool) \<Rightarrow> ('w world_scheme, 'r) state \<Rightarrow> bool" where
  "issues P m \<longleftrightarrow>
     (\<forall>w r w'. run_state m w = (r, w') \<longrightarrow>
        (\<exists>cs. calls w' = calls w @ cs \<and> (\<forall>c \<in> set cs. P c)))"

named_theorems issues_intros \<open>contracts of the database programs\<close>

lemma issuesI:
  "(\<And>w r w'. run_state m w = (r, w') \<Longrightarrow>
     \<exists>cs. calls w' = calls w @ cs \<and> (\<forall>c \<in> set cs. P c)) \<Longrightarrow> issues P m"
  by (auto simp: issues_def)

lemma issuesD:
  "issues P m \<Longrightarrow> run_state m w = (r, w') \<Longrightarrow>
     \<exists>cs. calls w' = calls w @ cs \<and> (\<forall>c \<in> set cs. P c)"
  by (auto simp: issues_def)

lemma issues_pure [issues_intros]:
  "issues P (ok a)" "issues P (fail e)" "issues P (of_result r)" "issues P (gets f)"
  "issues P (State_Monad.return x)"
  by (rule issuesI; simp)+

lemma issues_modify [issues_intros]:
  "(\<And>w. calls (f w) = calls w) \<Longrightarrow> issues P (modify f)"
  by (rule issuesI) auto

lemma issues_try_bind [issues_intros]:
  assumes "issues P m" and "\<And>a. issues P (f a)"
  shows "issues P (try_bind m f)"
proof (rule issuesI)
  fix w r w'
  assume run: "run_state (try_bind m f) w = (r, w')"
  obtain r1 w1 where m: "run_state m w = (r1, w1)" by fastforce
  obtain cs where cs: "calls w1 = calls w @ cs" "\<forall>c \<in> set cs. P c"
    using issuesD [OF assms(1) m] by blast
  show "\<exists>cs. calls w' = calls w @ cs \<and> (\<forall>c \<in> set cs. P c)"
  proof (cases r1)
    case (Inl e)
    with run m cs show ?thesis by auto
  next
    case (Inr a)
    with run m have "run_state (f a) w1 = (r, w')" by simp
    then obtain cs' where "calls w' = calls w1 @ cs'" "\<forall>c \<in> set cs'. P c"
      using issuesD [OF assms(2)] by blast
    with cs show ?thesis by (intro exI [of _ "cs @ cs'"]) auto
  qed
qed

lemma issues_map_err [issues_intros]: "issues P m \<Longrightarrow> issues P (map_err f m)"
  by (rule issuesI) (auto dest: issuesD split: prod.splits sum.splits)

lemma issues_on_error [issues_intros]:
  assumes "issues P m" and "\<And>w. \<exists>cs. calls (f w) = calls w @ cs \<and> (\<forall>c \<in> set cs. P c)"
  shows "issues P (on_error f m)"
proof (rule issuesI)
  fix w r w'
  assume run: "run_state (on_error f m) w = (r, w')"
  obtain r1 w1 where m: "run_state m w = (r1, w1)" by fastforce
  obtain cs where cs: "calls w1 = calls w @ cs" "\<forall>c \<in> set cs. P c"
    using issuesD [OF assms(1) m] by blast
  obtain cs' where cs': "calls (f w1) = calls w1 @ cs'" "\<forall>c \<in> set cs'. P c"
    using assms(2) by blast
  show "\<exists>cs. calls w' = calls w @ cs \<and> (\<forall>c \<in> set cs. P c)"
  proof (cases r1)
    case (Inl e)
    with run m cs cs' show ?thesis by (intro exI [of _ "cs @ cs'"]) auto
  next
    case (Inr a)
    with run m cs show ?thesis by auto
  qed
qed

lemma issues_call [issues_intros]: "P c \<Longrightarrow> issues P (call E c)"
  by (rule issuesI) auto

lemma issues_db [issues_intros]: "P c \<Longrightarrow> issues P (db E c)"
  by (rule issuesI) auto

lemma issues_next_number [issues_intros]: "issues P next_number"
  by (rule issuesI) auto

lemma issues_drop [issues_intros]:
  "P (Drop t) \<Longrightarrow> \<exists>cs. calls (drop_tx t w) = calls w @ cs \<and> (\<forall>c \<in> set cs. P c)"
  by (simp add: drop_tx_def)

lemma issues_fetch_one [issues_intros]: "P (Fetch c stm) \<Longrightarrow> issues P (fetch_one E c stm)"
  by (simp add: fetch_one_def issues_intros)

lemma issues_begin_on [issues_intros]: "(\<And>n. P (Begin (Tx h n))) \<Longrightarrow> issues P (begin_on E h)"
  by (simp add: begin_on_def issues_intros)

lemma issues_for_each [issues_intros]:
  "(\<And>x. x \<in> set xs \<Longrightarrow> issues P (f x)) \<Longrightarrow> issues P (for_each f xs)"
  by (induction xs) (simp_all add: issues_intros)

section \<open>Database programs touch nothing else\<close>

text \<open>The fields a component adds to the world are the component's own.\<close>

definition framed :: "('w world_scheme, 'r) state \<Rightarrow> bool" where
  "framed m \<longleftrightarrow> steps (\<lambda>w w'. world.more w' = world.more w) m"

named_theorems framed_intros \<open>programs that only touch the world\<close>

lemma framedD: "framed m \<Longrightarrow> run_state m w = (r, w') \<Longrightarrow> world.more w' = world.more w"
  unfolding framed_def by (rule stepsD)

lemma framed_rel: "reflp (\<lambda>w w'. world.more w' = world.more w)"
  "transp (\<lambda>w w'. world.more w' = world.more w)"
  by (simp_all add: reflp_def transp_def)

lemma framed_combinators [framed_intros]:
  "framed (ok a)" "framed (fail e)" "framed (of_result r)" "framed (gets f)"
  "framed m \<Longrightarrow> (\<And>a. framed (g a)) \<Longrightarrow> framed (try_bind m g)"
  "framed m \<Longrightarrow> framed (map_err h m)"
  "(\<And>x. x \<in> set xs \<Longrightarrow> framed (k x)) \<Longrightarrow> framed (for_each k xs)"
  unfolding framed_def
  by (simp_all add: steps_pure steps_try_bind steps_map_err steps_for_each framed_rel)

lemma framed_on_error [framed_intros]:
  "framed m \<Longrightarrow> framed (on_error (drop_tx t) m)"
  unfolding framed_def by (simp add: steps_on_error framed_rel drop_tx_def)

lemma framed_calls [framed_intros]:
  "framed (call E c)" "framed (db E c)" "framed next_number"
  by (simp_all add: framed_def steps_def)

lemma framed_derived [framed_intros]:
  "framed (begin_on E h)" "framed (connect_to E url)" "framed (fetch_one E c stm)"
  unfolding begin_on_def connect_to_def fetch_one_def by (intro framed_intros)+

end
