(* ===== verification/Pool.thy ===== *)
theory Pool
  imports Database "HOL-Library.AList"
begin

text \<open>
  \<open>src/db.rs\<close>: the connection pools of the server, one per organization.  The
  \<open>HashMap\<close> behind the lock is an association list; the order of its keys is the hash order and
  carries no meaning.  What the rest of the server relies on is stated as the locale
  \<open>pool_map\<close>, of which \<open>db.rs\<close> is the interpretation at the end.
\<close>

record db_connection =
  pools :: "(string \<times> handle) list"

definition default_pool :: db_connection where
  "default_pool = \<lparr>pools = []\<rparr>"

definition pool_add :: "string \<Rightarrow> handle \<Rightarrow> db_connection \<Rightarrow> db_connection" where
  "pool_add name pool d = d\<lparr>pools := AList.update name pool (pools d)\<rparr>"

definition pool_get :: "db_connection \<Rightarrow> string \<Rightarrow> handle option" where
  "pool_get d name = map_of (pools d) name"

definition pool_list :: "db_connection \<Rightarrow> string list" where
  "pool_list d = map fst (pools d)"

section \<open>The interface the server relies on\<close>

locale pool_map =
  fixes empty :: 'd
    and add :: "string \<Rightarrow> handle \<Rightarrow> 'd \<Rightarrow> 'd"
    and get :: "'d \<Rightarrow> string \<Rightarrow> handle option"
    and listed :: "'d \<Rightarrow> string list"
  assumes get_empty: "get empty name = None"
    and get_add: "get (add name h d) name' = (if name' = name then Some h else get d name')"
    and set_listed: "set (listed d) = {name. get d name \<noteq> None}"
begin

definition add_all :: "(string \<times> handle) list \<Rightarrow> 'd \<Rightarrow> 'd" where
  "add_all entries d = foldl (\<lambda>d (name, h). add name h d) d entries"

lemma add_all_simps [simp]:
  "add_all [] d = d"
  "add_all ((name, h) # es) d = add_all es (add name h d)"
  by (simp_all add: add_all_def)

text \<open>The last entry of a name wins.\<close>

lemma get_add_all:
  "get (add_all entries d) name =
     (case map_of (rev entries) name of Some h \<Rightarrow> Some h | None \<Rightarrow> get d name)"
  by (induction entries arbitrary: d)
    (auto simp: get_add map_add_def split: option.split)

lemma listed_add_all:
  "set (listed (add_all entries d)) = fst ` set entries \<union> set (listed d)"
proof -
  have "get (add_all entries d) name \<noteq> None \<longleftrightarrow> name \<in> fst ` set entries \<or> get d name \<noteq> None" for name
    using map_of_eq_None_iff [of "rev entries" name]
    by (auto simp: get_add_all split: option.split)
  then show ?thesis by (auto simp: set_listed)
qed

lemma listed_add: "set (listed (add name h d)) = insert name (set (listed d))"
  using listed_add_all [of "[(name, h)]" d] by simp

end

interpretation pool: pool_map default_pool pool_add pool_get pool_list
proof unfold_locales
  show "pool_get default_pool name = None" for name
    by (simp add: pool_get_def default_pool_def)
  show "pool_get (pool_add name h d) name' = (if name' = name then Some h else pool_get d name')"
    for name h d name'
    by (simp add: pool_get_def pool_add_def update_conv)
  show "set (pool_list d) = {name. pool_get d name \<noteq> None}" for d
    by (simp add: pool_get_def pool_list_def map_of_eq_None_iff)
qed

text \<open>A key is listed once: \<open>insert\<close> replaces.\<close>

lemma pool_list_distinct: "distinct (pool_list d) \<Longrightarrow> distinct (pool_list (pool_add name h d))"
  by (simp add: pool_list_def pool_add_def distinct_update)

end
