(* ===== verification/Scripts.thy ===== *)
theory Scripts
  imports Prelude
begin

text \<open>
  \<open>tenant/src/sql/script.rs\<close>: loading the SQL scripts that initialise an organization's
  database.  A directory is what \<open>read_dir\<close> yields: an error, or its entries in directory
  order, each possibly an error itself.  A file name is its UTF-8 bytes.
\<close>

section \<open>The standard library operations used\<close>

text \<open>\<open>is_char_boundary\<close> and \<open>split_at\<close>: a split off a boundary panics.\<close>

definition continuation_byte :: "char \<Rightarrow> bool" where
  "continuation_byte c \<longleftrightarrow> 128 \<le> (of_char c :: nat) \<and> (of_char c :: nat) < 192"

definition char_boundary :: "string \<Rightarrow> nat \<Rightarrow> bool" where
  "char_boundary s i \<longleftrightarrow>
     i \<le> length s \<and> (i = 0 \<or> i = length s \<or> \<not> continuation_byte (s ! i))"

definition split_at :: "string \<Rightarrow> nat \<Rightarrow> (string \<times> string) outcome" where
  "split_at s i = (if char_boundary s i then Returned (take i s, drop i s) else Panic)"

definition trim_end_matches :: "char \<Rightarrow> string \<Rightarrow> string" where
  "trim_end_matches c s = rev (dropWhile (\<lambda>x. x = c) (rev s))"

datatype int_error = EmptyInput | InvalidDigit | PosOverflow

fun int_error_text :: "int_error \<Rightarrow> string" where
  "int_error_text EmptyInput = ''cannot parse integer from empty string''"
| "int_error_text InvalidDigit = ''invalid digit found in string''"
| "int_error_text PosOverflow = ''number too large to fit in target type''"

fun digits_u32 :: "nat \<Rightarrow> string \<Rightarrow> int_error + nat" where
  "digits_u32 acc [] = Inr acc"
| "digits_u32 acc (c # cs) =
     (case to_digit c of
        None \<Rightarrow> Inl InvalidDigit
      | Some d \<Rightarrow> if 2 ^ 32 \<le> acc * 10 + d then Inl PosOverflow
                  else digits_u32 (acc * 10 + d) cs)"

text \<open>\<open>str::parse::<u32>\<close>: one leading plus sign is accepted, a sign alone is not.\<close>

definition parse_u32 :: "string \<Rightarrow> int_error + 32 word" where
  "parse_u32 s =
     (if s = [] then Inl EmptyInput
      else if s = ''+'' \<or> s = ''-'' then Inl InvalidDigit
      else map_sum id of_nat (digits_u32 0 (if hd s = CHR ''+'' then tl s else s)))"

text \<open>\<open>str::split\<close> with a non-empty pattern, here the statement separator of the scripts.\<close>

definition statement_separator :: string where
  "statement_separator = ''--##''"

fun split_from :: "string \<Rightarrow> string \<Rightarrow> string list" where
  "split_from acc [] = [rev acc]"
| "split_from acc (c # cs) =
     (if take 4 (c # cs) = statement_separator then rev acc # split_from [] (drop 4 (c # cs))
      else split_from (c # acc) cs)"

definition split_statements :: "string \<Rightarrow> string list" where
  "split_statements s = split_from [] s"

section \<open>Scripts\<close>

record script =
  script_prefix :: "32 word"
  script_name :: string
  stmts :: "string list"

text \<open>\<open>impl Ord for Script\<close> and \<open>impl PartialEq for Script\<close>: only the prefix counts.\<close>

definition script_le :: "script \<Rightarrow> script \<Rightarrow> bool" where
  "script_le a b \<longleftrightarrow> script_prefix a \<le> script_prefix b"

definition script_eq :: "script \<Rightarrow> script \<Rightarrow> bool" where
  "script_eq a b \<longleftrightarrow> script_prefix a = script_prefix b"

datatype io_error = OsError string | InvalidData string

record dir_entry =
  file_name :: string
  file_text :: "io_error + string"

text \<open>
  The body of the loop of \<open>from_dir\<close>: the name is split at byte 4 first, then the file is
  read, and only then the prefix is parsed.
\<close>

definition load_entry :: "dir_entry \<Rightarrow> (io_error + script) outcome" where
  "load_entry d =
     after (split_at (file_name d) 4) (\<lambda>(x, y).
       Returned
         (case file_text d of
            Inl e \<Rightarrow> Inl e
          | Inr content \<Rightarrow>
              (case parse_u32 (trim_end_matches CHR ''_'' x) of
                 Inl e \<Rightarrow> Inl (InvalidData (int_error_text e))
               | Inr p \<Rightarrow>
                   Inr \<lparr>script_prefix = p, script_name = y, stmts = split_statements content\<rparr>)))"

text \<open>The loop pushes each script and sorts the vector again (a stable sort by prefix).\<close>

fun load_entries :: "script list \<Rightarrow> dir_entry list \<Rightarrow> (io_error + script list) outcome" where
  "load_entries scripts [] = Returned (Inr scripts)"
| "load_entries scripts (d # ds) =
     after (load_entry d) (\<lambda>r. case r of
         Inl e \<Rightarrow> Returned (Inl e)
       | Inr s \<Rightarrow> load_entries (sort_key script_prefix (scripts @ [s])) ds)"

text \<open>\<open>dirs.flatten()\<close> skips the entries that could not be read.\<close>

fun flatten_entries :: "(io_error + dir_entry) list \<Rightarrow> dir_entry list" where
  "flatten_entries [] = []"
| "flatten_entries (Inl e # ds) = flatten_entries ds"
| "flatten_entries (Inr d # ds) = d # flatten_entries ds"

definition from_dir ::
    "io_error + (io_error + dir_entry) list \<Rightarrow> (io_error + script list) outcome" where
  "from_dir dir =
     (case dir of
        Inl e \<Rightarrow> Returned (Inl e)
      | Inr entries \<Rightarrow> load_entries [] (flatten_entries entries))"

text \<open>\<open>IntoIterator\<close> for \<open>Script\<close> and \<open>Scripts\<close>: the statements in execution order.\<close>

definition all_statements :: "script list \<Rightarrow> string list" where
  "all_statements scripts = concat (map stmts scripts)"

section \<open>Splitting a file into statements\<close>

fun join_statements :: "string list \<Rightarrow> string" where
  "join_statements [] = []"
| "join_statements [x] = x"
| "join_statements (x # y # zs) = x @ statement_separator @ join_statements (y # zs)"

lemma separator_length [simp]: "length statement_separator = 4"
  by (simp add: statement_separator_def)

lemma split_from_not_Nil [simp]: "split_from acc s \<noteq> []"
  by (induction acc s rule: split_from.induct) simp_all

lemma join_statements_Cons [simp]:
  "xs \<noteq> [] \<Longrightarrow> join_statements (x # xs) = x @ statement_separator @ join_statements xs"
  by (cases xs) simp_all

lemma join_split_from: "join_statements (split_from acc s) = rev acc @ s"
proof (induction acc s rule: split_from.induct)
  case (2 acc c cs)
  show ?case
  proof (cases "take 4 (c # cs) = statement_separator")
    case True
    then have "statement_separator @ drop 4 (c # cs) = c # cs"
      by (metis append_take_drop_id)
    with True 2 show ?thesis by (simp del: take_Suc_Cons drop_Suc_Cons)
  qed (use 2 in simp)
qed simp

text \<open>No separator starts inside the accumulator, so none is inside a statement.\<close>

definition starts_separator :: "string \<Rightarrow> nat \<Rightarrow> bool" where
  "starts_separator s i \<longleftrightarrow> take 4 (drop i s) = statement_separator"

lemma starts_separator_bound: "starts_separator s i \<Longrightarrow> i + 4 \<le> length s"
proof -
  assume "starts_separator s i"
  then have "length (take 4 (drop i s)) = 4" by (simp add: starts_separator_def)
  then show ?thesis by simp
qed

lemma starts_separator_append:
  "starts_separator xs i \<Longrightarrow> starts_separator (xs @ ys) i"
  using starts_separator_bound [of xs i] by (simp add: starts_separator_def)

lemma split_from_no_separator:
  assumes "\<forall>i < length acc. \<not> starts_separator (rev acc @ s) i"
    and "x \<in> set (split_from acc s)"
  shows "\<not> starts_separator x i"
  using assms
proof (induction acc s rule: split_from.induct)
  case (1 acc)
  then show ?case using starts_separator_bound [of x i] by auto
next
  case (2 acc c cs)
  show ?case
  proof (cases "take 4 (c # cs) = statement_separator")
    case True
    show ?thesis
    proof (cases "x = rev acc")
      case True
      then show ?thesis
        using 2(3) starts_separator_append [of x i "c # cs"] starts_separator_bound [of x i] by auto
    next
      case False
      with True 2(4) have "x \<in> set (split_from [] (drop 4 (c # cs)))" by simp
      with 2(1) True show ?thesis by simp
    qed
  next
    case False
    have "\<not> starts_separator (rev (c # acc) @ cs) j" if "j < length (c # acc)" for j
    proof (cases "j = length acc")
      case True
      with False show ?thesis by (simp add: starts_separator_def)
    next
      case False
      with that 2(3) show ?thesis by simp
    qed
    with 2(2) False 2(4) show ?thesis by simp
  qed
qed


section \<open>Order of the scripts\<close>

abbreviation loads :: "dir_entry \<Rightarrow> script \<Rightarrow> bool" where
  "loads d s \<equiv> load_entry d = Returned (Inr s)"

lemma load_entries_ok:
  "load_entries (sort_key script_prefix acc) ds = Returned (Inr rs) \<longleftrightarrow>
     (\<exists>ss. list_all2 loads ds ss \<and> rs = sort_key script_prefix (acc @ ss))"
proof (induction ds arbitrary: acc)
  case Nil
  then show ?case by auto
next
  case (Cons d ds)
  show ?case
  proof (cases "load_entry d")
    case Panic
    then show ?thesis by (auto simp: list_all2_Cons1)
  next
    case (Returned r)
    then show ?thesis
      by (cases r) (auto simp: list_all2_Cons1 sort_key_resort Cons.IH [of "acc @ [_]", simplified])
  qed
qed

text \<open>Loading succeeds exactly when every readable directory entry loads, and then the
  repeated sorting of the vector gives one stable sort of the scripts by prefix.\<close>

theorem from_dir_is_one_sort:
  "from_dir (Inr entries) = Returned (Inr rs) \<longleftrightarrow>
     (\<exists>ss. list_all2 loads (flatten_entries entries) ss \<and> rs = sort_key script_prefix ss)"
  using load_entries_ok [of "[]"] by (simp add: from_dir_def)

text \<open>C34: the scripts run in ascending order of their prefix, none is lost or duplicated, and
  scripts with the same prefix keep the directory's order.\<close>

theorem from_dir_order:
  assumes "from_dir (Inr entries) = Returned (Inr rs)"
    and "list_all2 loads (flatten_entries entries) ss"
  shows "sorted (map script_prefix rs) \<and> mset rs = mset ss \<and>
    filter (\<lambda>s. script_prefix s = p) rs = filter (\<lambda>s. script_prefix s = p) ss"
proof -
  obtain ss' where ss': "list_all2 loads (flatten_entries entries) ss'"
    and rs: "rs = sort_key script_prefix ss'"
    using assms(1) load_entries_ok [of "[]"] by (auto simp: from_dir_def)
  have "ss' = ss"
    using ss' assms(2) by (rule list_all2_right_unique [where g = "\<lambda>s. Returned (Inr s)"])
      (simp add: inj_def)
  with rs show ?thesis by (simp add: sort_key_stable)
qed

text \<open>A concrete directory for the witnesses: two scripts with prefix 1 around one with prefix 0.\<close>

definition sample_entry :: "string \<Rightarrow> string \<Rightarrow> dir_entry" where
  "sample_entry name content = \<lparr>file_name = name, file_text = Inr content\<rparr>"

definition sample_dir :: "(io_error + dir_entry) list" where
  "sample_dir = [Inr (sample_entry ''001_b'' ''x--##y''), Inl (OsError ''EIO''),
     Inr (sample_entry ''000_a'' ''u''), Inr (sample_entry ''01__c'' ''v'')]"

lemmas script_eval = load_entry_def split_at_def char_boundary_def continuation_byte_def
  parse_u32_def to_digit_def trim_end_matches_def sample_entry_def split_statements_def
  statement_separator_def

theorem from_dir_order_witness:
  "\<exists>rs. from_dir (Inr sample_dir) = Returned (Inr rs) \<and> map script_name rs = [''a'', ''b'', ''c''] \<and>
     sorted (map script_prefix rs) \<and> all_statements rs = [''u'', ''x'', ''y'', ''v'']"
proof -
  let ?a = "\<lparr>script_prefix = 0, script_name = ''a'', stmts = [''u'']\<rparr>"
  let ?b = "\<lparr>script_prefix = 1, script_name = ''b'', stmts = [''x'', ''y'']\<rparr>"
  let ?c = "\<lparr>script_prefix = 1, script_name = ''c'', stmts = [''v'']\<rparr>"
  have r: "from_dir (Inr sample_dir) = Returned (Inr [?a, ?b, ?c])"
    by (simp add: from_dir_def sample_dir_def script_eval)
  have l: "list_all2 loads (flatten_entries sample_dir) [?b, ?a, ?c]"
    by (simp add: sample_dir_def script_eval)
  from from_dir_order [OF r l] r show ?thesis
    by (intro exI [of _ "[?a, ?b, ?c]"]) (simp add: all_statements_def)
qed

section \<open>Errors and panics\<close>

definition blocks :: "dir_entry \<Rightarrow> (io_error + script list) outcome \<Rightarrow> bool" where
  "blocks d r \<longleftrightarrow>
     (load_entry d = Panic \<and> r = Panic) \<or>
     (\<exists>e. load_entry d = Returned (Inl e) \<and> r = Returned (Inl e))"

lemma load_entries_blocked:
  "blocks d r \<Longrightarrow> list_all2 loads ds1 ss \<Longrightarrow> load_entries acc (ds1 @ d # ds2) = r"
proof (induction ds1 arbitrary: acc ss)
  case Nil
  then show ?case by (auto simp: blocks_def)
next
  case (Cons d' ds1)
  then show ?case by (auto simp: list_all2_Cons1)
qed

text \<open>The first entry in directory order that cannot be loaded decides the result, whether it
  is an error or a panic; what comes after it is never looked at.\<close>

theorem from_dir_first_failure:
  assumes "flatten_entries entries = before @ d # rest"
    and "list_all2 loads before ss" and "blocks d r"
  shows "from_dir (Inr entries) = r"
  using assms by (simp add: from_dir_def load_entries_blocked)

theorem from_dir_first_failure_witness:
  "from_dir (Inr [Inr (sample_entry ''000_a'' ''u''), Inr (sample_entry ''abcd'' ''v''),
      Inr (sample_entry ''x'' '''')]) =
     Returned (Inl (InvalidData ''invalid digit found in string'')) \<and>
   from_dir (Inr [Inr (sample_entry ''x'' '''')]) = Panic"
proof
  let ?s = "\<lparr>script_prefix = 0, script_name = ''a'', stmts = [''u'']\<rparr>"
  have l: "list_all2 loads [sample_entry ''000_a'' ''u''] [?s]"
    by (simp add: script_eval)
  have b: "blocks (sample_entry ''abcd'' ''v'')
      (Returned (Inl (InvalidData ''invalid digit found in string'')))"
    by (simp add: blocks_def script_eval)
  show "from_dir (Inr [Inr (sample_entry ''000_a'' ''u''),
      Inr (sample_entry ''abcd'' ''v''), Inr (sample_entry ''x'' '''')]) =
      Returned (Inl (InvalidData ''invalid digit found in string''))"
    by (rule from_dir_first_failure [OF _ l b, where rest ="[sample_entry ''x'' '''']"]) simp
  show "from_dir (Inr [Inr (sample_entry ''x'' '''')]) = Panic"
    by (simp add: from_dir_def script_eval)
qed

section \<open>Prefixes\<close>

lemma digits_u32_bound: "digits_u32 acc cs = Inr n \<Longrightarrow> n < (acc + 1) * 10 ^ length cs"
proof (induction acc cs arbitrary: n rule: digits_u32.induct)
  case (2 acc c cs)
  then obtain d where d: "to_digit c = Some d" and "digits_u32 (acc * 10 + d) cs = Inr n"
    and "acc * 10 + d < 2 ^ 32"
    by (auto split: option.splits if_splits)
  with 2(1) have "n < (acc * 10 + d + 1) * 10 ^ length cs" by simp
  also have "\<dots> \<le> ((acc + 1) * 10) * 10 ^ length cs"
    using to_digit_bound [OF d] by (intro mult_le_mono1) simp
  finally show ?case by (simp add: algebra_simps)
qed simp

lemma digits_u32_no_overflow:
  "(acc + 1) * 10 ^ length cs \<le> 2 ^ 32 \<Longrightarrow> digits_u32 acc cs \<noteq> Inl PosOverflow"
proof (induction acc cs rule: digits_u32.induct)
  case (2 acc c cs)
  show ?case
  proof (cases "to_digit c")
    case (Some d)
    have d: "d < 10" using Some by (rule to_digit_bound)
    then have "(acc * 10 + d + 1) * 10 ^ length cs \<le> (acc + 1) * 10 ^ length (c # cs)"
      by (simp add: algebra_simps)
    also have "\<dots> \<le> 2 ^ 32" by (rule "2.prems")
    finally have *: "(acc * 10 + d + 1) * 10 ^ length cs \<le> 2 ^ 32" .
    have "acc * 10 + d + 1 \<le> (acc * 10 + d + 1) * 10 ^ length cs"
      using mult_le_mono2 [of 1 "10 ^ length cs" "acc * 10 + d + 1"] by simp
    with * have "acc * 10 + d < 2 ^ 32" by linarith
    with Some * "2.IH" show ?thesis by simp
  qed simp
qed simp

lemma length_trim [simp]: "length (trim_end_matches c s) \<le> length s"
  using length_dropWhile_le [of _ "rev s"] by (simp add: trim_end_matches_def)

lemma parse_u32_short:
  assumes "length s \<le> 4"
  shows "parse_u32 s \<noteq> Inl PosOverflow" and "parse_u32 s = Inr w \<Longrightarrow> unat w < 10 ^ 4"
proof -
  let ?t = "if hd s = CHR ''+'' then tl s else s"
  have len: "length ?t \<le> 4" using assms by auto
  have le: "(0 + 1) * 10 ^ length ?t \<le> (10 ^ 4 :: nat)"
    using power_increasing [OF len, of "10 :: nat"] by simp
  have no: "digits_u32 0 ?t \<noteq> Inl PosOverflow"
    by (rule digits_u32_no_overflow, rule order_trans [OF le]) simp
  then show "parse_u32 s \<noteq> Inl PosOverflow"
    by (cases "digits_u32 0 ?t") (auto simp: parse_u32_def)
  assume "parse_u32 s = Inr w"
  then obtain n where n: "digits_u32 0 ?t = Inr n" and w: "w = of_nat n"
    by (cases "digits_u32 0 ?t") (auto simp: parse_u32_def split: if_splits)
  have "n < 10 ^ 4" using digits_u32_bound [OF n] le by linarith
  moreover from this have "unat (of_nat n :: 32 word) = n" by (simp add: unat_of_nat)
  ultimately show "unat w < 10 ^ 4" using w by simp
qed

lemma load_entryE:
  assumes "load_entry d = Returned r"
  obtains x y where "split_at (file_name d) 4 = Returned (x, y)" "length x \<le> 4"
    "r = (case file_text d of Inl e \<Rightarrow> Inl e
          | Inr content \<Rightarrow>
              (case parse_u32 (trim_end_matches CHR ''_'' x) of
                 Inl e \<Rightarrow> Inl (InvalidData (int_error_text e))
               | Inr p \<Rightarrow> Inr \<lparr>script_prefix = p, script_name = y,
                            stmts = split_statements content\<rparr>))"
  using assms by (auto simp: load_entry_def split_at_def split: if_splits)

text \<open>a script's prefix is below 10000, whatever the name of its file, so the \<open>u32\<close> that
  holds it cannot overflow.\<close>

theorem load_entry_prefix_bound:
  assumes "load_entry d = Returned (Inr s)"
  shows "unat (script_prefix s) < 10000"
proof -
  obtain x p where "length x \<le> 4" and p: "parse_u32 (trim_end_matches CHR ''_'' x) = Inr p"
    and "script_prefix s = p"
    using assms by (elim load_entryE) (auto split: sum.splits)
  then show ?thesis
    using parse_u32_short(2) [OF _ p] length_trim [of "CHR ''_''" x] by simp
qed

theorem load_entry_prefix_bound_witness:
  "unat (script_prefix \<lparr>script_prefix = 9999, script_name = [], stmts = [''q'']\<rparr>) < 10000"
  by (rule load_entry_prefix_bound [of "sample_entry ''9999'' ''q''"]) (simp add: script_eval)

definition numbered :: "nat \<Rightarrow> string \<Rightarrow> string" where
  "numbered n name =
     [digit_char (n div 100), digit_char (n div 10 mod 10), digit_char (n mod 10), CHR ''_''] @ name"

lemma digit_char_neq: "to_digit c = None \<Longrightarrow> d < 10 \<Longrightarrow> digit_char d \<noteq> c"
  by (metis option.distinct(1) to_digit_digit_char)

lemma digit_char_eqI: "of_char c = 48 + d \<Longrightarrow> digit_char d = c"
  by (metis char_of_char digit_char_def)

lemma not_digits [simp]: "to_digit CHR ''_'' = None" "to_digit CHR ''+'' = None"
  by (simp_all add: to_digit_def)

lemma parse_three_digits:
  assumes "n < 1000"
  shows "parse_u32 [digit_char (n div 100), digit_char (n div 10 mod 10), digit_char (n mod 10)] =
    Inr (of_nat n)"
proof -
  have d: "n div 100 < 10" "n div 10 mod 10 < 10" "n mod 10 < 10"
    using assms by (simp_all add: less_mult_imp_div_less)
  have "n div 100 = n div 10 div 10" by (simp add: div_mult2_eq [symmetric])
  then have w: "(n div 100) * 10 + n div 10 mod 10 = n div 10" by simp
  then have v: "((n div 100) * 10 + n div 10 mod 10) * 10 + n mod 10 = n" by simp
  have small: "n div 100 < 2 ^ 32" "(n div 100) * 10 + n div 10 mod 10 < 2 ^ 32"
    "((n div 100) * 10 + n div 10 mod 10) * 10 + n mod 10 < 2 ^ 32"
    unfolding v w using assms by simp_all
  have "digits_u32 0 [digit_char (n div 100), digit_char (n div 10 mod 10), digit_char (n mod 10)] =
      Inr (((n div 100) * 10 + n div 10 mod 10) * 10 + n mod 10)"
    using d small by simp
  moreover have "digit_char (n div 100) \<noteq> CHR ''+''"
    using d(1) by (simp add: digit_char_neq)
  ultimately show ?thesis unfolding v by (simp add: parse_u32_def)
qed

text \<open>The naming convention of the \<open>scripts\<close> directory: a three-digit number, an underscore
  and a name give a script with that number, that name and the statements of the file, for every
  number below 1000 and every UTF-8 name.\<close>

theorem load_entry_numbered:
  assumes "n < 1000" and "file_name d = numbered n name" and "file_text d = Inr content"
    and "name = [] \<or> \<not> continuation_byte (hd name)"
  shows "load_entry d = Returned (Inr \<lparr>script_prefix = of_nat n, script_name = name,
    stmts = split_statements content\<rparr>)"
proof -
  let ?x = "[digit_char (n div 100), digit_char (n div 10 mod 10), digit_char (n mod 10)]"
  have "split_at (file_name d) 4 = Returned (?x @ ''_'', name)"
    using assms(2,4) by (cases name) (auto simp: split_at_def char_boundary_def numbered_def)
  moreover have "digit_char (n mod 10) \<noteq> CHR ''_''"
    by (simp add: digit_char_neq)
  then have "trim_end_matches CHR ''_'' (?x @ ''_'') = ?x"
    by (simp add: trim_end_matches_def)
  ultimately show ?thesis
    using assms(3) parse_three_digits [OF assms(1)] by (simp add: load_entry_def)
qed

theorem load_entry_numbered_witness:
  "load_entry (sample_entry ''058_voucher.sql'' ''a--##b'') =
     Returned (Inr \<lparr>script_prefix = 58, script_name = ''voucher.sql'', stmts = [''a'', ''b'']\<rparr>)"
proof -
  have "file_name (sample_entry ''058_voucher.sql'' ''a--##b'') = numbered 58 ''voucher.sql''"
    by (simp add: sample_entry_def numbered_def digit_char_eqI [of "CHR ''0''" 0]
        digit_char_eqI [of "CHR ''5''" 5] digit_char_eqI [of "CHR ''8''" 8])
  moreover have "split_statements ''a--##b'' = [''a'', ''b'']"
    by (simp add: script_eval)
  ultimately show ?thesis
    using load_entry_numbered [of 58 "sample_entry ''058_voucher.sql'' ''a--##b''" "''voucher.sql''"
        "''a--##b''"]
    by (simp add: sample_entry_def continuation_byte_def)
qed

end
