(* ===== verification/Sql_Ops.thy ===== *)
theory Sql_Ops
  imports Database Scripts
begin

text \<open>
  \<open>src/sql.rs\<close>: the two SQL functions behind a session (\<open>authenticate\<close> and \<open>login\<close>) and
  the initialisation of an organization's database.  The regular expression crate is a parameter:
  \<open>alnum_match\<close> is \<open>ALPHA_NUMERIC.is_match\<close>.
\<close>

section \<open>Authentication\<close>

definition authenticate_sql :: "string \<Rightarrow> string" where
  "authenticate_sql token = ''select authenticate('' @ squote @ token @ squote @ '')''"

definition authenticate ::
    "db_env \<Rightarrow> target \<Rightarrow> string \<Rightarrow> ('w world_scheme, failure + json) state" where
  "authenticate E conn token =
     try_bind (fetch_one E conn (from_string (authenticate_sql token))) (\<lambda>row.
       of_result (of_option (custom ''Unexpected authentication result'')
         (Option.bind row (\<lambda>x. json_get x ''authenticate''))))"

definition login_sql :: "string \<Rightarrow> string \<Rightarrow> string" where
  "login_sql username password =
     ''select login('' @ squote @ username @ squote @ '', '' @ squote @ password @ squote @ '')''"

definition login ::
    "db_env \<Rightarrow> target \<Rightarrow> string \<Rightarrow> string \<Rightarrow> ('w world_scheme, failure + json) state" where
  "login E conn username password =
     try_bind (fetch_one E conn (from_string (login_sql username password))) (\<lambda>row.
     try_bind (of_result (of_option INTERNAL_ERROR row)) (\<lambda>x.
       of_result (of_option INTERNAL_ERROR (json_get x ''login''))))"

lemma issues_authenticate [issues_intros]:
  "(\<And>stm. P (Fetch c stm)) \<Longrightarrow> issues P (authenticate E c token)"
  by (simp add: authenticate_def issues_intros)

lemma issues_login [issues_intros]:
  "(\<And>stm. P (Fetch c stm)) \<Longrightarrow> issues P (login E c username password)"
  by (simp add: login_def issues_intros)

text \<open>The login statement does not determine the credentials it was built from: two different
  pairs of a user name and a password give the same SQL text, because quotes are not escaped.\<close>

theorem login_sql_ambiguous:
  "\<exists>u p u' p'. (u, p) \<noteq> (u', p') \<and> login_sql u p = login_sql u' p'"
  by (intro exI [of _ "''a''"] exI [of _ "''b'' @ squote @ '', '' @ squote @ ''c''"]
      exI [of _ "''a'' @ squote @ '', '' @ squote @ ''b''"] exI [of _ "''c''"])
    (simp add: login_sql_def squote_def)

section \<open>Organizations\<close>

record organization =
  org_name :: string
  full_name :: string
  country :: string
  book_begin :: string
  fp_code :: "32 word"
  gst_no :: "string option"
  owned_by :: "32 word"

text \<open>\<open>serde_json::to_value(organization)\<close>, by the derivation of \<open>Serialize\<close>.\<close>

definition organization_json :: "organization \<Rightarrow> json" where
  "organization_json o1 = JObj [(''name'', JStr (org_name o1)), (''full_name'', JStr (full_name o1)),
     (''country'', JStr (country o1)), (''book_begin'', JStr (book_begin o1)),
     (''fp_code'', JNum (NInt (uint (fp_code o1)))),
     (''gst_no'', case gst_no o1 of None \<Rightarrow> JNull | Some s \<Rightarrow> JStr s),
     (''owned_by'', JNum (NInt (uint (owned_by o1))))]"

definition exists_stm :: "string \<Rightarrow> statement" where
  "exists_stm name =
     from_sql_and_values ''select datname from pg_database where datname = $1 LIMIT 1''
       [SeaString (Some name)]"

definition create_database_stm :: "string \<Rightarrow> statement" where
  "create_database_stm name = from_string (''CREATE DATABASE '' @ name)"

definition set_config_stm :: "string \<Rightarrow> statement" where
  "set_config_stm config =
     from_sql_and_values ''select set_config('app.env', $1, true);'' [SeaString (Some config)]"

definition create_organization_stm :: "organization \<Rightarrow> statement" where
  "create_organization_stm o1 =
     from_sql_and_values ''select * from create_organization($1)''
       [SeaJson (Some (organization_json o1))]"

text \<open>An \<open>anyhow::Error\<close> is its text; a panic unwinds, running the destructors on its way.\<close>

datatype abort = Error string | Unwound

definition io_error_text :: "io_error \<Rightarrow> string" where
  "io_error_text e = (case e of OsError s \<Rightarrow> s | InvalidData s \<Rightarrow> s)"

definition load_scripts ::
    "io_error + (io_error + dir_entry) list \<Rightarrow> abort + script list" where
  "load_scripts dir =
     (case from_dir dir of
        Panic \<Rightarrow> Inl Unwound
      | Returned (Inl e) \<Rightarrow> Inl (Error (io_error_text e))
      | Returned (Inr scripts) \<Rightarrow> Inr scripts)"

definition run_on :: "db_env \<Rightarrow> db_call \<Rightarrow> ('w world_scheme, abort + db_row list) state" where
  "run_on E c = map_err Error (call E c)"

text \<open>What happens on the transaction of the new database.\<close>

definition fill_database ::
    "db_env \<Rightarrow> tx \<Rightarrow> string \<Rightarrow> organization \<Rightarrow>
     io_error + (io_error + dir_entry) list \<Rightarrow> ('w world_scheme, abort + unit) state" where
  "fill_database E t db_config o1 dir =
     try_bind (of_result (load_scripts dir)) (\<lambda>scripts.
     try_bind (for_each (\<lambda>script. for_each (\<lambda>stmt.
         try_bind (run_on E (Execute (OnTx t) (from_string stmt))) (\<lambda>_. ok ()))
       (stmts script)) scripts) (\<lambda>_.
     try_bind (run_on E (Execute (OnTx t) (set_config_stm db_config))) (\<lambda>_.
     try_bind (run_on E (Execute (OnTx t) (create_organization_stm o1))) (\<lambda>_. ok ()))))"

definition create_organization_db ::
    "db_env \<Rightarrow> handle \<Rightarrow> string \<Rightarrow> string \<Rightarrow> organization \<Rightarrow>
     io_error + (io_error + dir_entry) list \<Rightarrow> ('w world_scheme, abort + handle) state" where
  "create_organization_db E conn conn_uri db_config o1 dir =
     try_bind (run_on E (Execute (OnPool conn) (create_database_stm (org_name o1)))) (\<lambda>_.
     try_bind (run_on E (Close conn)) (\<lambda>_.
     try_bind (map_err Error (connect_to E (conn_uri @ ''/'' @ org_name o1))) (\<lambda>h.
     try_bind (map_err Error (begin_on E h)) (\<lambda>t.
     try_bind (on_error (drop_tx t) (fill_database E t db_config o1 dir)) (\<lambda>_.
     try_bind (run_on E (Commit t)) (\<lambda>_. ok h))))))"

definition init_organization ::
    "db_env \<Rightarrow> (string \<Rightarrow> bool) \<Rightarrow> string \<Rightarrow> string \<Rightarrow> organization \<Rightarrow>
     io_error + (io_error + dir_entry) list \<Rightarrow> ('w world_scheme, abort + handle) state" where
  "init_organization E alnum_match conn_uri db_config o1 dir =
     (if \<not> alnum_match (org_name o1) then fail (Error ''Invalid organization name'')
      else
        try_bind (map_err Error (connect_to E conn_uri)) (\<lambda>conn.
        try_bind (run_on E (Fetch (OnPool conn) (exists_stm (org_name o1)))) (\<lambda>rows.
          if rows \<noteq> [] then map_err Error (connect_to E (conn_uri @ ''/'' @ org_name o1))
          else create_organization_db E conn conn_uri db_config o1 dir)))"

lemma framed_sql_ops [framed_intros]:
  "framed (run_on E c)"
  "framed (fill_database E t db_config o1 dir)"
  "framed (create_organization_db E h uri db_config o1 dir)"
  "framed (init_organization E alnum_match uri db_config o1 dir)"
  "framed (authenticate E conn token)"
  "framed (login E conn username password)"
  unfolding init_organization_def create_organization_db_def fill_database_def run_on_def
    authenticate_def login_def
  by (simp_all add: framed_intros)

section \<open>The calls of an initialisation\<close>

lemma for_each_append:
  "run_state (for_each f (xs @ ys)) w = run_state (try_bind (for_each f xs) (\<lambda>_. for_each f ys)) w"
  by (induction xs arbitrary: w) (simp_all split: prod.split sum.split)

lemma for_each_concat:
  "run_state (for_each (\<lambda>x. for_each f (g x)) xs) w = run_state (for_each f (concat (map g xs))) w"
  by (induction xs arbitrary: w) (simp_all add: for_each_append split: prod.split sum.split)

definition statement_call :: "tx \<Rightarrow> string \<Rightarrow> db_call" where
  "statement_call t stmt = Execute (OnTx t) (from_string stmt)"

lemma for_each_calls:
  assumes "run_state (for_each (\<lambda>x. try_bind (run_on E (c x)) (\<lambda>_. ok ())) xs) w = (Inr (), w')"
  shows "calls w' = calls w @ map c xs"
  using assms
  by (induction xs arbitrary: w) (auto simp: run_on_def split: sum.splits)

lemma fill_database_calls:
  assumes "run_state (fill_database E t db_config o1 dir) w = (Inr (), w')"
  obtains scripts where "load_scripts dir = Inr scripts"
    "calls w' = calls w @ map (statement_call t) (all_statements scripts) @
       [Execute (OnTx t) (set_config_stm db_config), Execute (OnTx t) (create_organization_stm o1)]"
proof -
  obtain scripts where scripts: "load_scripts dir = Inr scripts"
    using assms by (cases "load_scripts dir") (simp_all add: fill_database_def)
  let ?run = "for_each (\<lambda>stmt. try_bind (run_on E (statement_call t stmt)) (\<lambda>_. ok ()))
      (all_statements scripts)"
  obtain r w1 where run: "run_state ?run w = (r, w1)" by fastforce
  then have "r = Inr ()"
    using assms scripts
    by (cases r) (simp_all add: fill_database_def for_each_concat statement_call_def
        all_statements_def run_on_def)
  with run have "calls w1 = calls w @ map (statement_call t) (all_statements scripts)"
    using for_each_calls by fast
  then have "calls w' = calls w @ map (statement_call t) (all_statements scripts) @
       [Execute (OnTx t) (set_config_stm db_config), Execute (OnTx t) (create_organization_stm o1)]"
    using assms scripts run \<open>r = Inr ()\<close>
    by (auto simp: fill_database_def for_each_concat statement_call_def all_statements_def run_on_def
        split: sum.splits)
  with scripts show thesis by (rule that)
qed

lemma run_begin_on:
  "run_state (begin_on E h) w =
     (map_sum id (\<lambda>_. Tx h (fresh w)) (E (calls w) (Begin (Tx h (fresh w)))),
      w\<lparr>fresh := Suc (fresh w), calls := calls w @ [Begin (Tx h (fresh w))]\<rparr>)"
  by (simp add: begin_on_def split: sum.splits)

lemma run_connect_to:
  "run_state (connect_to E url) w =
     (map_sum id (\<lambda>_. fresh w) (E (calls w) (Connect url (fresh w))),
      w\<lparr>fresh := Suc (fresh w), calls := calls w @ [Connect url (fresh w)]\<rparr>)"
  by (simp add: connect_to_def split: sum.splits)

lemma run_run_on:
  "run_state (run_on E c) w = (map_sum Error id (E (calls w) c), w\<lparr>calls := calls w @ [c]\<rparr>)"
  by (simp add: run_on_def split: sum.splits)

lemma create_organization_db_calls:
  assumes "run_state (create_organization_db E conn uri db_config o1 dir) w = (Inr h, w')"
  obtains scripts t where "load_scripts dir = Inr scripts" "tx_db t = h"
    "calls w' = calls w @ [Execute (OnPool conn) (create_database_stm (org_name o1)), Close conn,
         Connect (uri @ ''/'' @ org_name o1) h, Begin t] @
       map (statement_call t) (all_statements scripts) @
       [Execute (OnTx t) (set_config_stm db_config), Execute (OnTx t) (create_organization_stm o1),
        Commit t]"
proof -
  let ?t = "Tx (fresh w) (Suc (fresh w))"
  let ?w = "w\<lparr>fresh := Suc (Suc (fresh w)), calls := calls w @
      [Execute (OnPool conn) (create_database_stm (org_name o1)), Close conn,
       Connect (uri @ ''/'' @ org_name o1) (fresh w), Begin ?t]\<rparr>"
  obtain r w1 where fill: "run_state (fill_database E ?t db_config o1 dir) ?w = (r, w1)"
    by fastforce
  have r: "r = Inr ()" and h: "h = fresh w" and w': "calls w' = calls w1 @ [Commit ?t]"
    using assms fill
    by (auto simp: create_organization_db_def run_begin_on run_connect_to run_run_on
        split: sum.splits prod.splits)
  obtain scripts where "load_scripts dir = Inr scripts"
    "calls w1 = calls ?w @ map (statement_call ?t) (all_statements scripts) @
       [Execute (OnTx ?t) (set_config_stm db_config), Execute (OnTx ?t) (create_organization_stm o1)]"
    using fill unfolding r by (rule fill_database_calls)
  then show thesis using h w' by (intro that [of scripts ?t]) simp_all
qed

text \<open>Whichever branch is taken, the connection returned is one to the organization's database.\<close>

lemma init_organization_connects:
  assumes "run_state (init_organization E alnum_match uri db_config o1 dir) w = (Inr h, w')"
  shows "\<exists>cs. calls w' = calls w @ cs \<and> Connect (uri @ ''/'' @ org_name o1) h \<in> set cs"
proof -
  let ?fetch = "Fetch (OnPool (fresh w)) (exists_stm (org_name o1))"
  let ?w = "w\<lparr>fresh := Suc (fresh w), calls := calls w @ [Connect uri (fresh w), ?fetch]\<rparr>"
  obtain rows where rows: "E (calls w @ [Connect uri (fresh w)]) ?fetch = Inr rows"
    using assms by (auto simp: init_organization_def run_connect_to run_run_on
        split: sum.splits if_splits)
  show ?thesis
  proof (cases "rows = []")
    case True
    then have "run_state (create_organization_db E (fresh w) uri db_config o1 dir) ?w = (Inr h, w')"
      using assms rows by (auto simp: init_organization_def run_connect_to run_run_on
          split: sum.splits if_splits)
    then show ?thesis by (elim create_organization_db_calls) auto
  next
    case False
    then show ?thesis
      using assms rows by (auto simp: init_organization_def run_connect_to run_run_on
          split: sum.splits if_splits)
  qed
qed

text \<open>C29: initialising an organization whose database does not exist runs, when it succeeds, exactly:
  creating the database, connecting to it, then in one transaction every statement of the scripts in
  script order, the configuration and \<open>create_organization\<close>, and the commit.\<close>

theorem init_organization_calls:
  assumes "run_state (init_organization E alnum_match uri db_config o1 dir) w = (Inr h, w')"
    and "E (calls w @ [Connect uri (fresh w)]) (Fetch (OnPool (fresh w)) (exists_stm (org_name o1))) =
      Inr []"
  shows "\<exists>scripts t. load_scripts dir = Inr scripts \<and> tx_db t = h \<and>
    calls w' = calls w @
      [Connect uri (fresh w), Fetch (OnPool (fresh w)) (exists_stm (org_name o1)),
       Execute (OnPool (fresh w)) (create_database_stm (org_name o1)), Close (fresh w),
       Connect (uri @ ''/'' @ org_name o1) h, Begin t] @
      map (statement_call t) (all_statements scripts) @
      [Execute (OnTx t) (set_config_stm db_config), Execute (OnTx t) (create_organization_stm o1),
       Commit t]"
proof -
  let ?w = "w\<lparr>fresh := Suc (fresh w), calls := calls w @
      [Connect uri (fresh w), Fetch (OnPool (fresh w)) (exists_stm (org_name o1))]\<rparr>"
  have "run_state (create_organization_db E (fresh w) uri db_config o1 dir) ?w = (Inr h, w')"
    using assms by (auto simp: init_organization_def run_connect_to run_run_on
        split: sum.splits if_splits)
  then show ?thesis
    by (elim create_organization_db_calls) auto
qed

text \<open>A concrete organization and directory for the witnesses.\<close>

definition sample_org :: "string \<Rightarrow> organization" where
  "sample_org name = \<lparr>org_name = name, full_name = ''Org'', country = ''IN'', book_begin = ''2024-04-01'',
     fp_code = 4, gst_no = None, owned_by = 1\<rparr>"

definition one_script_dir :: "io_error + (io_error + dir_entry) list" where
  "one_script_dir = Inr [Inr (sample_entry ''000_a'' ''s--##t'')]"

lemma load_one_script:
  "load_scripts one_script_dir =
     Inr [\<lparr>script_prefix = 0, script_name = ''a'', stmts = [''s'', ''t'']\<rparr>]"
  by (simp add: load_scripts_def from_dir_def one_script_dir_def script_eval)

definition empty_world :: world where
  "empty_world = \<lparr>calls = [], fresh = 0\<rparr>"

lemmas sql_ops_eval = init_organization_def create_organization_db_def fill_database_def
  run_connect_to run_run_on run_begin_on load_one_script empty_world_def drop_tx_def

theorem init_organization_calls_witness:
  "\<exists>w'. run_state (init_organization (\<lambda>_ _. Inr []) (\<lambda>_. True) ''pg'' ''{}'' (sample_org ''acme'')
        one_script_dir) empty_world = (Inr 1, w') \<and>
     (\<exists>scripts t. load_scripts one_script_dir = Inr scripts \<and> tx_db t = 1 \<and>
        calls w' = [Connect ''pg'' 0, Fetch (OnPool 0) (exists_stm ''acme''),
          Execute (OnPool 0) (create_database_stm ''acme''), Close 0, Connect ''pg/acme'' 1, Begin t] @
        map (statement_call t) (all_statements scripts) @
        [Execute (OnTx t) (set_config_stm ''{}''),
         Execute (OnTx t) (create_organization_stm (sample_org ''acme'')), Commit t])"
proof -
  let ?m = "init_organization (\<lambda>_ _. Inr []) (\<lambda>_. True) ''pg'' ''{}'' (sample_org ''acme'') one_script_dir"
  obtain w' where w': "run_state ?m empty_world = (Inr 1, w')"
    by (simp add: sql_ops_eval)
  show ?thesis
    using w' init_organization_calls [OF w'] by (simp add: empty_world_def sample_org_def)
qed

section \<open>A failed initialisation\<close>

text \<open>What PostgreSQL documents: a created database is listed from then on.\<close>

definition remembers_database :: "db_env \<Rightarrow> string \<Rightarrow> bool" where
  "remembers_database E name \<longleftrightarrow>
     (\<forall>cs h. (\<exists>k. Execute (OnPool k) (create_database_stm name) \<in> set cs) \<longrightarrow>
        (\<exists>row rows. E cs (Fetch (OnPool h) (exists_stm name)) = Inr (row # rows)))"

definition accepts_connections :: "db_env \<Rightarrow> bool" where
  "accepts_connections E \<longleftrightarrow> (\<forall>cs url h. \<exists>rows. E cs (Connect url h) = Inr rows)"

lemma connect_accepted:
  assumes "accepts_connections E"
  shows "run_state (connect_to E url) w =
    (Inr (fresh w), w\<lparr>fresh := Suc (fresh w), calls := calls w @ [Connect url (fresh w)]\<rparr>)"
proof -
  obtain rows where "E (calls w) (Connect url (fresh w)) = Inr rows"
    using assms unfolding accepts_connections_def by metis
  then show ?thesis by (simp add: run_connect_to)
qed

text \<open>Initialisation is not atomic.  If an attempt fails after creating the database (a script
  that cannot be loaded or run, say), the same request then succeeds: it connects to the database
  left behind, without running a single statement on it.\<close>

theorem init_organization_retry:
  assumes "run_state (init_organization E alnum_match uri db_config o1 dir) w = (Inl err, w1)"
    and "calls w1 = calls w @ new" and "Execute (OnPool k) (create_database_stm (org_name o1)) \<in> set new"
    and "remembers_database E (org_name o1)" and "accepts_connections E"
  shows "\<exists>h w2. run_state (init_organization E alnum_match uri db_config o1 dir) w1 = (Inr h, w2) \<and>
    calls w2 = calls w1 @ [Connect uri (fresh w1), Fetch (OnPool (fresh w1)) (exists_stm (org_name o1)),
      Connect (uri @ ''/'' @ org_name o1) h]"
proof -
  have alnum: "alnum_match (org_name o1)"
  proof (rule ccontr)
    assume "\<not> alnum_match (org_name o1)"
    with assms(1,2) have "new = []" by (auto simp: init_organization_def)
    with assms(3) show False by simp
  qed
  have "\<exists>row rows. E (calls w1 @ [Connect uri (fresh w1)])
      (Fetch (OnPool (fresh w1)) (exists_stm (org_name o1))) = Inr (row # rows)"
    using assms(2,3,4) unfolding remembers_database_def by (elim allE impE) auto
  then show ?thesis
    using alnum by (auto simp: init_organization_def connect_accepted [OF assms(5)] run_run_on)
qed

text \<open>A database server that keeps created databases and refuses one script.\<close>

definition refusing_server :: db_env where
  "refusing_server cs c =
     (case c of
        Fetch t stm \<Rightarrow> if \<exists>k \<in> set cs. (case k of Execute _ s \<Rightarrow> s = create_database_stm ''acme'' | _ \<Rightarrow> False)
                       then Inr [Row JNull] else Inr []
      | Execute t stm \<Rightarrow> if stm = from_string ''t'' then Inl ''syntax error'' else Inr []
      | _ \<Rightarrow> Inr [])"

theorem init_organization_retry_witness:
  "\<exists>w1 w2 h. run_state (init_organization refusing_server (\<lambda>_. True) ''pg'' ''{}'' (sample_org ''acme'')
        one_script_dir) empty_world = (Inl (Error ''syntax error''), w1) \<and>
     run_state (init_organization refusing_server (\<lambda>_. True) ''pg'' ''{}'' (sample_org ''acme'')
        one_script_dir) w1 = (Inr h, w2)"
proof -
  let ?m = "init_organization refusing_server (\<lambda>_. True) ''pg'' ''{}'' (sample_org ''acme'') one_script_dir"
  let ?t = "Tx 1 2"
  let ?new = "[Connect ''pg'' 0, Fetch (OnPool 0) (exists_stm ''acme''),
      Execute (OnPool 0) (create_database_stm ''acme''), Close 0, Connect ''pg/acme'' 1, Begin ?t,
      statement_call ?t ''s'', statement_call ?t ''t'', Drop ?t]"
  let ?w1 = "\<lparr>calls = ?new, fresh = 3\<rparr>"
  have r: "run_state ?m empty_world = (Inl (Error ''syntax error''), ?w1)"
    by (simp add: sql_ops_eval refusing_server_def from_string_def create_database_stm_def
        sample_org_def statement_call_def)
  have "remembers_database refusing_server ''acme''"
    by (force simp: remembers_database_def refusing_server_def)
  moreover have "accepts_connections refusing_server"
    by (simp add: accepts_connections_def refusing_server_def)
  ultimately obtain h w2 where "run_state ?m ?w1 = (Inr h, w2)"
    using init_organization_retry [OF r, of ?new 0]
    by (auto simp: empty_world_def sample_org_def)
  with r show ?thesis by blast
qed

section \<open>Names that are not validated\<close>

definition ascii_alnum :: "char \<Rightarrow> bool" where
  "ascii_alnum c \<longleftrightarrow> (let n = of_char c :: nat in
     (48 \<le> n \<and> n \<le> 57) \<or> (65 \<le> n \<and> n \<le> 90) \<or> (97 \<le> n \<and> n \<le> 122))"

text \<open>Everything a program does after its first call leaves that call on record.\<close>

lemma issues_run_on [issues_intros]: "P c \<Longrightarrow> issues P (run_on E c)"
  by (simp add: run_on_def issues_intros)

lemma issues_connect_to [issues_intros]:
  "(\<And>n. P (Connect url n)) \<Longrightarrow> issues P (connect_to E url)"
  by (simp add: connect_to_def issues_intros)

lemma issues_fill_database [issues_intros]:
  "(\<And>stm. P (Execute (OnTx t) stm)) \<Longrightarrow> issues P (fill_database E t db_config o1 dir)"
  unfolding fill_database_def by (intro issues_intros)

lemma issues_init_organization:
  assumes "\<And>c. P c"
  shows "issues P (init_organization E alnum_match uri db_config o1 dir)"
proof -
  have "issues P (create_organization_db E h uri db_config o1 dir)" for h
    unfolding create_organization_db_def
    by (intro issues_intros issues_fill_database issues_connect_to assms)
  then show ?thesis
    unfolding init_organization_def
    by (auto intro!: issues_intros issues_connect_to assms)
qed

lemma first_call_made:
  assumes "\<And>a. issues (\<lambda>_. True) (f a)"
  shows "c \<in> set (calls (snd (run_state (try_bind (run_on E c) f) w)))"
proof (cases "E (calls w) c")
  case (Inl e)
  then show ?thesis by (simp add: run_run_on)
next
  case (Inr rows)
  let ?w = "w\<lparr>calls := calls w @ [c]\<rparr>"
  obtain r w' where run: "run_state (f rows) ?w = (r, w')" by fastforce
  with Inr issuesD [OF assms run] show ?thesis by (auto simp: run_run_on)
qed

text \<open>The check of an organization's name lets through every name that contains one letter or
  digit, because the pattern is not anchored: with a connection and no such database, the statement
  executed is \<open>CREATE DATABASE\<close> followed by the name as it came in the request.\<close>

theorem init_organization_name_unchecked:
  assumes "\<And>s. \<exists>c \<in> set s. ascii_alnum c \<Longrightarrow> alnum_match s"
    and "c \<in> set (org_name o1)" and "ascii_alnum c" and "accepts_connections E"
    and "E (calls w @ [Connect uri (fresh w)]) (Fetch (OnPool (fresh w)) (exists_stm (org_name o1))) =
      Inr []"
  shows "Execute (OnPool (fresh w)) \<lparr>stm_sql = ''CREATE DATABASE '' @ org_name o1, stm_values = []\<rparr>
    \<in> set (calls (snd (run_state (init_organization E alnum_match uri db_config o1 dir) w)))"
proof -
  have alnum: "alnum_match (org_name o1)" using assms(1-3) by blast
  let ?w = "w\<lparr>fresh := Suc (fresh w), calls := calls w @
      [Connect uri (fresh w), Fetch (OnPool (fresh w)) (exists_stm (org_name o1))]\<rparr>"
  let ?m = "create_organization_db E (fresh w) uri db_config o1 dir"
  have "\<exists>rows. E (calls w) (Connect uri (fresh w)) = Inr rows"
    using assms(4) by (simp add: accepts_connections_def)
  then have eq: "run_state (init_organization E alnum_match uri db_config o1 dir) w = run_state ?m ?w"
    using alnum assms(5) by (auto simp: init_organization_def run_connect_to run_run_on)
  define stm where "stm = Execute (OnPool (fresh w)) (create_database_stm (org_name o1))"
  have "stm \<in> set (calls (snd (run_state ?m ?w)))"
    unfolding create_organization_db_def stm_def
    by (rule first_call_made) (intro issues_intros issues_fill_database issues_connect_to TrueI)
  then show ?thesis by (simp add: eq stm_def create_database_stm_def from_string_def)
qed

theorem init_organization_name_unchecked_witness:
  "Execute (OnPool 0) \<lparr>stm_sql = ''CREATE DATABASE x; DROP DATABASE y'', stm_values = []\<rparr>
    \<in> set (calls (snd (run_state (init_organization (\<lambda>_ _. Inr []) (\<lambda>s. \<exists>c \<in> set s. ascii_alnum c)
        ''pg'' ''{}'' (sample_org ''x; DROP DATABASE y'') one_script_dir) empty_world)))"
  using init_organization_name_unchecked [of "\<lambda>s. \<exists>c \<in> set s. ascii_alnum c" "CHR ''x''"
      "sample_org ''x; DROP DATABASE y''" "\<lambda>_ _. Inr []" empty_world "''pg''"]
  by (simp add: empty_world_def sample_org_def ascii_alnum_def accepts_connections_def)

end
