(* ===== verification/App.thy ===== *)
theory App
  imports Pool Sql_Ops
begin

text \<open>
  \<open>src/main.rs\<close> and \<open>src/handler/organization.rs\<close>: the configuration, the start of the
  server (connect to every database, add it to the pool, watch its changes) and the route that adds
  an organization while the server runs.  The text \<open>sea_query\<close> builds for the list of databases
  and \<open>serde_json::to_string\<close> (\<open>json_text\<close>) are parameters.
\<close>

record db_config =
  jwt_private_key :: string
  vault_key :: string
  gst_host :: string
  gst_auth_key :: string

record app_config =
  listen_port :: string
  db_url :: string
  db_config :: db_config

definition db_config_json :: "db_config \<Rightarrow> json" where
  "db_config_json c = JObj [(''jwt_private_key'', JStr (jwt_private_key c)),
     (''vault_key'', JStr (vault_key c)), (''gst_host'', JStr (gst_host c)),
     (''gst_auth_key'', JStr (gst_auth_key c))]"

text \<open>The state of the running server; \<open>watched\<close> lists the databases with a spawned pair of
  change tasks, in the order they were spawned.\<close>

record server = world +
  app_db :: db_connection
  watched :: "string list"

definition stream_db :: "string \<Rightarrow> server \<Rightarrow> server" where
  "stream_db db_name s = s\<lparr>watched := watched s @ [db_name]\<rparr>"

definition add_to_pool :: "string \<Rightarrow> handle \<Rightarrow> server \<Rightarrow> server" where
  "add_to_pool name h s = s\<lparr>app_db := pool_add name h (app_db s)\<rparr>"

text \<open>\<open>unwrap\<close> and \<open>expect\<close>.\<close>

definition expect :: "('s, 'e + 'a) state \<Rightarrow> ('s, abort + 'a) state" where
  "expect m = map_err (\<lambda>_. Unwound) m"

text \<open>\<open>find_by_statement(..).all(..)\<close>: every row converted, or the first failure.\<close>

fun all_rows :: "db_row list \<Rightarrow> string + json list" where
  "all_rows [] = Inr []"
| "all_rows (Row v # rs) = map_sum id (\<lambda>vs. v # vs) (all_rows rs)"
| "all_rows (BadRow msg # rs) = Inl msg"
| "all_rows (LostRow msg # rs) = Inl msg"

definition open_database :: "db_env \<Rightarrow> app_config \<Rightarrow> json \<Rightarrow> (server, abort + unit) state" where
  "open_database E cfg data =
     try_bind (of_result (of_option Unwound (Option.bind (json_get data ''datname'') as_str))) (\<lambda>db_name.
     try_bind (expect (connect_to E (db_url cfg @ ''/'' @ db_name))) (\<lambda>h.
     try_bind (modify (add_to_pool db_name h)) (\<lambda>_.
       modify (stream_db db_name))))"

definition boot :: "db_env \<Rightarrow> statement \<Rightarrow> app_config \<Rightarrow> (server, abort + unit) state" where
  "boot E databases_stm cfg =
     try_bind (expect (connect_to E (db_url cfg @ ''/postgres''))) (\<lambda>conn.
     try_bind (expect (call E (Fetch (OnPool conn) databases_stm))) (\<lambda>rows.
     try_bind (expect (of_result (all_rows rows))) (\<lambda>out.
       for_each (open_database E cfg) out)))"

text \<open>A handler's failure is a status and a body; a panic closes the connection instead.\<close>

datatype http_failure = Status nat string | HandlerPanic

fun init_failure :: "abort \<Rightarrow> http_failure" where
  "init_failure (Error e) = Status 500 e"
| "init_failure Unwound = HandlerPanic"

definition organization_init ::
    "(json \<Rightarrow> string) \<Rightarrow> db_env \<Rightarrow> (string \<Rightarrow> bool) \<Rightarrow> app_config \<Rightarrow> organization \<Rightarrow>
     io_error + (io_error + dir_entry) list \<Rightarrow> (server, http_failure + json) state" where
  "organization_init json_text E alnum_match cfg input dir =
     try_bind (map_err init_failure (init_organization E alnum_match (db_url cfg)
         (json_text (db_config_json (db_config cfg))) input dir)) (\<lambda>db.
     try_bind (modify (add_to_pool (org_name input) db)) (\<lambda>_.
       ok (JObj [(''msg'', JStr ''Organization init successful.'')])))"

section \<open>Every pool entry is a connection to its organization's database\<close>

definition pool_sound :: "app_config \<Rightarrow> server \<Rightarrow> bool" where
  "pool_sound cfg s \<longleftrightarrow> (\<forall>name h. pool_get (app_db s) name = Some h \<longrightarrow>
     Connect (db_url cfg @ ''/'' @ name) h \<in> set (calls s))"

lemma pool_soundD:
  "pool_sound cfg s \<Longrightarrow> pool_get (app_db s) name = Some h \<Longrightarrow>
     Connect (db_url cfg @ ''/'' @ name) h \<in> set (calls s)"
  by (simp add: pool_sound_def)

lemma pool_sound_grows:
  assumes "pool_sound cfg s" "app_db s' = app_db s" "set (calls s) \<subseteq> set (calls s')"
  shows "pool_sound cfg s'"
  using assms by (auto simp: pool_sound_def)

lemma pool_sound_add:
  assumes "pool_sound cfg s" "Connect (db_url cfg @ ''/'' @ name) h \<in> set (calls s)"
  shows "pool_sound cfg (add_to_pool name h s)"
  using assms by (auto simp: pool_sound_def add_to_pool_def pool.get_add)

lemma framed_server:
  assumes "framed m" "run_state m s = (r, s')"
  shows "app_db s' = app_db s" "watched s' = watched s"
proof -
  have "world.more s' = world.more s" using assms by (rule framedD)
  then show "app_db s' = app_db s" "watched s' = watched s"
    by (cases s; cases s'; simp)+
qed

lemma organization_init_success:
  assumes "run_state (organization_init json_text E alnum_match cfg input dir) s = (Inr v, s')"
  obtains h s1 where
    "run_state (init_organization E alnum_match (db_url cfg)
        (json_text (db_config_json (db_config cfg))) input dir) s = (Inr h, s1)"
    "s' = add_to_pool (org_name input) h s1" "app_db s1 = app_db s" "watched s1 = watched s"
proof -
  let ?m = "init_organization E alnum_match (db_url cfg)
      (json_text (db_config_json (db_config cfg))) input dir"
  obtain r s1 where m: "run_state ?m s = (r, s1)" by fastforce
  then obtain h where "r = Inr h"
    using assms by (cases r) (simp_all add: organization_init_def)
  with m assms have "s' = add_to_pool (org_name input) h s1"
    by (simp add: organization_init_def)
  with m \<open>r = Inr h\<close> framed_server [OF _ m] show thesis
    by (auto intro: that simp: framed_intros)
qed

lemma organization_init_failure:
  assumes "run_state (organization_init json_text E alnum_match cfg input dir) s = (Inl e, s')"
  shows "app_db s' = app_db s \<and> watched s' = watched s \<and> (\<forall>code msg. e = Status code msg \<longrightarrow> code = 500)"
proof -
  let ?m = "init_organization E alnum_match (db_url cfg)
      (json_text (db_config_json (db_config cfg))) input dir"
  obtain r s1 where m: "run_state ?m s = (r, s1)" by fastforce
  with assms obtain a where "r = Inl a" "e = init_failure a" "s' = s1"
    by (cases r) (auto simp: organization_init_def)
  with framed_server [OF _ m] show ?thesis
    by (cases a) (auto simp: framed_intros)
qed

section \<open>Start of the server\<close>

lemma run_expect_connect_to:
  "run_state (expect (connect_to E url)) w =
     (map_sum (\<lambda>_. Unwound) (\<lambda>_. fresh w) (E (calls w) (Connect url (fresh w))),
      w\<lparr>fresh := Suc (fresh w), calls := calls w @ [Connect url (fresh w)]\<rparr>)"
  by (auto simp: expect_def run_connect_to split: sum.split)

lemma run_expect_call:
  "run_state (expect (call E c)) w =
     (map_sum (\<lambda>_. Unwound) id (E (calls w) c), w\<lparr>calls := calls w @ [c]\<rparr>)"
  by (simp add: expect_def split: sum.split)

text \<open>What the pool and the list of watched databases have to do with each other after the start.\<close>

definition boot_inv :: "app_config \<Rightarrow> server \<Rightarrow> bool" where
  "boot_inv cfg s \<longleftrightarrow> pool_sound cfg s \<and> set (watched s) = set (pool_list (app_db s))"

lemma open_database_keeps:
  assumes "boot_inv cfg s" "run_state (open_database E cfg data) s = (Inr (), s')"
  shows "boot_inv cfg s'"
proof -
  obtain name where name: "Option.bind (json_get data ''datname'') as_str = Some name"
    using assms(2) by (cases "Option.bind (json_get data ''datname'') as_str")
      (simp_all add: open_database_def)
  let ?url = "db_url cfg @ ''/'' @ name"
  let ?s = "s\<lparr>fresh := Suc (fresh s), calls := calls s @ [Connect ?url (fresh s)]\<rparr>"
  have s': "s' = stream_db name (add_to_pool name (fresh s) ?s)"
    using assms(2) name
    by (auto simp: open_database_def run_expect_connect_to split: sum.splits)
  have "pool_sound cfg ?s"
    by (rule pool_sound_grows [of cfg s]) (use assms(1) in \<open>auto simp: boot_inv_def\<close>)
  then have "pool_sound cfg (add_to_pool name (fresh s) ?s)"
    by (rule pool_sound_add) simp
  then have "pool_sound cfg s'"
    unfolding s' by (rule pool_sound_grows) (simp_all add: stream_db_def)
  moreover have "set (watched s') = set (pool_list (app_db s'))"
    using assms(1) by (simp add: s' stream_db_def add_to_pool_def pool.listed_add boot_inv_def)
  ultimately show ?thesis by (simp add: boot_inv_def)
qed

lemma open_all_keeps:
  assumes "boot_inv cfg s" "run_state (for_each (open_database E cfg) out) s = (Inr (), s')"
  shows "boot_inv cfg s'"
  using assms
proof (induction out arbitrary: s)
  case (Cons data out)
  obtain r s1 where one: "run_state (open_database E cfg data) s = (r, s1)" by fastforce
  with Cons.prems(2) have "r = Inr ()" "run_state (for_each (open_database E cfg) out) s1 = (Inr (), s')"
    by (auto split: sum.splits)
  with one Cons show ?case using open_database_keeps by blast
qed simp

definition started_with :: "server \<Rightarrow> bool" where
  "started_with s \<longleftrightarrow> app_db s = default_pool \<and> watched s = []"

lemma boot_establishes:
  assumes "run_state (boot E databases_stm cfg) s = (Inr (), s')" "started_with s"
  shows "boot_inv cfg s'"
proof -
  let ?conn = "Connect (db_url cfg @ ''/postgres'') (fresh s)"
  let ?s = "s\<lparr>fresh := Suc (fresh s),
      calls := calls s @ [?conn, Fetch (OnPool (fresh s)) databases_stm]\<rparr>"
  have "boot_inv cfg ?s"
    using assms(2)
    by (simp add: boot_inv_def pool_sound_def started_with_def pool.get_empty pool.set_listed)
  moreover obtain out where "run_state (for_each (open_database E cfg) out) ?s = (Inr (), s')"
    using assms(1) by (auto simp: boot_def run_expect_connect_to run_expect_call
        expect_def [of "of_result _"] split: sum.splits)
  ultimately show ?thesis by (rule open_all_keeps)
qed

section \<open>The running server\<close>

text \<open>The states the server goes through: its start, then organizations initialised in any order,
  with any outcome, each finding the script directory as it is at the time.\<close>

inductive serving ::
    "(json \<Rightarrow> string) \<Rightarrow> db_env \<Rightarrow> (string \<Rightarrow> bool) \<Rightarrow> statement \<Rightarrow> app_config \<Rightarrow> server \<Rightarrow> bool"
  for json_text E alnum_match databases_stm cfg where
  start: "serving json_text E alnum_match databases_stm cfg s'"
    if "run_state (boot E databases_stm cfg) s = (Inr (), s')" "started_with s"
| org_init: "serving json_text E alnum_match databases_stm cfg s'"
    if "serving json_text E alnum_match databases_stm cfg s"
      "run_state (organization_init json_text E alnum_match cfg input dir) s = (r, s')"

lemma organization_init_keeps:
  assumes "pool_sound cfg s" "run_state (organization_init json_text E alnum_match cfg input dir) s = (r, s')"
  shows "pool_sound cfg s'"
proof -
  let ?m = "init_organization E alnum_match (db_url cfg)
      (json_text (db_config_json (db_config cfg))) input dir"
  obtain x s1 where m: "run_state ?m s = (x, s1)" by fastforce
  have "issues (\<lambda>_. True) ?m" by (rule issues_init_organization) simp
  from issuesD [OF this m] have grows: "set (calls s) \<subseteq> set (calls s1)" by auto
  have same: "app_db s1 = app_db s" using framed_server [OF _ m] by (simp add: framed_intros)
  have sound: "pool_sound cfg s1" by (rule pool_sound_grows [OF assms(1) same grows])
  show ?thesis
  proof (cases x)
    case (Inl a)
    with m assms(2) sound show ?thesis by (simp add: organization_init_def)
  next
    case (Inr h)
    with m assms(2) have "s' = add_to_pool (org_name input) h s1"
      by (auto simp: organization_init_def)
    moreover have "Connect (db_url cfg @ ''/'' @ org_name input) h \<in> set (calls s1)"
      using init_organization_connects [OF m [unfolded Inr]] by auto
    ultimately show ?thesis using pool_sound_add [OF sound] by simp
  qed
qed

lemma serving_pool_sound:
  "serving json_text E alnum_match databases_stm cfg s \<Longrightarrow> pool_sound cfg s"
proof (induction rule: serving.induct)
  case (start s s')
  then show ?case using boot_establishes by (auto simp: boot_inv_def)
next
  case (org_init s input dir r s')
  then show ?case using organization_init_keeps by blast
qed

text \<open>A start with one organization, for the witnesses.\<close>

definition sample_config :: app_config where
  "sample_config = \<lparr>listen_port = ''80'', db_url = ''pg'',
     db_config = \<lparr>jwt_private_key = ''k'', vault_key = ''v'', gst_host = ''h'', gst_auth_key = ''a''\<rparr>\<rparr>"

definition acme_server :: db_env where
  "acme_server cs c =
     (if c = Fetch (OnPool 0) (from_string ''dbs'')
      then Inr [Row (JObj [(''datname'', JStr ''acme'')])] else Inr [])"

definition cold :: server where
  "cold = \<lparr>calls = [], fresh = 0, app_db = default_pool, watched = []\<rparr>"

definition booted :: server where
  "booted = \<lparr>calls = [Connect ''pg/postgres'' 0, Fetch (OnPool 0) (from_string ''dbs''),
       Connect ''pg/acme'' 1], fresh = 2, app_db = \<lparr>pools = [(''acme'', 1)]\<rparr>, watched = [''acme'']\<rparr>"

lemma started_cold: "started_with cold"
  by (simp add: started_with_def cold_def)

lemma boot_cold: "run_state (boot acme_server (from_string ''dbs'') sample_config) cold = (Inr (), booted)"
  by (simp add: boot_def open_database_def run_connect_to expect_def acme_server_def      sample_config_def cold_def booted_def add_to_pool_def stream_db_def
      pool_add_def default_pool_def)



text \<open>Whatever organizations were initialised since the start, every entry of the pool is a
  connection that was opened to the database named like the organization it is filed under.\<close>

theorem pool_entry_is_own_database:
  assumes "serving json_text E alnum_match databases_stm cfg s" "pool_get (app_db s) name = Some h"
  shows "Connect (db_url cfg @ ''/'' @ name) h \<in> set (calls s)"
  using serving_pool_sound [OF assms(1)] assms(2) by (rule pool_soundD)

theorem pool_entry_is_own_database_witness:
  "Connect ''pg/acme'' 1 \<in> set (calls booted)"
  using pool_entry_is_own_database [OF serving.start [OF boot_cold started_cold], of "''acme''" 1]
  by (simp add: booted_def pool_get_def sample_config_def)

text \<open>After the start every database in the pool has its change tasks, and no other database has.\<close>

theorem boot_watches_pool:
  assumes "run_state (boot E databases_stm cfg) s = (Inr (), s')" "started_with s"
  shows "pool_get (app_db s') name \<noteq> None \<longleftrightarrow> name \<in> set (watched s')"
  using boot_establishes [OF assms] by (simp add: boot_inv_def pool.set_listed)

theorem boot_watches_pool_witness:
  "pool_get (app_db booted) ''acme'' \<noteq> None \<and> ''acme'' \<in> set (watched booted)"
  using boot_watches_pool [OF boot_cold started_cold, of "''acme''"]
  by (simp add: booted_def pool_get_def)

text \<open>An organization initialised while the server runs is served but not watched: the request
  puts it in the pool and spawns no change tasks for its database.\<close>

theorem organization_init_not_watched:
  assumes "run_state (organization_init json_text E alnum_match cfg input dir) s = (Inr v, s')"
  shows "pool_get (app_db s') (org_name input) \<noteq> None \<and> watched s' = watched s"
  using assms by (elim organization_init_success) (auto simp: add_to_pool_def pool.get_add)

theorem organization_init_not_watched_witness:
  "\<exists>s'. run_state (organization_init (\<lambda>_. ''{}'') (\<lambda>_ _. Inr []) (\<lambda>_. True) sample_config
       (sample_org ''beta'') one_script_dir) booted
       = (Inr (JObj [(''msg'', JStr ''Organization init successful.'')]), s') \<and>
     pool_get (app_db s') ''beta'' \<noteq> None \<and> ''beta'' \<notin> set (watched s')"
proof -
  let ?m = "organization_init (\<lambda>_. ''{}'') (\<lambda>_ _. Inr []) (\<lambda>_. True) sample_config
       (sample_org ''beta'') one_script_dir"
  obtain s' where s': "run_state ?m booted
      = (Inr (JObj [(''msg'', JStr ''Organization init successful.'')]), s')"
    by (simp add: organization_init_def sql_ops_eval)
  from organization_init_not_watched [OF s'] s' show ?thesis
    by (auto simp: sample_org_def booted_def)
qed

text \<open>A failed initialisation leaves the pool and the change tasks as they were, and the reply,
  when there is one, is the status 500.\<close>

theorem organization_init_failure_is_500:
  assumes "run_state (organization_init json_text E alnum_match cfg input dir) s = (Inl e, s')"
  shows "app_db s' = app_db s \<and> watched s' = watched s \<and> (e = HandlerPanic \<or> (\<exists>msg. e = Status 500 msg))"
  using organization_init_failure [OF assms] by (cases e) auto

theorem organization_init_failure_is_500_witness:
  "\<exists>s'. run_state (organization_init (\<lambda>_. ''{}'') (\<lambda>_ _. Inr []) (\<lambda>_. False) sample_config
       (sample_org ''-'') one_script_dir) booted = (Inl (Status 500 ''Invalid organization name''), s') \<and>
     app_db s' = app_db booted \<and> watched s' = [''acme'']"
proof -
  let ?m = "organization_init (\<lambda>_. ''{}'') (\<lambda>_ _. Inr []) (\<lambda>_. False) sample_config
       (sample_org ''-'') one_script_dir"
  obtain s' where s': "run_state ?m booted = (Inl (Status 500 ''Invalid organization name''), s')"
    by (simp add: organization_init_def init_organization_def)
  from organization_init_failure_is_500 [OF s'] s' show ?thesis
    by (auto simp: booted_def)
qed

end
