(* ===== verification/Session.thy ===== *)
theory Session
  imports App
begin

text \<open>
  \<open>src/session.rs\<close>: what a connection knows about its client, and how a request is turned
  into a session.  The extractors of \<open>axum\<close> are parameters: a request is given by what they
  return on it.
\<close>

datatype session_type = Member | PosServer

record session =
  sess_db :: handle
  sess_txn :: "tx option"
  sess_org :: string
  sess_claims :: "json option"

definition session_new :: "string \<Rightarrow> handle \<Rightarrow> session" where
  "session_new organization db_handle = \<lparr>sess_db = db_handle, sess_txn = None, sess_org = organization,
     sess_claims = None\<rparr>"

text \<open>The derived \<open>Deserialize\<close> of an enum of unit variants: the name, or an object with the name
  as its only key and \<open>null\<close> below it.\<close>

fun variant_name :: "json \<Rightarrow> string option" where
  "variant_name (JStr s) = Some s"
| "variant_name (JObj [(k, JNull)]) = Some k"
| "variant_name _ = None"

definition session_type_of_json :: "json \<Rightarrow> session_type option" where
  "session_type_of_json j =
     (case variant_name j of
        None \<Rightarrow> None
      | Some n \<Rightarrow> if n = ''Member'' then Some Member
                 else if n = ''PosServer'' then Some PosServer else None)"

definition claim_type :: "session \<Rightarrow> session_type option" where
  "claim_type s =
     Option.bind (sess_claims s) (\<lambda>x. Option.bind (json_get x ''claim_type'') session_type_of_json)"

section \<open>From a request to a session\<close>

record request_parts =
  path_org :: "string + string"
  x_auth :: "string option"
  query_token :: "string + string option"

datatype rejection = PathRejection string | Rejected nat string

definition presented_token :: "request_parts \<Rightarrow> string option" where
  "presented_token parts =
     (case x_auth parts of
        Some token \<Rightarrow> Some token
      | None \<Rightarrow> (case query_token parts of Inl _ \<Rightarrow> None | Inr auth_token \<Rightarrow> auth_token))"

definition attempt :: "('s, 'e + 'a) state \<Rightarrow> ('s, 'f + 'e + 'a) state" where
  "attempt m = State (\<lambda>s. case run_state m s of (r, s') \<Rightarrow> (Inr r, s'))"

lemma run_attempt [simp]: "run_state (attempt m) s = (case run_state m s of (r, s') \<Rightarrow> (Inr r, s'))"
  by (simp add: attempt_def)

definition with_claims :: "json option \<Rightarrow> session \<Rightarrow> session" where
  "with_claims claims s = s\<lparr>sess_claims := claims\<rparr>"

definition from_request_parts ::
    "db_env \<Rightarrow> db_connection \<Rightarrow> request_parts \<Rightarrow> ('w world_scheme, rejection + session) state" where
  "from_request_parts E d parts =
     try_bind (of_result (map_sum PathRejection id (path_org parts))) (\<lambda>org.
     try_bind (of_result (of_option (Rejected 404 ''Invalid organization'') (pool_get d org))) (\<lambda>db_handle.
     try_bind (of_result (map_sum (Rejected 400) id (query_token parts))) (\<lambda>_.
       (case presented_token parts of
          None \<Rightarrow> ok (session_new org db_handle)
        | Some token \<Rightarrow>
            try_bind (attempt (authenticate E (OnPool db_handle) token)) (\<lambda>res.
              ok (case res of
                    Inr claims \<Rightarrow> with_claims (Some claims) (session_new org db_handle)
                  | Inl _ \<Rightarrow> session_new org db_handle))))))"

lemma run_authenticate:
  "run_state (authenticate E c token) w =
     (case map_sum failure_of_db_err id (E (calls w) (Fetch c (from_string (authenticate_sql token)))) of
        Inl e \<Rightarrow> Inl e
      | Inr rows \<Rightarrow>
          (case first_row rows of
             Inl e \<Rightarrow> Inl e
           | Inr row \<Rightarrow> of_option (custom ''Unexpected authentication result'')
               (Option.bind row (\<lambda>x. json_get x ''authenticate''))),
      w\<lparr>calls := calls w @ [Fetch c (from_string (authenticate_sql token))]\<rparr>)"
  by (auto simp: authenticate_def fetch_one_def split: sum.split)

text \<open>The answer of the database that makes a token's claims.\<close>

definition grants :: "db_row list \<Rightarrow> json \<Rightarrow> bool" where
  "grants rows claims \<longleftrightarrow> (\<exists>v rest. rows = Row v # rest \<and> json_get v ''authenticate'' = Some claims)"

lemma authenticate_grants:
  assumes "run_state (authenticate E c token) w = (Inr claims, w')"
  shows "\<exists>rows. E (calls w) (Fetch c (from_string (authenticate_sql token))) = Inr rows \<and> grants rows claims"
proof -
  let ?q = "Fetch c (from_string (authenticate_sql token))"
  obtain rows where rows: "E (calls w) ?q = Inr rows"
    using assms by (auto simp: run_authenticate split: sum.splits)
  with assms obtain row where row: "first_row rows = Inr row"
    by (cases "first_row rows") (simp_all add: run_authenticate)
  with assms rows obtain v where "row = Some v" "json_get v ''authenticate'' = Some claims"
    by (cases row; cases "Option.bind row (\<lambda>x. json_get x ''authenticate'')")
      (simp_all add: run_authenticate)
  with row have "grants rows claims"
    by (auto simp: grants_def first_row_def split: list.splits db_row.splits)
  with rows show ?thesis by blast
qed

text \<open>What a successful extraction looked up, and whom it asked.\<close>

lemma from_request_parts_cases:
  assumes "run_state (from_request_parts E d parts) w = (Inr s, w')"
  obtains org h where "path_org parts = Inr org" "pool_get d org = Some h"
    "s = session_new org h \<or>
     (\<exists>token claims w1. presented_token parts = Some token \<and>
        run_state (authenticate E (OnPool h) token) w = (Inr claims, w1) \<and>
        s = with_claims (Some claims) (session_new org h))"
proof -
  obtain org where org: "path_org parts = Inr org"
    using assms by (cases "path_org parts") (simp_all add: from_request_parts_def)
  obtain h where h: "pool_get d org = Some h"
    using assms org by (cases "pool_get d org") (simp_all add: from_request_parts_def)
  obtain q where q: "query_token parts = Inr q"
    using assms org h by (cases "query_token parts") (simp_all add: from_request_parts_def)
  show thesis
  proof (cases "presented_token parts")
    case None
    then have "s = session_new org h"
      using assms org h q by (simp add: from_request_parts_def)
    with org h show thesis using that by blast
  next
    case (Some token)
    obtain r w1 where auth: "run_state (authenticate E (OnPool h) token) w = (r, w1)" by fastforce
    have "s = (case r of Inr claims \<Rightarrow> with_claims (Some claims) (session_new org h)
        | Inl _ \<Rightarrow> session_new org h)"
      using assms org h q Some auth by (simp add: from_request_parts_def)
    with org h Some auth show thesis
      by (intro that) (auto split: sum.splits)
  qed
qed

lemma from_request_parts_session:
  assumes "run_state (from_request_parts E d parts) w = (Inr s, w')"
  shows "path_org parts = Inr (sess_org s) \<and> pool_get d (sess_org s) = Some (sess_db s) \<and> sess_txn s = None"
  using assms by (elim from_request_parts_cases) (auto simp: session_new_def with_claims_def)

text \<open>C28: a session belongs to an organization that is in the pool, starts without a transaction, and
  carries claims only if a token was presented and the database answered it with exactly those
  claims; any failure of the authentication gives an anonymous session instead of a refusal.\<close>

theorem session_claims_authenticated:
  assumes "run_state (from_request_parts E d parts) w = (Inr s, w')"
  shows "pool_get d (sess_org s) = Some (sess_db s) \<and> sess_txn s = None \<and>
    (\<forall>claims. sess_claims s = Some claims \<longrightarrow>
       (\<exists>token rows. presented_token parts = Some token \<and>
          E (calls w) (Fetch (OnPool (sess_db s)) (from_string (authenticate_sql token))) = Inr rows \<and>
          grants rows claims))"
  using assms
  by (elim from_request_parts_cases)
    (auto simp: session_new_def with_claims_def dest: authenticate_grants)

definition granting :: db_env where
  "granting cs c = Inr [Row (JObj [(''authenticate'', JObj [(''role'', JStr ''admin'')])])]"

definition sample_parts :: request_parts where
  "sample_parts = \<lparr>path_org = Inr ''acme'', x_auth = None, query_token = Inr (Some ''tok'')\<rparr>"

theorem session_claims_authenticated_witness:
  "\<exists>w'. run_state (from_request_parts granting \<lparr>pools = [(''acme'', 1)]\<rparr> sample_parts) empty_world =
      (Inr \<lparr>sess_db = 1, sess_txn = None, sess_org = ''acme'',
         sess_claims = Some (JObj [(''role'', JStr ''admin'')])\<rparr>, w') \<and>
    (\<exists>token rows. presented_token sample_parts = Some token \<and>
       grants rows (JObj [(''role'', JStr ''admin'')]))"
proof -
  let ?s = "\<lparr>sess_db = 1, sess_txn = None, sess_org = ''acme'',
         sess_claims = Some (JObj [(''role'', JStr ''admin'')])\<rparr>"
  obtain w' where w': "run_state (from_request_parts granting \<lparr>pools = [(''acme'', 1)]\<rparr> sample_parts)
      empty_world = (Inr ?s, w')"
    by (simp add: from_request_parts_def sample_parts_def presented_token_def pool_get_def
        run_authenticate granting_def first_row_def session_new_def with_claims_def)
  with session_claims_authenticated [OF w'] show ?thesis by auto
qed

text \<open>A request for an organization that is not in the pool is refused with 404 before its query
  string is looked at and without a call to any database.\<close>

theorem unknown_organization_rejected:
  assumes "path_org parts = Inr org" "pool_get d org = None"
  shows "run_state (from_request_parts E d parts) w = (Inl (Rejected 404 ''Invalid organization''), w)"
  using assms by (simp add: from_request_parts_def)

theorem unknown_organization_rejected_witness:
  "run_state (from_request_parts granting default_pool sample_parts) empty_world =
     (Inl (Rejected 404 ''Invalid organization''), empty_world)"
  using unknown_organization_rejected [of sample_parts "''acme''" default_pool]
  by (simp add: sample_parts_def pool.get_empty)

end
