(* ===== verification/Cdc.thy ===== *)
theory Cdc
  imports Json_Value
begin

text \<open>
  \<open>tenant/src/cdc/mod.rs\<close> and \<open>action.rs\<close>: the change events that wal2json reports and the
  transactions they are grouped into.
\<close>

record column =
  col_name :: string
  col_value :: json

record insert_action =
  ins_columns :: "column list"
  ins_schema :: string
  ins_table :: string

record update_action =
  upd_identity :: "column list"
  upd_columns :: "column list"
  upd_schema :: string
  upd_table :: string

record delete_action =
  del_identity :: "column list"
  del_schema :: string
  del_table :: string

datatype action =
    ActBegin
  | ActCommit
  | ActInsert insert_action
  | ActUpdate update_action
  | ActDelete delete_action

record transaction =
  xid :: "32 word option"
  commit_time :: "32 word option"
  events :: "action list"

text \<open>Actions that are neither \<open>Begin\<close> nor \<open>Commit\<close>.\<close>

fun is_change :: "action \<Rightarrow> bool" where
  "is_change ActBegin = False"
| "is_change ActCommit = False"
| "is_change (ActInsert a) = True"
| "is_change (ActUpdate a) = True"
| "is_change (ActDelete a) = True"

definition fresh_transaction :: transaction where
  "fresh_transaction = \<lparr>xid = None, commit_time = None, events = []\<rparr>"

end
