(* ===== verification/Rpc.thy ===== *)
theory Rpc
  imports Failures Sql_Value Cdc
begin

text \<open>
  \<open>tenant/src/rpc.rs\<close>: the requests a client sends and the three kinds of message a server
  sends back.
\<close>

type_synonym query_result = "failure + json"

record query_stream_notification =
  qsn_stream_id :: uuid
  qsn_data :: "json option"

record listen_channel_response =
  lcr_channel :: string
  lcr_data :: transaction

record login_params =
  lp_username :: string
  lp_password :: string

datatype transaction_action = TxnBegin | TxnCommit | TxnRollback

record query_stream_params =
  qsp_id :: uuid
  qsp_params :: query_params

datatype request_data =
    Query query_params
  | Authenticate string
  | Login login_params
  | Transaction transaction_action
  | QueryStream query_stream_params

record request =
  req_id :: string
  req_data :: request_data

record response =
  resp_id :: string
  resp_result :: query_result

datatype db_response =
    QueryResponse response
  | QueryStreamNotification query_stream_notification
  | ListenChanel listen_channel_response

text \<open>WebSocket messages: the constructors the source matches on.\<close>

datatype message =
    TextMsg string
  | BinaryMsg "8 word list"
  | PingMsg "8 word list"
  | PongMsg "8 word list"
  | CloseMsg
  | FrameMsg

end
