(* ===== verification/Util_Float.thy ===== *)
theory Util_Float
  imports Json_Value
begin

text \<open>
  \<open>src/util.rs\<close>: the rewriting of a result row before it is sent, which turns every number
  without fractional part into an integer.  The number goes through \<open>f64\<close> on the way:
  \<open>as_f64\<close> rounds an integer to the nearest \<open>f64\<close> (ties to even), and the cast back to
  \<open>i64\<close> saturates.
\<close>

section \<open>The casts between i64, u64 and f64\<close>

text \<open>\<open>f64::MANTISSA_DIGITS\<close>, and the number of low bits that do not fit into the significand.\<close>

definition sig_bits :: nat where
  "sig_bits = 53"

function f64_shift :: "nat \<Rightarrow> nat" where
  "f64_shift n = (if n < 2 ^ sig_bits then 0 else Suc (f64_shift (n div 2)))"
  by pat_completeness auto
termination
  by (relation "measure id") (auto simp: sig_bits_def)

declare f64_shift.simps [simp del]

definition round_to :: "nat \<Rightarrow> nat \<Rightarrow> nat" where
  "round_to e n =
     (let q = n div 2 ^ e; r = n mod 2 ^ e
      in (if 2 ^ e < 2 * r \<or> (2 * r = 2 ^ e \<and> odd q) then q + 1 else q) * 2 ^ e)"

definition f64_nat :: "nat \<Rightarrow> nat" where
  "f64_nat n = round_to (f64_shift n) n"

definition f64_of_int :: "int \<Rightarrow> rat" where
  "f64_of_int n = of_int (sgn n * int (f64_nat (nat \<bar>n\<bar>)))"

definition as_f64 :: "json \<Rightarrow> rat option" where
  "as_f64 v =
     (case v of
        JNum (NInt n) \<Rightarrow> Some (f64_of_int n)
      | JNum (NFloat r) \<Rightarrow> Some r
      | _ \<Rightarrow> None)"

definition trunc :: "rat \<Rightarrow> int" where
  "trunc r = (if r < 0 then \<lceil>r\<rceil> else \<lfloor>r\<rfloor>)"

definition fract :: "rat \<Rightarrow> rat" where
  "fract r = r - of_int (trunc r)"

definition as_i64 :: "rat \<Rightarrow> int" where
  "as_i64 r = max (- (2 ^ 63)) (min (2 ^ 63 - 1) (trunc r))"

section \<open>The rewriting of a row\<close>

definition int_if_whole :: "json \<Rightarrow> json" where
  "int_if_whole v =
     (case as_f64 v of
        Some fl \<Rightarrow> if fract fl = 0 then JNum (NInt (as_i64 fl)) else v
      | None \<Rightarrow> v)"

definition parse_float_int :: "json \<Rightarrow> json" where
  "parse_float_int val =
     (case val of
        JObj ms \<Rightarrow> JObj (map (\<lambda>(k, v). (k, int_if_whole v)) ms)
      | _ \<Rightarrow> val)"

section \<open>Rounding\<close>

lemma f64_shift_upper: "n < 2 ^ (sig_bits + f64_shift n)"
proof (induction n rule: f64_shift.induct)
  case (1 n)
  show ?case
  proof (cases "n < 2 ^ sig_bits")
    case True
    then show ?thesis by (simp add: f64_shift.simps [of n])
  next
    case False
    with 1 have "n div 2 < 2 ^ (sig_bits + f64_shift (n div 2))" by simp
    then have "n < 2 * 2 ^ (sig_bits + f64_shift (n div 2))" by linarith
    with False show ?thesis by (simp add: f64_shift.simps [of n])
  qed
qed

lemma f64_shift_small [simp]: "n < 2 ^ sig_bits \<Longrightarrow> f64_shift n = 0"
  by (simp add: f64_shift.simps [of n])

lemma f64_shift_le: "n < 2 ^ (sig_bits + e) \<Longrightarrow> f64_shift n \<le> e"
proof (induction n arbitrary: e rule: f64_shift.induct)
  case (1 n)
  show ?case
  proof (cases "n < 2 ^ sig_bits")
    case False
    then obtain e' where e: "e = Suc e'" using "1.prems" by (cases e) auto
    with "1.prems" have "n < 2 * 2 ^ (sig_bits + e')" by simp
    then have "n div 2 < 2 ^ (sig_bits + e')" by linarith
    with "1.IH" False e show ?thesis by (simp add: f64_shift.simps [of n])
  qed simp
qed

lemma round_to_dvd: "2 ^ e dvd n \<Longrightarrow> round_to e n = n"
  by (auto simp: round_to_def Let_def)

text \<open>Rounding moves a number by at most half of the last place.\<close>

lemma round_to_error: "2 * round_to e n \<le> 2 * n + 2 ^ e \<and> 2 * n \<le> 2 * round_to e n + 2 ^ e"
proof -
  let ?q = "n div 2 ^ e" and ?r = "n mod 2 ^ e"
  have n: "?q * 2 ^ e + ?r = n" by (rule div_mult_mod_eq)
  have r: "?r < 2 ^ e" by simp
  show ?thesis
  proof (cases "2 ^ e < 2 * ?r \<or> (2 * ?r = 2 ^ e \<and> odd ?q)")
    case True
    then have "round_to e n = ?q * 2 ^ e + 2 ^ e" and "2 ^ e \<le> 2 * ?r"
      by (auto simp: round_to_def Let_def algebra_simps)
    with n r show ?thesis by linarith
  next
    case False
    then have "round_to e n = ?q * 2 ^ e" and "2 * ?r \<le> 2 ^ e"
      by (auto simp: round_to_def Let_def)
    with n r show ?thesis by linarith
  qed
qed

lemma f64_nat_multiple:
  assumes q: "q \<le> 2 ^ sig_bits"
  shows "f64_nat (q * 2 ^ e) = q * 2 ^ e"
proof -
  have "2 ^ f64_shift (q * 2 ^ e) dvd q * 2 ^ e"
  proof (cases "q = 2 ^ sig_bits")
    case True
    then have n: "q * 2 ^ e = 2 ^ (sig_bits + e)" by (simp add: power_add)
    then have "q * 2 ^ e < 2 ^ (sig_bits + Suc e)" by simp
    then have "f64_shift (q * 2 ^ e) \<le> Suc e" by (rule f64_shift_le)
    then have "f64_shift (q * 2 ^ e) \<le> sig_bits + e" by (simp add: sig_bits_def)
    with n show ?thesis by (simp add: le_imp_power_dvd)
  next
    case False
    with q have "q < 2 ^ sig_bits" by simp
    then have "q * 2 ^ e < 2 ^ sig_bits * 2 ^ e" by simp
    then have "f64_shift (q * 2 ^ e) \<le> e" by (intro f64_shift_le) (simp add: power_add)
    then have "(2 :: nat) ^ f64_shift (q * 2 ^ e) dvd 2 ^ e" by (rule le_imp_power_dvd)
    then show ?thesis by (rule dvd_mult)
  qed
  then show ?thesis by (simp add: f64_nat_def round_to_dvd)
qed

lemma f64_nat_form: "\<exists>q e. f64_nat n = q * 2 ^ e \<and> q \<le> 2 ^ sig_bits"
proof -
  let ?q = "n div 2 ^ f64_shift n"
  have "?q < 2 ^ sig_bits"
    using f64_shift_upper [of n] by (simp add: less_mult_imp_div_less power_add)
  then have "?q + 1 \<le> 2 ^ sig_bits" and "?q \<le> 2 ^ sig_bits" by simp_all
  moreover have "f64_nat n = (?q + 1) * 2 ^ f64_shift n \<or> f64_nat n = ?q * 2 ^ f64_shift n"
    by (simp add: f64_nat_def round_to_def Let_def)
  ultimately show ?thesis by blast
qed

lemma f64_nat_idem [simp]: "f64_nat (f64_nat n) = f64_nat n"
  using f64_nat_form [of n] f64_nat_multiple by metis

lemma f64_nat_exact: "n \<le> 2 ^ sig_bits \<Longrightarrow> f64_nat n = n"
  using f64_nat_multiple [of n 0] by simp

lemma f64_of_int_exact: "\<bar>n\<bar> \<le> 2 ^ sig_bits \<Longrightarrow> f64_of_int n = of_int n"
  by (simp add: f64_of_int_def f64_nat_exact nat_le_iff sgn_mult_abs)

lemma f64_of_int_whole: "\<exists>m. f64_of_int n = of_int m"
  unfolding f64_of_int_def by blast

section \<open>What the rewriting does to a value\<close>

lemma fract_eq_0 [simp]: "fract (of_int n) = 0"
  by (simp add: fract_def trunc_def)

lemma fract_0D: "fract r = 0 \<Longrightarrow> r = of_int (trunc r)"
  by (simp add: fract_def)

lemma trunc_of_int [simp]: "trunc (of_int n) = n"
  by (simp add: trunc_def)

lemma as_i64_of_int: "as_i64 (of_int n) = max (- (2 ^ 63)) (min (2 ^ 63 - 1) n)"
  by (simp add: as_i64_def)

definition number_value :: "json_number \<Rightarrow> rat" where
  "number_value n = (case n of NInt i \<Rightarrow> of_int i | NFloat r \<Rightarrow> r)"

text \<open>An \<open>f64\<close> that is a whole number is its own rounding.\<close>

definition f64_number :: "json_number \<Rightarrow> bool" where
  "f64_number n =
     (case n of NInt i \<Rightarrow> int_in_range i
      | NFloat r \<Rightarrow> fract r = 0 \<longrightarrow> f64_of_int (trunc r) = r)"

lemma parse_float_int_get:
  "json_get (parse_float_int j) k = map_option int_if_whole (json_get j k)"
  by (cases j) (simp_all add: parse_float_int_def map_of_map)

lemma int_if_whole_fraction [simp]:
  "fract (number_value n) \<noteq> 0 \<Longrightarrow> int_if_whole (JNum n) = JNum n"
  by (cases n) (simp_all add: int_if_whole_def as_f64_def number_value_def)

lemma int_if_whole_int:
  "int_if_whole (JNum (NInt i)) = JNum (NInt (as_i64 (f64_of_int i)))"
  using f64_of_int_whole [of i] by (auto simp: int_if_whole_def as_f64_def)

lemma int_if_whole_float:
  "fract r = 0 \<Longrightarrow> int_if_whole (JNum (NFloat r)) = JNum (NInt (as_i64 r))"
  by (simp add: int_if_whole_def as_f64_def)

lemma int_if_whole_small:
  assumes "number_value n = of_int i" and "\<bar>i\<bar> \<le> 2 ^ sig_bits"
  shows "int_if_whole (JNum n) = JNum (NInt i)"
proof -
  have "\<bar>i\<bar> \<le> 2 ^ 53" using assms(2) by (simp add: sig_bits_def)
  then have "as_i64 (of_int i) = i" by (simp add: as_i64_of_int)
  then show ?thesis
    using assms by (cases n)
      (simp_all add: number_value_def int_if_whole_int int_if_whole_float f64_of_int_exact)
qed

text \<open>A number of magnitude up to \<open>2 ^ 53\<close> keeps its value when a row is rewritten, and it is
  an integer afterwards exactly when it has no fractional part or was one before.\<close>

theorem parse_float_int_small:
  assumes "json_get row k = Some (JNum n)" and "\<bar>number_value n\<bar> \<le> 2 ^ sig_bits"
  shows "\<exists>m. json_get (parse_float_int row) k = Some (JNum m) \<and>
    number_value m = number_value n \<and> ((\<exists>i. m = NInt i) \<longleftrightarrow> fract (number_value n) = 0)"
proof (cases "fract (number_value n) = 0")
  case True
  then obtain i where i: "number_value n = of_int i" by (metis fract_0D)
  with assms(2) have "\<bar>i\<bar> \<le> 2 ^ sig_bits"
    by (metis of_int_abs of_int_le_iff of_int_numeral of_int_power)
  with i assms(1) True show ?thesis
    by (simp add: parse_float_int_get int_if_whole_small number_value_def)
next
  case False
  then have "\<nexists>i. n = NInt i" by (auto simp: number_value_def)
  with False assms(1) show ?thesis by (simp add: parse_float_int_get)
qed

theorem parse_float_int_small_witness:
  "\<exists>m. json_get (parse_float_int (JObj [(''a'', JNull), (''b'', JNum (NFloat (3 / 1)))])) ''b'' =
      Some (JNum m) \<and> number_value m = number_value (NFloat 3) \<and>
    ((\<exists>i. m = NInt i) \<longleftrightarrow> fract (number_value (NFloat 3)) = 0)"
  by (rule parse_float_int_small) (simp_all add: number_value_def sig_bits_def)

lemma f64_nat_i64_error:
  assumes "n < 2 ^ 63"
  shows "2 * f64_nat n \<le> 2 * n + 1024 \<and> 2 * n \<le> 2 * f64_nat n + 1024"
proof -
  have "f64_shift n \<le> 10" using assms by (intro f64_shift_le) (simp add: sig_bits_def)
  then have "(2 :: nat) ^ f64_shift n \<le> 2 ^ 10" by (intro power_increasing) simp_all
  then show ?thesis using round_to_error [of "f64_shift n" n] by (simp add: f64_nat_def)
qed

text \<open>An \<open>i64\<close> column value moves by at most 512 when it is sent, and stays an \<open>i64\<close>.\<close>

theorem parse_float_int_i64_error:
  assumes "json_get row k = Some (JNum (NInt i))" and "\<bar>i\<bar> < 2 ^ 63"
  shows "\<exists>i'. json_get (parse_float_int row) k = Some (JNum (NInt i')) \<and>
    \<bar>i' - i\<bar> \<le> 512 \<and> - (2 ^ 63) \<le> i' \<and> i' < 2 ^ 63"
proof -
  define m where "m = f64_nat (nat \<bar>i\<bar>)"
  have "nat \<bar>i\<bar> < 2 ^ 63" using assms(2) by (simp add: nat_less_iff)
  then have "2 * m \<le> 2 * nat \<bar>i\<bar> + 1024" "2 * nat \<bar>i\<bar> \<le> 2 * m + 1024"
    using f64_nat_i64_error m_def by blast+
  then have err: "\<bar>sgn i * int m - i\<bar> \<le> 512"
    by (cases "i = 0"; cases "i > 0") (auto simp: m_def f64_nat_exact)
  define j where "j = sgn i * int m"
  then have "f64_of_int i = of_int j" by (simp only: f64_of_int_def m_def)
  moreover have "\<bar>j - i\<bar> \<le> 512" using err j_def by simp
  ultimately show ?thesis
    using assms by (simp add: parse_float_int_get int_if_whole_int as_i64_of_int) linarith
qed

theorem parse_float_int_i64_error_witness:
  "\<exists>i'. json_get (parse_float_int (JObj [(''n'', JNum (NInt (2 ^ 62 + 511)))])) ''n'' =
      Some (JNum (NInt i')) \<and> \<bar>i' - (2 ^ 62 + 511)\<bar> \<le> 512 \<and> - (2 ^ 63) \<le> i' \<and> i' < 2 ^ 63"
  by (rule parse_float_int_i64_error) simp_all

lemma f64_shift_eqI:
  assumes "2 ^ (sig_bits + e) \<le> n" and "n < 2 ^ (sig_bits + Suc e)"
  shows "f64_shift n = Suc e"
proof (rule antisym)
  show "f64_shift n \<le> Suc e" using assms(2) by (rule f64_shift_le)
  have "(2 :: nat) ^ (sig_bits + e) < 2 ^ (sig_bits + f64_shift n)"
    using assms(1) f64_shift_upper [of n] by (rule le_less_trans)
  then show "Suc e \<le> f64_shift n" by (simp add: power_strict_increasing_iff)
qed

lemma f64_values:
  "f64_nat 9007199254740993 = 9007199254740992"
  "f64_nat 18446744073709551615 = 18446744073709551616"
  "f64_nat 9223372036854775807 = 9223372036854775808"
  "f64_nat 9223372036854775808 = 9223372036854775808"
proof -
  have "f64_shift 9007199254740993 = Suc 0" "f64_shift 18446744073709551615 = Suc 10"
    "f64_shift 9223372036854775807 = Suc 9" "f64_shift 9223372036854775808 = Suc 10"
    by (rule f64_shift_eqI; simp add: sig_bits_def)+
  then show "f64_nat 9007199254740993 = 9007199254740992"
    "f64_nat 18446744073709551615 = 18446744073709551616"
    "f64_nat 9223372036854775807 = 9223372036854775808"
    "f64_nat 9223372036854775808 = 9223372036854775808"
    by (simp_all add: f64_nat_def round_to_def)
qed

text \<open>The rewriting is not exact on integers: the \<open>i64\<close> value \<open>2 ^ 53 + 1\<close> is sent as
  \<open>2 ^ 53\<close>, the largest \<open>u64\<close> as the largest \<open>i64\<close>, and the \<open>f64\<close> value \<open>2 ^ 70\<close>
  as the largest \<open>i64\<close> as well.\<close>

theorem parse_float_int_loses_value:
  "parse_float_int (JObj [(''a'', JNum (NInt 9007199254740993)),
      (''b'', JNum (NInt 18446744073709551615)), (''c'', JNum (NFloat (2 ^ 70)))]) =
   JObj [(''a'', JNum (NInt 9007199254740992)),
      (''b'', JNum (NInt 9223372036854775807)), (''c'', JNum (NInt 9223372036854775807))]"
  using f64_values by (simp add: parse_float_int_def int_if_whole_int int_if_whole_float
      f64_of_int_def as_i64_of_int as_i64_def trunc_def fract_def)

lemma as_i64_limits: "as_i64 (f64_of_int (2 ^ 63 - 1)) = 2 ^ 63 - 1"
  "as_i64 (f64_of_int (- (2 ^ 63))) = - (2 ^ 63)"
  using f64_values by (simp_all add: f64_of_int_def as_i64_def trunc_def)

lemma f64_of_int_idem:
  assumes "f64_of_int i = of_int j"
  shows "f64_of_int j = of_int j"
proof -
  have j: "j = sgn i * int (f64_nat (nat \<bar>i\<bar>))"
    using assms by (simp only: f64_of_int_def of_int_eq_iff)
  then show ?thesis
    by (cases "i > 0"; cases "i = 0") (auto simp: f64_of_int_def sgn_if)
qed

lemma as_i64_fixed:
  assumes "f64_of_int j = of_int j"
  shows "as_i64 (f64_of_int (as_i64 (of_int j))) = as_i64 (of_int j)"
proof -
  consider "j < - (2 ^ 63)" | "2 ^ 63 - 1 < j" | "- (2 ^ 63) \<le> j \<and> j \<le> 2 ^ 63 - 1" by linarith
  then show ?thesis
  proof cases
    case 1
    then have "as_i64 (of_int j) = - (2 ^ 63)" by (simp add: as_i64_of_int)
    then show ?thesis by (simp only: as_i64_limits)
  next
    case 2
    then have "as_i64 (of_int j) = 2 ^ 63 - 1" by (simp add: as_i64_of_int)
    then show ?thesis by (simp only: as_i64_limits)
  next
    case 3
    then have "as_i64 (of_int j) = j" by (simp add: as_i64_of_int)
    with assms show ?thesis by simp
  qed
qed

lemma int_if_whole_idem:
  assumes "f64_number n"
  shows "int_if_whole (int_if_whole (JNum n)) = int_if_whole (JNum n)"
proof (cases n)
  case (NInt i)
  obtain j where "f64_of_int i = of_int j" using f64_of_int_whole by blast
  with NInt show ?thesis
    by (simp add: int_if_whole_int as_i64_fixed [OF f64_of_int_idem])
next
  case (NFloat r)
  show ?thesis
  proof (cases "fract r = 0")
    case True
    then obtain j where r: "r = of_int j" by (metis fract_0D)
    with assms NFloat True have "f64_of_int j = of_int j" by (simp add: f64_number_def)
    with r NFloat show ?thesis
      by (simp add: int_if_whole_float int_if_whole_int as_i64_fixed)
  qed (simp add: NFloat int_if_whole_def as_f64_def)
qed

lemma int_if_whole_not_number: "(\<nexists>n. v = JNum n) \<Longrightarrow> int_if_whole v = v"
  by (cases v) (simp_all add: int_if_whole_def as_f64_def)

text \<open>rewriting a row twice is rewriting it once.\<close>

theorem parse_float_int_idem:
  assumes "\<And>ms k n. row = JObj ms \<Longrightarrow> (k, JNum n) \<in> set ms \<Longrightarrow> f64_number n"
  shows "parse_float_int (parse_float_int row) = parse_float_int row"
proof (cases row)
  case (JObj ms)
  have "int_if_whole (int_if_whole v) = int_if_whole v" if "(k, v) \<in> set ms" for k v
    using that assms [OF JObj] int_if_whole_idem int_if_whole_not_number
    by (cases "\<exists>n. v = JNum n") auto
  with JObj show ?thesis by (auto simp: parse_float_int_def)
qed (simp_all add: parse_float_int_def)

theorem parse_float_int_idem_witness:
  "parse_float_int (parse_float_int (JObj [(''n'', JNum (NFloat 3)), (''s'', JStr ''x'')])) =
   parse_float_int (JObj [(''n'', JNum (NFloat 3)), (''s'', JStr ''x'')])"
  by (rule parse_float_int_idem)
    (auto simp: f64_number_def trunc_def f64_of_int_exact sig_bits_def)

end
