(* ===== verification/Connection.thy ===== *)
theory Connection
  imports Session Rpc Util_Float
begin

text \<open>
  \<open>src/handler/rpc/connection.rs\<close>: what a connection does with a request.  The state of a
  connection is the world (the database calls made for it) with its session, the notifications its
  streams have sent and the stream tasks it has spawned.  A spawned task runs when it is scheduled,
  so it is a step of its own (\<open>run_stream\<close>).  \<open>json_text\<close> is \<open>serde_json\<close>'s compact
  text of a value, \<open>uuid_text\<close> the \<open>Display\<close> of a \<open>Uuid\<close>.
\<close>

section \<open>State\<close>

text \<open>The variables the task of a streaming query owns.\<close>

record stream_task =
  st_stream :: uuid
  st_txn :: tx
  st_stm :: statement

record rpc = world +
  rpc_id :: uuid
  sess :: session
  config :: app_config
  notified :: "(uuid \<times> query_stream_notification) list"
  streams :: "stream_task list"

definition set_txn :: "tx option \<Rightarrow> rpc \<Rightarrow> rpc" where
  "set_txn t s = s\<lparr>sess := (sess s)\<lparr>sess_txn := t\<rparr>\<rparr>"

definition set_claims :: "json option \<Rightarrow> rpc \<Rightarrow> rpc" where
  "set_claims c s = s\<lparr>sess := (sess s)\<lparr>sess_claims := c\<rparr>\<rparr>"

definition session_db :: "rpc \<Rightarrow> handle" where
  "session_db s = sess_db (sess s)"

section \<open>The context a statement runs in\<close>

definition set_db_config ::
    "(json \<Rightarrow> string) \<Rightarrow> db_env \<Rightarrow> target \<Rightarrow> db_config \<Rightarrow> ('w world_scheme, failure + unit) state" where
  "set_db_config json_text E conn cfg =
     try_bind (db E (Execute conn (set_config_stm (json_text (db_config_json cfg))))) (\<lambda>_. ok ())"

definition auth_role :: "session \<Rightarrow> failure + string" where
  "auth_role s =
     (case sess_claims s of
        None \<Rightarrow> Inr (sess_org s @ ''_anon'')
      | Some claims \<Rightarrow>
          (case Option.bind (json_get claims ''role'') as_str of
             None \<Rightarrow> Inl (custom ''role not found in context'')
           | Some role_name \<Rightarrow> Inr (sess_org s @ ''_'' @ role_name)))"

definition claims_stm :: "(json \<Rightarrow> string) \<Rightarrow> json \<Rightarrow> statement" where
  "claims_stm json_text claims =
     from_string (''select set_config('my.claims', '' @ squote @ json_text claims @ squote @ '', true);'')"

definition role_stm :: "string \<Rightarrow> statement" where
  "role_stm role = from_string (''set local role to '' @ role)"

definition switch_auth_context ::
    "(json \<Rightarrow> string) \<Rightarrow> db_env \<Rightarrow> target \<Rightarrow> session \<Rightarrow> app_config \<Rightarrow> ('w world_scheme, failure + unit) state" where
  "switch_auth_context json_text E conn session cfg =
     try_bind (of_result (auth_role session)) (\<lambda>role.
     try_bind (case sess_claims session of
         None \<Rightarrow> ok ()
       | Some claims \<Rightarrow> try_bind (db E (Execute conn (claims_stm json_text claims))) (\<lambda>_. ok ())) (\<lambda>_.
     try_bind (set_db_config json_text E conn (db_config cfg)) (\<lambda>_.
     try_bind (db E (Execute conn (role_stm role))) (\<lambda>_. ok ()))))"

section \<open>The methods\<close>

text \<open>\<open>session.db.begin().await?\<close>\<close>

definition begin_session :: "db_env \<Rightarrow> (rpc, failure + tx) state" where
  "begin_session E = try_bind (gets session_db) (\<lambda>h. map_err failure_of_db_err (begin_on E h))"

text \<open>\<open>Option::insert\<close> drops the value it replaces, \<open>Option::take\<close> leaves \<open>None\<close>.\<close>

definition insert_txn :: "tx \<Rightarrow> rpc \<Rightarrow> rpc" where
  "insert_txn t s =
     (case sess_txn (sess s) of None \<Rightarrow> set_txn (Some t) s | Some old \<Rightarrow> drop_tx old (set_txn (Some t) s))"

definition take_txn :: "(rpc, 'e + tx option) state" where
  "take_txn = State (\<lambda>s. (Inr (sess_txn (sess s)), set_txn None s))"

primrec transaction :: "db_env \<Rightarrow> transaction_action \<Rightarrow> (rpc, failure + json) state" where
  "transaction E TxnBegin =
     try_bind (begin_session E) (\<lambda>t. try_bind (modify (insert_txn t)) (\<lambda>_. ok JNull))"
| "transaction E TxnCommit =
     try_bind take_txn (\<lambda>t. case t of
       None \<Rightarrow> ok JNull | Some x \<Rightarrow> try_bind (db E (Commit x)) (\<lambda>_. ok JNull))"
| "transaction E TxnRollback =
     try_bind take_txn (\<lambda>t. case t of
       None \<Rightarrow> ok JNull | Some x \<Rightarrow> try_bind (db E (Rollback x)) (\<lambda>_. ok JNull))"

definition query_stm :: "query_params \<Rightarrow> statement" where
  "query_stm p = from_sql_and_values (query_text p) (map sea_of_sql (query_variables p))"

text \<open>\<open>filter_map\<close> over the rows of an answer: those that convert.\<close>

fun converted :: "db_row list \<Rightarrow> json list" where
  "converted [] = []"
| "converted (Row v # rs) = v # converted rs"
| "converted (BadRow msg # rs) = converted rs"
| "converted (LostRow msg # rs) = converted rs"

definition query_rpc ::
    "(json \<Rightarrow> string) \<Rightarrow> db_env \<Rightarrow> query_params \<Rightarrow> (rpc, failure + json) state" where
  "query_rpc json_text E params =
     try_bind (begin_session E) (\<lambda>t.
     try_bind (on_error (drop_tx t) (
       try_bind (gets config) (\<lambda>cfg.
       try_bind (gets sess) (\<lambda>session.
       try_bind (switch_auth_context json_text E (OnTx t) session cfg) (\<lambda>_.
       db E (Fetch (OnTx t) (query_stm params))))))) (\<lambda>rows.
     try_bind (db E (Commit t)) (\<lambda>_.
       ok (JArr (map parse_float_int (converted rows))))))"

definition login_rpc ::
    "(json \<Rightarrow> string) \<Rightarrow> db_env \<Rightarrow> login_params \<Rightarrow> (rpc, failure + json) state" where
  "login_rpc json_text E params =
     try_bind (begin_session E) (\<lambda>t.
     try_bind (on_error (drop_tx t) (
       try_bind (gets config) (\<lambda>cfg.
       try_bind (set_db_config json_text E (OnTx t) (db_config cfg)) (\<lambda>_.
       try_bind (login E (OnTx t) (lp_username params) (lp_password params)) (\<lambda>out.
       try_bind (of_result (of_option INTERNAL_ERROR (json_get out ''claims''))) (\<lambda>claims.
       try_bind (modify (set_claims (Some claims))) (\<lambda>_. ok out))))))) (\<lambda>out.
     try_bind (db E (Commit t)) (\<lambda>_. ok out)))"

text \<open>The transaction of \<open>authenticate\<close> is never committed: it is dropped on every path.\<close>

definition authenticate_rpc :: "db_env \<Rightarrow> string \<Rightarrow> (rpc, failure + json) state" where
  "authenticate_rpc E token =
     try_bind (begin_session E) (\<lambda>t.
     try_bind (on_error (drop_tx t) (authenticate E (OnTx t) token)) (\<lambda>out.
     try_bind (modify (set_claims (Some out))) (\<lambda>_.
     try_bind (modify (drop_tx t)) (\<lambda>_. ok out))))"

definition spawn_stream :: "stream_task \<Rightarrow> rpc \<Rightarrow> rpc" where
  "spawn_stream task s = s\<lparr>streams := streams s @ [task]\<rparr>"

definition query_stream_rpc ::
    "(uuid \<Rightarrow> string) \<Rightarrow> db_env \<Rightarrow> query_stream_params \<Rightarrow> (rpc, failure + json) state" where
  "query_stream_rpc uuid_text E p =
     try_bind (begin_session E) (\<lambda>t.
     try_bind (modify (spawn_stream
         \<lparr>st_stream = qsp_id p, st_txn = t, st_stm = query_stm (qsp_params p)\<rparr>)) (\<lambda>_.
       ok (JStr (uuid_text (qsp_id p)))))"

primrec process_message ::
    "(json \<Rightarrow> string) \<Rightarrow> (uuid \<Rightarrow> string) \<Rightarrow> db_env \<Rightarrow> request_data \<Rightarrow> (rpc, failure + json) state" where
  "process_message json_text uuid_text E (Query data) = query_rpc json_text E data"
| "process_message json_text uuid_text E (Login data) = login_rpc json_text E data"
| "process_message json_text uuid_text E (Authenticate data) = authenticate_rpc E data"
| "process_message json_text uuid_text E (Transaction data) = transaction E data"
| "process_message json_text uuid_text E (QueryStream data) = query_stream_rpc uuid_text E data"

section \<open>The task of a streaming query\<close>

definition notify :: "uuid \<Rightarrow> json option \<Rightarrow> rpc \<Rightarrow> rpc" where
  "notify stream_id d s =
     s\<lparr>notified := notified s @ [(rpc_id s, \<lparr>qsn_stream_id = stream_id, qsn_data = d\<rparr>)]\<rparr>"

text \<open>\<open>while let Some(Ok(out))\<close>: a row that does not arrive ends the loop like the end of the
  stream does.\<close>

fun stream_rows :: "uuid \<Rightarrow> db_row list \<Rightarrow> rpc \<Rightarrow> rpc" where
  "stream_rows stream_id [] s = s"
| "stream_rows stream_id (Row v # rs) s = stream_rows stream_id rs (notify stream_id (Some v) s)"
| "stream_rows stream_id (BadRow msg # rs) s = stream_rows stream_id rs s"
| "stream_rows stream_id (LostRow msg # rs) s = s"

text \<open>The statement fails: \<open>unwrap\<close> panics and unwinding drops the transaction.\<close>

definition run_stream :: "db_env \<Rightarrow> stream_task \<Rightarrow> rpc \<Rightarrow> unit outcome \<times> rpc" where
  "run_stream E task s =
     (case run_state (call E (Stream (st_txn task) (st_stm task))) s of
        (Inl err, s') \<Rightarrow> (Panic, drop_tx (st_txn task) s')
      | (Inr rows, s') \<Rightarrow>
          (Returned (),
           drop_tx (st_txn task) (notify (st_stream task) None (stream_rows (st_stream task) rows s'))))"

section \<open>Steps of a connection\<close>

datatype rpc_event = Incoming request_data | StreamRuns nat | Closed

text \<open>A request is processed, a spawned task is scheduled, or the connection's last reference goes
  and its session is dropped.\<close>

definition close_session :: "rpc \<Rightarrow> rpc" where
  "close_session s =
     (case sess_txn (sess s) of None \<Rightarrow> s | Some t \<Rightarrow> drop_tx t (set_txn None s))"

definition run_task :: "db_env \<Rightarrow> nat \<Rightarrow> rpc \<Rightarrow> rpc" where
  "run_task E i s =
     (if i < length (streams s)
      then snd (run_stream E (streams s ! i) (s\<lparr>streams := take i (streams s) @ drop (Suc i) (streams s)\<rparr>))
      else s)"

fun rpc_event_step ::
    "(json \<Rightarrow> string) \<Rightarrow> (uuid \<Rightarrow> string) \<Rightarrow> db_env \<Rightarrow> rpc_event \<Rightarrow> rpc \<Rightarrow> rpc" where
  "rpc_event_step json_text uuid_text E (Incoming d) s =
     snd (run_state (process_message json_text uuid_text E d) s)"
| "rpc_event_step json_text uuid_text E (StreamRuns i) s = run_task E i s"
| "rpc_event_step json_text uuid_text E Closed s = close_session s"

definition rpc_run ::
    "(json \<Rightarrow> string) \<Rightarrow> (uuid \<Rightarrow> string) \<Rightarrow> db_env \<Rightarrow> rpc_event list \<Rightarrow> rpc \<Rightarrow> rpc" where
  "rpc_run json_text uuid_text E evs s = fold (rpc_event_step json_text uuid_text E) evs s"

definition connection_new :: "uuid \<Rightarrow> session \<Rightarrow> app_config \<Rightarrow> rpc" where
  "connection_new i session cfg = \<lparr>calls = [], fresh = 0, rpc_id = i, sess = session, config = cfg,
     notified = [], streams = []\<rparr>"

end
