(* ===== verification/Wire.thy ===== *)
theory Wire
  imports Rpc
begin

text \<open>
  The JSON documents of the protocol: what the \<open>Serialize\<close> and \<open>Deserialize\<close> derivations of
  \<open>rpc.rs\<close>, \<open>failure.rs\<close> and \<open>cdc/\<close> produce and accept, read off their \<open>serde\<close>
  attributes (an untagged enum tries its variants in order, \<open>Action\<close> is tagged by the member
  \<open>action\<close>, a \<open>Result\<close> is an object with the single member \<open>Ok\<close> or \<open>Err\<close>).  A
  struct is decoded from an object whose known members occur at most once and whose other members
  are ignored, or from an array of exactly its fields; a missing member of an \<open>Option\<close> field is
  \<open>None\<close>.  The text of a document and of a UUID are third-party and stay parameters: \<open>ut\<close> and
  \<open>ur\<close> print and read a UUID.

  The locale \<open>codec\<close> states what client and server rely on: decoding undoes encoding on the
  values that are sent.  Every encoder and decoder pair below interprets it.
\<close>

section \<open>The interface: a codec\<close>

locale codec =
  fixes enc :: "'a \<Rightarrow> json"
    and dec :: "json \<Rightarrow> 'a option"
    and sendable :: "'a \<Rightarrow> bool"
  assumes dec_enc: "sendable x \<Longrightarrow> dec (enc x) = Some x"
begin

lemma enc_inject: "sendable x \<Longrightarrow> sendable y \<Longrightarrow> enc x = enc y \<longleftrightarrow> x = y"
  using dec_enc by (metis option.inject)

lemma map_dec_enc: "\<forall>x \<in> set xs. sendable x \<Longrightarrow> map (dec \<circ> enc) xs = map Some xs"
  by (simp add: dec_enc)

end

section \<open>Decoding of structs and scalars\<close>

definition struct_fields :: "string list \<Rightarrow> json \<Rightarrow> json option list option" where
  "struct_fields names j =
     (case j of
        JObj ms \<Rightarrow>
          if distinct (filter (\<lambda>k. k \<in> set names) (map fst ms))
          then Some (map (map_of ms) names) else None
      | JArr xs \<Rightarrow> if length xs = length names then Some (map Some xs) else None
      | _ \<Rightarrow> None)"

definition dec_string :: "json option \<Rightarrow> string option" where
  "dec_string j = Option.bind j as_str"

definition dec_i64 :: "json option \<Rightarrow> 64 word option" where
  "dec_i64 j =
     (case j of
        Some (JNum (NInt n)) \<Rightarrow> if - (2 ^ 63) \<le> n \<and> n < 2 ^ 63 then Some (word_of_int n) else None
      | _ \<Rightarrow> None)"

definition enc_i64 :: "64 word \<Rightarrow> json" where
  "enc_i64 w = JNum (NInt (sint w))"

definition dec_opt_u32 :: "json option \<Rightarrow> 32 word option option" where
  "dec_opt_u32 j =
     (case j of
        None \<Rightarrow> Some None
      | Some JNull \<Rightarrow> Some None
      | Some (JNum (NInt n)) \<Rightarrow> if 0 \<le> n \<and> n < 2 ^ 32 then Some (Some (word_of_int n)) else None
      | Some _ \<Rightarrow> None)"

definition enc_opt_u32 :: "32 word option \<Rightarrow> json" where
  "enc_opt_u32 w = (case w of None \<Rightarrow> JNull | Some n \<Rightarrow> JNum (NInt (uint n)))"

fun dec_items :: "(json \<Rightarrow> 'a option) \<Rightarrow> json list \<Rightarrow> 'a list option" where
  "dec_items f [] = Some []"
| "dec_items f (x # xs) =
     (case f x of None \<Rightarrow> None | Some a \<Rightarrow> map_option ((#) a) (dec_items f xs))"

definition dec_list :: "(json \<Rightarrow> 'a option) \<Rightarrow> json option \<Rightarrow> 'a list option" where
  "dec_list f j = (case j of Some (JArr xs) \<Rightarrow> dec_items f xs | _ \<Rightarrow> None)"

lemma dec_items_map:
  "(\<And>x. x \<in> set xs \<Longrightarrow> dec (enc x) = Some x) \<Longrightarrow> dec_items dec (map enc xs) = Some xs"
  by (induction xs) simp_all

lemma dec_list_map [codec_simps]:
  "(\<And>x. x \<in> set xs \<Longrightarrow> dec (enc x) = Some x) \<Longrightarrow> dec_list dec (Some (JArr (map enc xs))) = Some xs"
  by (simp add: dec_list_def dec_items_map)

lemma dec_i64_enc [codec_simps]: "dec_i64 (Some (enc_i64 w)) = Some w"
  using sint_ge [of w] sint_lt [of w] by (simp add: dec_i64_def enc_i64_def)

lemma dec_opt_u32_enc [codec_simps]: "dec_opt_u32 (Some (enc_opt_u32 w)) = Some w"
  using uint_lt2p [where 'a = 32] by (cases w) (simp_all add: dec_opt_u32_def enc_opt_u32_def)

lemma dec_string_simps [codec_simps]: "dec_string (Some (JStr s)) = Some s" "dec_string None = None"
  by (simp_all add: dec_string_def)

section \<open>Failures and query results\<close>

definition enc_failure :: "failure \<Rightarrow> json" where
  "enc_failure f = JObj [(''code'', enc_i64 (fcode f)), (''message'', JStr (fmessage f))]"

definition dec_failure :: "json \<Rightarrow> failure option" where
  "dec_failure j =
     (case struct_fields [''code'', ''message''] j of
        Some [c, m] \<Rightarrow>
          (case (dec_i64 c, dec_string m) of
             (Some c, Some m) \<Rightarrow> Some \<lparr>fcode = c, fmessage = m\<rparr>
           | _ \<Rightarrow> None)
      | _ \<Rightarrow> None)"

definition enc_result :: "query_result \<Rightarrow> json" where
  "enc_result r = (case r of Inr v \<Rightarrow> JObj [(''Ok'', v)] | Inl f \<Rightarrow> JObj [(''Err'', enc_failure f)])"

definition dec_result :: "json option \<Rightarrow> query_result option" where
  "dec_result j =
     (case j of
        Some (JObj [(k, v)]) \<Rightarrow>
          if k = ''Ok'' then Some (Inr v)
          else if k = ''Err'' then map_option Inl (dec_failure v)
          else None
      | _ \<Rightarrow> None)"

interpretation failure_codec: codec enc_failure dec_failure "\<lambda>_. True"
  by unfold_locales
    (simp add: enc_failure_def dec_failure_def struct_fields_def codec_simps)

lemma dec_result_enc [codec_simps]: "dec_result (Some (enc_result r)) = Some r"
  by (cases r) (simp_all add: dec_result_def enc_result_def failure_codec.dec_enc)

section \<open>Change events\<close>

definition enc_column :: "column \<Rightarrow> json" where
  "enc_column c = JObj [(''name'', JStr (col_name c)), (''value'', col_value c)]"

definition dec_column :: "json \<Rightarrow> column option" where
  "dec_column j =
     (case struct_fields [''name'', ''value''] j of
        Some [n, v] \<Rightarrow>
          (case (dec_string n, v) of
             (Some n, Some v) \<Rightarrow> Some \<lparr>col_name = n, col_value = v\<rparr>
           | _ \<Rightarrow> None)
      | _ \<Rightarrow> None)"

interpretation column_codec: codec enc_column dec_column "\<lambda>_. True"
  by unfold_locales (simp add: enc_column_def dec_column_def struct_fields_def codec_simps)

definition enc_columns :: "column list \<Rightarrow> json" where
  "enc_columns cs = JArr (map enc_column cs)"

fun enc_action :: "action \<Rightarrow> json" where
  "enc_action ActBegin = JObj [(''action'', JStr ''B'')]"
| "enc_action ActCommit = JObj [(''action'', JStr ''C'')]"
| "enc_action (ActInsert a) = JObj [(''action'', JStr ''I''),
     (''columns'', enc_columns (ins_columns a)), (''schema'', JStr (ins_schema a)),
     (''table'', JStr (ins_table a))]"
| "enc_action (ActUpdate a) = JObj [(''action'', JStr ''U''),
     (''identity'', enc_columns (upd_identity a)), (''columns'', enc_columns (upd_columns a)),
     (''schema'', JStr (upd_schema a)), (''table'', JStr (upd_table a))]"
| "enc_action (ActDelete a) = JObj [(''action'', JStr ''D''),
     (''identity'', enc_columns (del_identity a)), (''schema'', JStr (del_schema a)),
     (''table'', JStr (del_table a))]"

text \<open>Internal tagging: the tag is one member of the object, or the first element of an array; the
  rest is the content of the variant.\<close>

fun tagged_content :: "json \<Rightarrow> (json \<times> json) option" where
  "tagged_content (JObj ms) =
     (if count_list (map fst ms) ''action'' = 1
      then map_option (\<lambda>t. (t, JObj (filter (\<lambda>m. fst m \<noteq> ''action'') ms))) (map_of ms ''action'')
      else None)"
| "tagged_content (JArr (x # xs)) = Some (x, JArr xs)"
| "tagged_content j = None"

definition dec_insert :: "json \<Rightarrow> action option" where
  "dec_insert j =
     (case struct_fields [''columns'', ''schema'', ''table''] j of
        Some [c, s, t] \<Rightarrow>
          (case (dec_list dec_column c, dec_string s, dec_string t) of
             (Some c, Some s, Some t) \<Rightarrow>
               Some (ActInsert \<lparr>ins_columns = c, ins_schema = s, ins_table = t\<rparr>)
           | _ \<Rightarrow> None)
      | _ \<Rightarrow> None)"

definition dec_update :: "json \<Rightarrow> action option" where
  "dec_update j =
     (case struct_fields [''identity'', ''columns'', ''schema'', ''table''] j of
        Some [i, c, s, t] \<Rightarrow>
          (case (dec_list dec_column i, dec_list dec_column c, dec_string s, dec_string t) of
             (Some i, Some c, Some s, Some t) \<Rightarrow>
               Some (ActUpdate \<lparr>upd_identity = i, upd_columns = c, upd_schema = s, upd_table = t\<rparr>)
           | _ \<Rightarrow> None)
      | _ \<Rightarrow> None)"

definition dec_delete :: "json \<Rightarrow> action option" where
  "dec_delete j =
     (case struct_fields [''identity'', ''schema'', ''table''] j of
        Some [i, s, t] \<Rightarrow>
          (case (dec_list dec_column i, dec_string s, dec_string t) of
             (Some i, Some s, Some t) \<Rightarrow>
               Some (ActDelete \<lparr>del_identity = i, del_schema = s, del_table = t\<rparr>)
           | _ \<Rightarrow> None)
      | _ \<Rightarrow> None)"

definition dec_action :: "json \<Rightarrow> action option" where
  "dec_action j =
     (case tagged_content j of
        Some (JStr t, content) \<Rightarrow>
          if t = ''B'' then Some ActBegin
          else if t = ''C'' then Some ActCommit
          else if t = ''I'' then dec_insert content
          else if t = ''U'' then dec_update content
          else if t = ''D'' then dec_delete content
          else None
      | _ \<Rightarrow> None)"

lemma dec_columns_enc [codec_simps]: "dec_list dec_column (Some (enc_columns cs)) = Some cs"
  by (simp add: enc_columns_def dec_list_map column_codec.dec_enc)

interpretation action_codec: codec enc_action dec_action "\<lambda>_. True"
proof
  fix a
  show "dec_action (enc_action a) = Some a"
    by (cases a) (simp_all add: dec_action_def dec_insert_def dec_update_def dec_delete_def
        struct_fields_def codec_simps)
qed

section \<open>The messages of the server\<close>

definition enc_transaction :: "transaction \<Rightarrow> json" where
  "enc_transaction t = JObj [(''xid'', enc_opt_u32 (xid t)),
     (''commit_time'', enc_opt_u32 (commit_time t)),
     (''events'', JArr (map enc_action (events t)))]"

definition dec_transaction :: "json \<Rightarrow> transaction option" where
  "dec_transaction j =
     (case struct_fields [''xid'', ''commit_time'', ''events''] j of
        Some [x, c, e] \<Rightarrow>
          (case (dec_opt_u32 x, dec_opt_u32 c, dec_list dec_action e) of
             (Some x, Some c, Some e) \<Rightarrow> Some \<lparr>xid = x, commit_time = c, events = e\<rparr>
           | _ \<Rightarrow> None)
      | _ \<Rightarrow> None)"

interpretation transaction_codec: codec enc_transaction dec_transaction "\<lambda>_. True"
  by unfold_locales (simp add: enc_transaction_def dec_transaction_def struct_fields_def
      codec_simps action_codec.dec_enc)

definition enc_response :: "response \<Rightarrow> json" where
  "enc_response r = JObj [(''id'', JStr (resp_id r)), (''result'', enc_result (resp_result r))]"

definition dec_response :: "json \<Rightarrow> response option" where
  "dec_response j =
     (case struct_fields [''id'', ''result''] j of
        Some [i, r] \<Rightarrow>
          (case (dec_string i, dec_result r) of
             (Some i, Some r) \<Rightarrow> Some \<lparr>resp_id = i, resp_result = r\<rparr>
           | _ \<Rightarrow> None)
      | _ \<Rightarrow> None)"

definition enc_notification :: "(uuid \<Rightarrow> string) \<Rightarrow> query_stream_notification \<Rightarrow> json" where
  "enc_notification ut n = JObj [(''stream_id'', JStr (ut (qsn_stream_id n))),
     (''data'', case qsn_data n of None \<Rightarrow> JNull | Some v \<Rightarrow> v)]"

definition dec_notification ::
    "(string \<Rightarrow> uuid option) \<Rightarrow> json \<Rightarrow> query_stream_notification option" where
  "dec_notification ur j =
     (case struct_fields [''stream_id'', ''data''] j of
        Some [i, d] \<Rightarrow>
          (case Option.bind (dec_string i) ur of
             Some u \<Rightarrow>
               Some \<lparr>qsn_stream_id = u, qsn_data = (if d = Some JNull then None else d)\<rparr>
           | None \<Rightarrow> None)
      | _ \<Rightarrow> None)"

definition enc_listen :: "listen_channel_response \<Rightarrow> json" where
  "enc_listen l = JObj [(''channel'', JStr (lcr_channel l)),
     (''data'', enc_transaction (lcr_data l))]"

definition dec_listen :: "json \<Rightarrow> listen_channel_response option" where
  "dec_listen j =
     (case struct_fields [''channel'', ''data''] j of
        Some [c, Some d] \<Rightarrow>
          (case (dec_string c, dec_transaction d) of
             (Some c, Some d) \<Rightarrow> Some \<lparr>lcr_channel = c, lcr_data = d\<rparr>
           | _ \<Rightarrow> None)
      | _ \<Rightarrow> None)"

text \<open>\<open>DbResponse\<close> is untagged: on the way out it is its content, on the way in the first variant
  that accepts the document wins.\<close>

fun enc_db_response :: "(uuid \<Rightarrow> string) \<Rightarrow> db_response \<Rightarrow> json" where
  "enc_db_response ut (QueryResponse r) = enc_response r"
| "enc_db_response ut (QueryStreamNotification n) = enc_notification ut n"
| "enc_db_response ut (ListenChanel l) = enc_listen l"

definition dec_db_response :: "(string \<Rightarrow> uuid option) \<Rightarrow> json \<Rightarrow> db_response option" where
  "dec_db_response ur j =
     (case dec_response j of
        Some r \<Rightarrow> Some (QueryResponse r)
      | None \<Rightarrow>
          (case dec_notification ur j of
             Some n \<Rightarrow> Some (QueryStreamNotification n)
           | None \<Rightarrow> map_option ListenChanel (dec_listen j)))"

text \<open>What the server sends: a row of a stream is never the JSON null, which is the text of the end
  marker.\<close>

fun wire_ok :: "(uuid \<Rightarrow> string) \<Rightarrow> (string \<Rightarrow> uuid option) \<Rightarrow> db_response \<Rightarrow> bool" where
  "wire_ok ut ur (QueryStreamNotification n) \<longleftrightarrow>
     ur (ut (qsn_stream_id n)) = Some (qsn_stream_id n) \<and> qsn_data n \<noteq> Some JNull"
| "wire_ok ut ur (QueryResponse r) \<longleftrightarrow> True"
| "wire_ok ut ur (ListenChanel l) \<longleftrightarrow> True"

interpretation response_codec: codec enc_response dec_response "\<lambda>_. True"
  by unfold_locales
    (simp add: enc_response_def dec_response_def struct_fields_def codec_simps)

interpretation listen_codec: codec enc_listen dec_listen "\<lambda>_. True"
  by unfold_locales (simp add: enc_listen_def dec_listen_def struct_fields_def codec_simps
      transaction_codec.dec_enc)

lemma dec_notification_enc:
  "ur (ut (qsn_stream_id n)) = Some (qsn_stream_id n) \<Longrightarrow> qsn_data n \<noteq> Some JNull \<Longrightarrow>
    dec_notification ur (enc_notification ut n) = Some n"
  by (cases "qsn_data n")
    (simp_all add: enc_notification_def dec_notification_def struct_fields_def codec_simps)

text \<open>The variants do not overlap on what is sent: no notification has an id and a result, and no
  change event has a stream id.\<close>

lemma dec_response_others [simp]:
  "dec_response (enc_notification ut n) = None" "dec_response (enc_listen l) = None"
  by (simp_all add: dec_response_def enc_notification_def enc_listen_def struct_fields_def
      codec_simps)

lemma dec_notification_listen [simp]: "dec_notification ur (enc_listen l) = None"
  by (simp add: dec_notification_def enc_listen_def struct_fields_def codec_simps)

interpretation db_response_codec:
    codec "enc_db_response ut" "dec_db_response ur" "wire_ok ut ur" for ut ur
proof
  fix m
  assume "wire_ok ut ur m"
  then show "dec_db_response ur (enc_db_response ut m) = Some m"
    by (cases m) (simp_all add: dec_db_response_def response_codec.dec_enc listen_codec.dec_enc
        dec_notification_enc)
qed

text \<open>Every message a server sends is decoded by the client as the message it was, and as the
  kind it was, although the untagged encoding carries no kind.\<close>

theorem db_response_roundtrip:
  assumes "wire_ok ut ur m"
  shows "dec_db_response ur (enc_db_response ut m) = Some m"
  using assms by (rule db_response_codec.dec_enc)

theorem db_response_roundtrip_witness:
  "dec_db_response (\<lambda>s. Some (of_nat (length s)))
     (enc_db_response (\<lambda>u. replicate (unat u) CHR ''u'')
        (QueryStreamNotification \<lparr>qsn_stream_id = 2, qsn_data = Some (JObj [(''id'', JNull)])\<rparr>)) =
   Some (QueryStreamNotification \<lparr>qsn_stream_id = 2, qsn_data = Some (JObj [(''id'', JNull)])\<rparr>)"
  by (rule db_response_roundtrip) simp

text \<open>a change event survives the wire format of wal2json.\<close>

theorem action_roundtrip: "dec_action (enc_action a) = Some a"
  by (simp add: action_codec.dec_enc)

end
