(* ===== verification/Hub.thy ===== *)
theory Hub
  imports Connection Wire "HOL-Library.AList"
begin

text \<open>
  \<open>src/handler/rpc/mod.rs\<close>: the registry of connected sockets (\<open>WEBSOCKETS\<close>), the task that
  forwards the changes of a database to the sockets that may see them, and the task that forwards
  the notifications of streaming queries.  A member of the registry is what these tasks use of a
  connection: its session and its channel.  The channel's capacity is a matter of waiting and is in
  \<open>Socket\<close>; here a message that is queued is appended.
\<close>

record member =
  mb_session :: session
  mb_closed :: bool
  mb_queue :: "message list"

type_synonym registry = "(uuid \<times> member) list"

definition register :: "uuid \<Rightarrow> member \<Rightarrow> registry \<Rightarrow> registry" where
  "register i m reg = AList.update i m reg"

definition unregister :: "uuid \<Rightarrow> registry \<Rightarrow> registry" where
  "unregister i reg = AList.delete i reg"

text \<open>\<open>channels.0.send(..)\<close>: a closed channel gives an error that is only logged.\<close>

definition push :: "message \<Rightarrow> member \<Rightarrow> member" where
  "push msg m = (if mb_closed m then m else m\<lparr>mb_queue := mb_queue m @ [msg]\<rparr>)"

section \<open>Database changes\<close>

definition change_message :: "(json \<Rightarrow> string) \<Rightarrow> transaction \<Rightarrow> message" where
  "change_message json_text txn =
     TextMsg (json_text (enc_listen \<lparr>lcr_channel = ''db_changes'', lcr_data = txn\<rparr>))"

definition sees_changes :: "string \<Rightarrow> session \<Rightarrow> bool" where
  "sees_changes db_name s \<longleftrightarrow> sess_org s = db_name \<and> claim_type s = Some PosServer"

definition broadcast :: "(json \<Rightarrow> string) \<Rightarrow> string \<Rightarrow> transaction \<Rightarrow> registry \<Rightarrow> registry" where
  "broadcast json_text db_name txn reg =
     map (\<lambda>(i, m). (i, if sees_changes db_name (mb_session m)
                       then push (change_message json_text txn) m else m)) reg"

definition start_db_change_stream ::
    "(json \<Rightarrow> string) \<Rightarrow> string \<Rightarrow> transaction list \<Rightarrow> registry \<Rightarrow> registry" where
  "start_db_change_stream json_text db_name rx reg = fold (broadcast json_text db_name) rx reg"

section \<open>Notifications of streaming queries\<close>

definition notification_message ::
    "(json \<Rightarrow> string) \<Rightarrow> (uuid \<Rightarrow> string) \<Rightarrow> query_stream_notification \<Rightarrow> message" where
  "notification_message json_text uuid_text n = TextMsg (json_text (enc_notification uuid_text n))"

definition forward_notification ::
    "(json \<Rightarrow> string) \<Rightarrow> (uuid \<Rightarrow> string) \<Rightarrow> uuid \<times> query_stream_notification \<Rightarrow> registry \<Rightarrow> registry" where
  "forward_notification json_text uuid_text note reg =
     (case note of (socket_id, n) \<Rightarrow>
        (case map_of reg socket_id of
           None \<Rightarrow> reg
         | Some m \<Rightarrow> AList.update socket_id (push (notification_message json_text uuid_text n) m) reg))"

definition listen_query_stream_notifications ::
    "(json \<Rightarrow> string) \<Rightarrow> (uuid \<Rightarrow> string) \<Rightarrow> (uuid \<times> query_stream_notification) list \<Rightarrow> registry \<Rightarrow> registry" where
  "listen_query_stream_notifications json_text uuid_text rx reg =
     fold (forward_notification json_text uuid_text) rx reg"

section \<open>New connections\<close>

text \<open>\<open>get_handler\<close>: a fresh id is drawn; an id that is taken is a panic.\<close>

definition get_handler :: "uuid \<Rightarrow> session \<Rightarrow> app_config \<Rightarrow> registry \<Rightarrow> rpc outcome" where
  "get_handler i session cfg reg =
     (if i \<in> fst ` set reg then Panic else Returned (connection_new i session cfg))"

definition member_new :: "session \<Rightarrow> member" where
  "member_new session = \<lparr>mb_session = session, mb_closed = False, mb_queue = []\<rparr>"

section \<open>What the tasks deliver\<close>

lemma broadcast_keys [simp]: "map fst (broadcast json_text db_name txn reg) = map fst reg"
  by (induction reg) (auto simp: broadcast_def)

lemma map_of_broadcast:
  "map_of (broadcast json_text db_name txn reg) i =
     map_option (\<lambda>m. if sees_changes db_name (mb_session m)
       then push (change_message json_text txn) m else m) (map_of reg i)"
  by (induction reg) (auto simp: broadcast_def)

lemma push_fields [simp]:
  "mb_session (push msg m) = mb_session m" "mb_closed (push msg m) = mb_closed m"
  "mb_queue (push msg m) = mb_queue m @ (if mb_closed m then [] else [msg])"
  by (simp_all add: push_def)

lemma map_of_change_stream:
  assumes "map_of reg i = Some m"
  shows "\<exists>m'. map_of (start_db_change_stream json_text db_name rx reg) i = Some m' \<and>
    mb_session m' = mb_session m \<and> mb_closed m' = mb_closed m \<and>
    mb_queue m' = mb_queue m @ (if sees_changes db_name (mb_session m) \<and> \<not> mb_closed m
      then map (change_message json_text) rx else [])"
  using assms
proof (induction rx arbitrary: reg m)
  case (Cons txn rx)
  let ?m = "if sees_changes db_name (mb_session m) then push (change_message json_text txn) m else m"
  have "map_of (broadcast json_text db_name txn reg) i = Some ?m"
    using Cons.prems by (simp add: map_of_broadcast)
  from Cons.IH [OF this] show ?case
    by (auto simp: start_db_change_stream_def split: if_splits)
qed (simp add: start_db_change_stream_def)

text \<open>The changes of a database reach exactly the open connections of that organization whose claims
  say \<open>PosServer\<close>: each of them gets every transaction once, in order, after what was queued; no
  other connection gets anything.\<close>

theorem changes_reach_pos_servers_only:
  assumes "map_of reg i = Some m"
    and "map_of (start_db_change_stream json_text db_name rx reg) i = Some m'"
  shows "mb_queue m' = mb_queue m @
    (if sess_org (mb_session m) = db_name \<and> claim_type (mb_session m) = Some PosServer \<and> \<not> mb_closed m
     then map (change_message json_text) rx else [])"
  using map_of_change_stream [OF assms(1), of json_text db_name rx] assms(2)
  by (auto simp: sees_changes_def)

definition pos_session :: "string \<Rightarrow> session" where
  "pos_session org = (session_new org 1)\<lparr>sess_claims := Some (JObj [(''claim_type'', JStr ''PosServer'')])\<rparr>"

lemma pos_session_org [simp]: "sess_org (pos_session org) = org"
  by (simp add: pos_session_def session_new_def)

lemma claim_type_pos [simp]: "claim_type (pos_session org) = Some PosServer"
  by (simp add: pos_session_def claim_type_def session_type_of_json_def)

theorem changes_reach_pos_servers_only_witness:
  "map_of (start_db_change_stream (\<lambda>_. ''j'') ''acme'' [fresh_transaction, fresh_transaction]
      [(1, member_new (pos_session ''acme'')), (2, member_new (pos_session ''beta''))]) 1
    = Some ((member_new (pos_session ''acme''))\<lparr>mb_queue := [TextMsg ''j'', TextMsg ''j'']\<rparr>)"
proof -
  let ?reg = "[(1, member_new (pos_session ''acme'')), (2, member_new (pos_session ''beta''))]"
  let ?rx = "[fresh_transaction, fresh_transaction]"
  have m: "map_of ?reg (1 :: uuid) = Some (member_new (pos_session ''acme''))" by simp
  from map_of_change_stream [OF m] obtain m' where
    m': "map_of (start_db_change_stream (\<lambda>_. ''j'') ''acme'' ?rx ?reg) 1 = Some m'"
    and same: "mb_session m' = pos_session ''acme''" "mb_closed m' = False"
    by (fastforce simp: member_new_def)
  have "mb_queue m' = [TextMsg ''j'', TextMsg ''j'']"
    using changes_reach_pos_servers_only [OF m m']
    by (simp add: member_new_def change_message_def)
  with m' same show ?thesis by (simp add: member_new_def)
qed

text \<open>The notification of a streaming query goes to the connection that asked for it and to no other,
  and one for a connection that has gone is dropped.\<close>

theorem notification_reaches_owner:
  shows "map_of (forward_notification json_text uuid_text (i, n) reg) k =
    (if k = i then map_option (push (notification_message json_text uuid_text n)) (map_of reg i)
     else map_of reg k)"
  by (auto simp: forward_notification_def update_conv' split: option.split)

text \<open>An edit of one entry of the registry.\<close>

definition edit_entry :: "uuid \<Rightarrow> (member \<Rightarrow> member) \<Rightarrow> registry \<Rightarrow> registry" where
  "edit_entry i f reg = map (\<lambda>(k, m). (k, if k = i then f m else m)) reg"

lemma edit_entry_keys [simp]: "map fst (edit_entry i f reg) = map fst reg"
  by (simp add: edit_entry_def comp_def case_prod_beta)

lemma map_of_edit_entry [simp]:
  "map_of (edit_entry i f reg) k = (if k = i then map_option f (map_of reg k) else map_of reg k)"
  by (induction reg) (auto simp: edit_entry_def)

end
