(* ===== verification/Watch.thy ===== *)
theory Watch
  imports Cdc
begin

text \<open>
  \<open>tenant/src/cdc/watch.rs\<close>: the replication client of one organization.  It opens a logical
  replication slot, answers the keepalives of the server and groups the change events between
  \<open>Begin\<close> and \<open>Commit\<close> into transactions, which it sends down a channel.

  The stream is the list of what \<open>next()\<close> yields until it yields \<open>None\<close>.  Decoding the
  payload of a data frame is third-party (\<open>serde_json::from_slice\<close>) and a parameter; the
  conditions an iteration meets (the clock, whether the sink accepts a frame, whether the channel's
  receiver is alive) come with the item.
\<close>

section \<open>Setting up the slot\<close>

type_synonym bytes = "8 word list"

definition conn_uri :: "string \<Rightarrow> string \<Rightarrow> string" where
  "conn_uri db_url org_name = db_url @ ''/'' @ org_name @ ''?replication=database''"

definition slot_name :: "nat \<Rightarrow> string" where
  "slot_name now_millis = ''slot_'' @ decimal now_millis"

definition slot_query :: "string \<Rightarrow> string" where
  "slot_query slot =
     ''CREATE_REPLICATION_SLOT '' @ slot @ '' TEMPORARY LOGICAL '' @ dquote @ ''wal2json'' @ dquote"

datatype simple_query_message = SqRow "string \<Rightarrow> string option" | SqOther

fun rows_of :: "simple_query_message list \<Rightarrow> (string \<Rightarrow> string option) list" where
  "rows_of [] = []"
| "rows_of (SqRow r # ms) = r # rows_of ms"
| "rows_of (SqOther # ms) = rows_of ms"

definition consistent_point :: "simple_query_message list \<Rightarrow> string outcome" where
  "consistent_point ms =
     (case rows_of ms of
        [] \<Rightarrow> Panic
      | r # _ \<Rightarrow> (case r ''consistent_point'' of None \<Rightarrow> Panic | Some lsn \<Rightarrow> Returned lsn))"

definition start_query :: "string \<Rightarrow> string \<Rightarrow> string" where
  "start_query slot lsn =
     ''START_REPLICATION SLOT '' @ slot @ '' LOGICAL '' @ lsn @ '' ('' @ dquote @ ''format-version'' @
     dquote @ '' '' @ squote @ ''2'' @ squote @ '')''"

section \<open>The keepalive frame\<close>

definition MICROSECONDS_FROM_UNIX_EPOCH_TO_2000 :: nat where
  "MICROSECONDS_FROM_UNIX_EPOCH_TO_2000 = 946684800000000"

text \<open>The time since 2000 as a \<open>u64\<close>; the cast truncates, and subtraction below the epoch wraps.\<close>

definition wal_clock :: "nat \<Rightarrow> 64 word" where
  "wal_clock now_micros = of_nat now_micros - of_nat MICROSECONDS_FROM_UNIX_EPOCH_TO_2000"

fun big_endian :: "nat \<Rightarrow> nat \<Rightarrow> nat list" where
  "big_endian 0 n = []"
| "big_endian (Suc k) n = big_endian k (n div 256) @ [n mod 256]"

definition to_be_bytes :: "64 word \<Rightarrow> bytes" where
  "to_be_bytes w = map of_nat (big_endian 8 (unat w))"

definition new_keepalive :: bytes where
  "new_keepalive = [114] @ replicate 32 0 @ [1]"

text \<open>\<open>keepalive[26..34].swap_with_slice(..)\<close>.\<close>

definition set_timestamp :: "nat \<Rightarrow> bytes \<Rightarrow> bytes" where
  "set_timestamp now_micros k = take 26 k @ to_be_bytes (wal_clock now_micros) @ drop 34 k"

section \<open>The loop\<close>

record watch_state =
  current :: "transaction option"
  keepalive :: bytes
  sent :: "transaction list"
  frames :: "bytes list"

datatype stream_item = StreamErr | Event bytes

record watch_input =
  item :: stream_item
  now :: nat
  sink_ok :: bool
  receiver_alive :: bool

text \<open>\<open>poll_ready\<close>, \<open>start_send\<close> and \<open>poll_flush\<close> of the duplex stream, each unwrapped.\<close>

definition send_keepalive :: "bool \<Rightarrow> watch_state \<Rightarrow> watch_state outcome" where
  "send_keepalive accepted s =
     (if accepted then Returned (s\<lparr>frames := frames s @ [keepalive s]\<rparr>) else Panic)"

fun handle_action :: "bool \<Rightarrow> action \<Rightarrow> watch_state \<Rightarrow> watch_state outcome" where
  "handle_action alive ActBegin s = Returned (s\<lparr>current := Some fresh_transaction\<rparr>)"
| "handle_action alive ActCommit s =
     (case current s of
        None \<Rightarrow> Returned s
      | Some txn \<Rightarrow>
          if alive then Returned (s\<lparr>current := None, sent := sent s @ [txn]\<rparr>) else Panic)"
| "handle_action alive a s =
     (case current s of
        None \<Rightarrow> Panic
      | Some txn \<Rightarrow> Returned (s\<lparr>current := Some (txn\<lparr>events := events txn @ [a]\<rparr>)\<rparr>))"

definition watch_step ::
    "(bytes \<Rightarrow> action option) \<Rightarrow> watch_input \<Rightarrow> watch_state \<Rightarrow> watch_state outcome" where
  "watch_step parse i s =
     (case item i of
        StreamErr \<Rightarrow> Returned s
      | Event event \<Rightarrow>
          (case event of
             [] \<Rightarrow> Panic
           | b # _ \<Rightarrow>
               if b = 119 then
                 if length event < 25 then Panic
                 else (case parse (drop 25 event) of
                         None \<Rightarrow> Panic
                       | Some a \<Rightarrow> handle_action (receiver_alive i) a s)
               else if b = 107 then
                 if last event = 1
                 then send_keepalive (sink_ok i) (s\<lparr>keepalive := set_timestamp (now i) (keepalive s)\<rparr>)
                 else Returned s
               else Returned s))"

fun watch_run ::
    "(bytes \<Rightarrow> action option) \<Rightarrow> watch_input list \<Rightarrow> watch_state \<Rightarrow> watch_state outcome" where
  "watch_run parse [] s = Returned s"
| "watch_run parse (i # inputs) s = after (watch_step parse i s) (watch_run parse inputs)"

text \<open>The frame sent before the loop, and the state the loop starts in.\<close>

definition watch_start :: "nat \<Rightarrow> bool \<Rightarrow> watch_state outcome" where
  "watch_start now_micros accepted =
     send_keepalive accepted
       \<lparr>current = None, keepalive = set_timestamp now_micros new_keepalive, sent = [], frames = []\<rparr>"

definition watch ::
    "(bytes \<Rightarrow> action option) \<Rightarrow> nat \<Rightarrow> bool \<Rightarrow> watch_input list \<Rightarrow> watch_state outcome" where
  "watch parse now_micros accepted inputs =
     after (watch_start now_micros accepted) (watch_run parse inputs)"

section \<open>What a standby status update is\<close>

text \<open>
  The message of the replication protocol that the frame is meant to be: the byte \<open>r\<close>, the
  positions written, flushed and applied, the client's clock (eight bytes each) and one byte that
  asks for a reply.
\<close>

record standby_status =
  written :: nat
  flushed :: nat
  applied :: nat
  clock :: nat
  reply_requested :: "8 word"

definition read_be :: "bytes \<Rightarrow> nat" where
  "read_be bs = foldl (\<lambda>acc b. acc * 256 + unat b) 0 bs"

definition standby_status_of :: "bytes \<Rightarrow> standby_status option" where
  "standby_status_of f =
     (if length f = 34 \<and> hd f = 114
      then Some \<lparr>written = read_be (take 8 (drop 1 f)), flushed = read_be (take 8 (drop 9 f)),
        applied = read_be (take 8 (drop 17 f)), clock = read_be (take 8 (drop 25 f)),
        reply_requested = f ! 33\<rparr>
      else None)"

lemma length_big_endian [simp]: "length (big_endian k n) = k"
  by (induction k n rule: big_endian.induct) simp_all

lemma length_to_be_bytes [simp]: "length (to_be_bytes w) = 8"
  by (simp add: to_be_bytes_def)

lemma big_endian_bound: "b \<in> set (big_endian k n) \<Longrightarrow> b < 256"
  by (induction k n rule: big_endian.induct) auto

lemma read_be_Nil [simp]: "read_be [] = 0"
  by (simp add: read_be_def)

lemma read_be_snoc [simp]: "read_be (bs @ [b]) = read_be bs * 256 + unat b"
  by (simp add: read_be_def)

lemma read_be_zero [simp]: "read_be (0 # bs) = read_be bs"
  by (simp add: read_be_def)

lemma read_be_zeros [simp]: "read_be (replicate k 0) = 0"
  by (induction k) simp_all

lemma unat_byte: "b < 256 \<Longrightarrow> unat (of_nat b :: 8 word) = b"
  by (simp add: unat_of_nat)

lemma read_be_big_endian: "read_be (map of_nat (big_endian k n)) = n mod 256 ^ k"
proof (induction k n rule: big_endian.induct)
  case (2 k n)
  have "n mod 256 ^ Suc k = n div 256 mod 256 ^ k * 256 + n mod 256"
    by (simp add: mod_mult2_eq mult.commute)
  with 2 show ?case by (simp add: unat_byte)
qed simp

lemma unat_u64: "unat (w :: 64 word) < 2 ^ 64"
  by (rule order.strict_trans2 [OF unsigned_less]) simp

lemma read_be_to_be_bytes: "read_be (to_be_bytes w) = unat w"
  using unat_u64 [of w] by (simp add: to_be_bytes_def read_be_big_endian)

text \<open>The frame as sent: everything before byte 26 is what \<open>new_keepalive\<close> put there.\<close>

definition frame_at :: "nat \<Rightarrow> bytes" where
  "frame_at t = [114] @ replicate 25 0 @ to_be_bytes (wal_clock t)"

lemma set_timestamp_new: "set_timestamp t new_keepalive = frame_at t"
  by (simp add: set_timestamp_def new_keepalive_def frame_at_def)

lemma set_timestamp_again: "set_timestamp t (frame_at t') = frame_at t"
  by (simp add: set_timestamp_def frame_at_def)

lemma standby_status_of_frame:
  "standby_status_of (frame_at t) =
     Some \<lparr>written = 0, flushed = 0, applied = 0, clock = unat (wal_clock t) div 256,
       reply_requested = of_nat (unat (wal_clock t) mod 256)\<rparr>"
proof -
  define n where "n = unat (wal_clock t)"
  define top where "top = map (of_nat :: nat \<Rightarrow> 8 word) (big_endian 7 (n div 256))"
  have "big_endian 8 n = big_endian 7 (n div 256) @ [n mod 256]"
    using big_endian.simps(2) [of 7 n] by simp
  moreover have "replicate 25 (0 :: 8 word) = replicate 24 0 @ [0]"
    by (simp add: replicate_append_same eval_nat_numeral)
  ultimately have f: "frame_at t = [114] @ replicate 24 0 @ [0] @ top @ [of_nat (n mod 256)]"
    by (simp add: frame_at_def to_be_bytes_def top_def n_def)
  have len: "length top = 7" by (simp add: top_def)
  have "n < 2 ^ 64" unfolding n_def by (rule unat_u64)
  then have "n div 256 < 256 ^ 7" by (simp add: less_mult_imp_div_less)
  then have top: "read_be top = n div 256" by (simp add: top_def read_be_big_endian)
  have "take 8 (drop 25 (frame_at t)) = 0 # top"
    and "take 8 (drop 1 (frame_at t)) = replicate 8 0"
    and "take 8 (drop 9 (frame_at t)) = replicate 8 0"
    and "take 8 (drop 17 (frame_at t)) = replicate 8 0"
    and "frame_at t ! 33 = of_nat (n mod 256)" and "length (frame_at t) = 34"
    and "hd (frame_at t) = 114"
    unfolding f using len by (simp_all add: nth_append)
  then show ?thesis by (simp add: standby_status_of_def top n_def)
qed

section \<open>The shape of a step\<close>

text \<open>An input that is no panic in itself: frames are not empty, data frames carry an action the
  decoder accepts, the sink accepts the answers that are due and the receiver is alive.\<close>

definition calm :: "(bytes \<Rightarrow> action option) \<Rightarrow> watch_input \<Rightarrow> bool" where
  "calm parse i \<longleftrightarrow> receiver_alive i \<and>
     (case item i of
        StreamErr \<Rightarrow> True
      | Event e \<Rightarrow> e \<noteq> [] \<and>
          (hd e = 119 \<longrightarrow> 25 \<le> length e \<and> parse (drop 25 e) \<noteq> None) \<and>
          (hd e = 107 \<and> last e = 1 \<longrightarrow> sink_ok i))"

definition action_of :: "(bytes \<Rightarrow> action option) \<Rightarrow> watch_input \<Rightarrow> action option" where
  "action_of parse i =
     (case item i of
        StreamErr \<Rightarrow> None
      | Event e \<Rightarrow> if e \<noteq> [] \<and> hd e = 119 then parse (drop 25 e) else None)"

definition actions_of :: "(bytes \<Rightarrow> action option) \<Rightarrow> watch_input list \<Rightarrow> action list" where
  "actions_of parse inputs = List.map_filter (action_of parse) inputs"

lemma watch_stepE:
  assumes "watch_step parse i s = Returned s'"
  obtains (skip) "s' = s" "action_of parse i = None"
  | (act) a where "action_of parse i = Some a" "handle_action (receiver_alive i) a s = Returned s'"
  | (answer) k where "action_of parse i = None" "k = set_timestamp (now i) (keepalive s)"
      "s' = s\<lparr>keepalive := k, frames := frames s @ [k]\<rparr>"
proof (cases "item i")
  case StreamErr
  with assms show ?thesis by (intro skip) (simp_all add: watch_step_def action_of_def)
next
  case (Event e)
  show ?thesis
  proof (cases e)
    case Nil
    with assms Event show ?thesis by (simp add: watch_step_def)
  next
    case (Cons b bs)
    consider "b = 119" | "b \<noteq> 119" "b = 107" "last e = 1" | "b \<noteq> 119" "b \<noteq> 107 \<or> last e \<noteq> 1"
      by blast
    then show ?thesis
    proof cases
      case 1
      with assms Event Cons obtain a where "parse (drop 25 e) = Some a"
        and "handle_action (receiver_alive i) a s = Returned s'"
        by (auto simp: watch_step_def split: if_splits option.splits)
      moreover from this(1) 1 Event Cons have "action_of parse i = Some a"
        by (simp add: action_of_def)
      ultimately show ?thesis by (intro act)
    next
      case 2
      with assms Event Cons show ?thesis
        by (intro answer) (auto simp: watch_step_def action_of_def send_keepalive_def
            split: if_splits)
    next
      case 3
      with assms Event Cons show ?thesis
        by (intro skip) (auto simp: watch_step_def action_of_def split: if_splits)
    qed
  qed
qed

section \<open>Frames sent\<close>

definition frames_inv :: "nat set \<Rightarrow> watch_state \<Rightarrow> bool" where
  "frames_inv T s \<longleftrightarrow> keepalive s \<in> frame_at ` T \<and> set (frames s) \<subseteq> frame_at ` T"

lemma handle_action_frames:
  "handle_action alive a s = Returned s' \<Longrightarrow> keepalive s' = keepalive s \<and> frames s' = frames s"
  by (cases "(alive, a, s)" rule: handle_action.cases) (auto split: option.splits if_splits)

lemma watch_step_frames:
  assumes "watch_step parse i s = Returned s'" and "frames_inv T s" and "now i \<in> T"
  shows "frames_inv T s'"
  using assms(1)
proof (cases rule: watch_stepE)
  case skip
  with assms(2) show ?thesis by simp
next
  case (act a)
  with handle_action_frames [OF this(2)] assms(2) show ?thesis by (simp add: frames_inv_def)
next
  case (answer k)
  with assms(2) obtain t where "keepalive s = frame_at t" by (auto simp: frames_inv_def)
  with answer(2) have k: "k = frame_at (now i)" by (simp only: set_timestamp_again)
  show ?thesis
    unfolding answer(3) k using assms(2,3) by (simp add: frames_inv_def)
qed

lemma watch_run_frames:
  "watch_run parse inputs s = Returned s' \<Longrightarrow> frames_inv T s \<Longrightarrow> now ` set inputs \<subseteq> T \<Longrightarrow> frames_inv T s'"
proof (induction inputs arbitrary: s)
  case (Cons i inputs)
  then obtain s1 where step: "watch_step parse i s = Returned s1"
    and run: "watch_run parse inputs s1 = Returned s'"
    by auto
  have "frames_inv T s1"
    using Cons.prems by (intro watch_step_frames [OF step]) auto
  with run show ?case using Cons.prems(3) by (intro Cons.IH) auto
qed simp

text \<open>C40: every frame the client sends is read by the server as: nothing written, flushed or applied
  (so the slot never advances), a clock that is the client's clock shifted right by one byte, and a
  reply request that is the low byte of the clock.  The timestamp is one byte late.\<close>

theorem keepalive_off_by_one:
  assumes "watch parse t0 accepted inputs = Returned s" and "f \<in> set (frames s)"
  shows "\<exists>t \<in> insert t0 (now ` set inputs). standby_status_of f =
    Some \<lparr>written = 0, flushed = 0, applied = 0, clock = unat (wal_clock t) div 256,
      reply_requested = of_nat (unat (wal_clock t) mod 256)\<rparr>"
proof -
  let ?T = "insert t0 (now ` set inputs)"
  obtain s0 where s0: "watch_start t0 accepted = Returned s0" and run: "watch_run parse inputs s0 = Returned s"
    using assms(1) by (auto simp: watch_def)
  have "keepalive s0 = frame_at t0" and "frames s0 = [frame_at t0]"
    using s0 unfolding watch_start_def send_keepalive_def set_timestamp_new
    by (auto split: if_splits)
  then have "frames_inv ?T s0" by (simp add: frames_inv_def)
  with run have "frames_inv ?T s" by (rule watch_run_frames) (rule subset_insertI)
  with assms(2) obtain t where t: "t \<in> ?T" and f: "f = frame_at t"
    unfolding frames_inv_def by blast
  show ?thesis unfolding f by (rule bexI [OF standby_status_of_frame t])
qed

section \<open>Grouping of events into transactions\<close>

text \<open>The specification: the transactions of a sequence of actions.  A \<open>Begin\<close> drops what was
  collected, a \<open>Commit\<close> outside a transaction does nothing, a change outside one is an error.\<close>

fun group_actions :: "transaction option \<Rightarrow> action list \<Rightarrow> (transaction list \<times> transaction option) option" where
  "group_actions cur [] = Some ([], cur)"
| "group_actions cur (ActBegin # as) = group_actions (Some fresh_transaction) as"
| "group_actions None (ActCommit # as) = group_actions None as"
| "group_actions (Some t) (ActCommit # as) = map_option (apfst ((#) t)) (group_actions None as)"
| "group_actions None (a # as) = None"
| "group_actions (Some t) (a # as) = group_actions (Some (t\<lparr>events := events t @ [a]\<rparr>)) as"

definition progress :: "watch_state outcome \<Rightarrow> (transaction list \<times> transaction option) option" where
  "progress r = (case r of Panic \<Rightarrow> None | Returned s \<Rightarrow> Some (sent s, current s))"

lemma progress_simps [simp]:
  "progress Panic = None" "progress (Returned s) = Some (sent s, current s)"
  by (simp_all add: progress_def)

lemma watch_step_calm:
  assumes "calm parse i"
  shows "watch_step parse i s = (case action_of parse i of
      Some a \<Rightarrow> handle_action True a s
    | None \<Rightarrow> if item i \<noteq> StreamErr \<and> (\<exists>e. item i = Event e \<and> hd e = 107 \<and> last e = 1)
        then Returned (s\<lparr>keepalive := set_timestamp (now i) (keepalive s),
          frames := frames s @ [set_timestamp (now i) (keepalive s)]\<rparr>)
        else Returned s)"
proof (cases "item i")
  case StreamErr
  then show ?thesis by (simp add: watch_step_def action_of_def)
next
  case (Event e)
  with assms obtain b bs where e: "e = b # bs" by (cases e) (simp_all add: calm_def)
  show ?thesis
  proof (cases "b = 119")
    case True
    with assms Event e obtain a where "parse (drop 25 e) = Some a" and "\<not> length e < 25"
      and "receiver_alive i"
      by (auto simp: calm_def)
    with True Event e show ?thesis by (simp add: watch_step_def action_of_def)
  next
    case False
    with assms Event e show ?thesis
      by (auto simp: watch_step_def action_of_def send_keepalive_def calm_def)
  qed
qed

lemma apfst_append_Nil: "map_option (apfst ((@) [])) x = x"
  by (cases x) (auto simp: apfst_def map_prod_def)

lemma append_snoc_fun: "(@) (xs @ [x]) = (\<lambda>ys. xs @ x # ys)"
  by auto

lemma group_handle_action:
  "(case handle_action True a s of Panic \<Rightarrow> None
    | Returned s' \<Rightarrow> map_option (apfst ((@) (sent s'))) (group_actions (current s') acts)) =
   map_option (apfst ((@) (sent s))) (group_actions (current s) (a # acts))"
  by (cases a; cases "current s")
    (auto simp: option.map_comp comp_def apfst_compose append_snoc_fun)

lemma watch_run_group:
  assumes "\<forall>i \<in> set inputs. calm parse i"
  shows "progress (watch_run parse inputs s) =
    map_option (apfst ((@) (sent s))) (group_actions (current s) (actions_of parse inputs))"
  using assms
proof (induction inputs arbitrary: s)
  case Nil
  then show ?case by (simp add: actions_of_def List.map_filter_simps)
next
  case (Cons i inputs)
  note step = watch_step_calm [of parse i s]
  show ?case
  proof (cases "action_of parse i")
    case None
    with step Cons show ?thesis
      by (auto simp: actions_of_def List.map_filter_simps)
  next
    case (Some a)
    have "progress (watch_run parse (i # inputs) s) =
        (case handle_action True a s of Panic \<Rightarrow> None
         | Returned s' \<Rightarrow> progress (watch_run parse inputs s'))"
      using step Cons.prems Some by (cases "handle_action True a s") simp_all
    also have "\<dots> = (case handle_action True a s of Panic \<Rightarrow> None
         | Returned s' \<Rightarrow> map_option (apfst ((@) (sent s')))
             (group_actions (current s') (actions_of parse inputs)))"
      using Cons by (cases "handle_action True a s") simp_all
    also have "\<dots> = map_option (apfst ((@) (sent s))) (group_actions (current s) (a # actions_of parse inputs))"
      by (rule group_handle_action)
    finally show ?thesis using Some by (simp add: actions_of_def List.map_filter_simps)
  qed
qed


text \<open>A concrete stream for the witnesses: a keepalive that wants an answer, a stream error and a
  transaction with one insertion.\<close>

definition sample_insert :: action where
  "sample_insert = ActInsert \<lparr>ins_columns = [], ins_schema = ''public'', ins_table = ''account''\<rparr>"

definition sample_parse :: "bytes \<Rightarrow> action option" where
  "sample_parse p = (if p = [66] then Some ActBegin else if p = [67] then Some ActCommit
     else if p = [73] then Some sample_insert else None)"

definition quiet_input :: "stream_item \<Rightarrow> watch_input" where
  "quiet_input x = \<lparr>item = x, now = 946684800000000 + 258, sink_ok = True, receiver_alive = True\<rparr>"

definition data_frame :: "8 word \<Rightarrow> stream_item" where
  "data_frame b = Event (119 # replicate 24 0 @ [b])"

definition sample_inputs :: "watch_input list" where
  "sample_inputs = map quiet_input [Event [107, 0, 1], data_frame 66, StreamErr, data_frame 73,
     Event [107, 0, 0], data_frame 67]"

lemma sample_inputs_calm: "\<forall>i \<in> set sample_inputs. calm sample_parse i"
  by (simp add: sample_inputs_def quiet_input_def calm_def data_frame_def sample_parse_def)

lemma sample_inputs_actions:
  "actions_of sample_parse sample_inputs = [ActBegin, sample_insert, ActCommit]"
  by (simp add: sample_inputs_def quiet_input_def actions_of_def action_of_def data_frame_def
      sample_parse_def List.map_filter_simps)


definition wire_transaction :: "action list \<Rightarrow> action list" where
  "wire_transaction es = ActBegin # es @ [ActCommit]"

lemma group_changes:
  "\<forall>e \<in> set es. is_change e \<Longrightarrow>
    group_actions (Some t) (es @ ActCommit # acts) =
      map_option (apfst ((#) (t\<lparr>events := events t @ es\<rparr>))) (group_actions None acts)"
proof (induction es arbitrary: t)
  case (Cons e es)
  then show ?case by (cases e) simp_all
qed simp

lemma group_wire_transactions:
  "\<forall>es \<in> set ess. \<forall>e \<in> set es. is_change e \<Longrightarrow>
    group_actions None (concat (map wire_transaction ess)) =
      Some (map (\<lambda>es. fresh_transaction\<lparr>events := es\<rparr>) ess, None)"
  by (induction ess) (simp_all add: wire_transaction_def group_changes fresh_transaction_def)

lemma watch_sends_transactions:
  assumes "\<forall>i \<in> set inputs. calm parse i"
    and "actions_of parse inputs = concat (map wire_transaction ess)"
    and "\<forall>es \<in> set ess. \<forall>e \<in> set es. is_change e"
  shows "\<exists>s. watch parse t0 True inputs = Returned s \<and> current s = None \<and>
    sent s = map (\<lambda>es. \<lparr>xid = None, commit_time = None, events = es\<rparr>) ess"
proof -
  obtain s0 where s0: "watch_start t0 True = Returned s0" "sent s0 = []" "current s0 = None"
    by (simp add: watch_start_def send_keepalive_def)
  have "progress (watch_run parse inputs s0) =
      map_option (apfst ((@) (sent s0))) (group_actions (current s0) (actions_of parse inputs))"
    using assms(1) by (rule watch_run_group)
  then have "progress (watch_run parse inputs s0) =
      Some (map (\<lambda>es. fresh_transaction\<lparr>events := es\<rparr>) ess, None)"
    using s0 assms by (simp add: group_wire_transactions)
  then show ?thesis
    using s0(1) by (cases "watch_run parse inputs s0") (auto simp: watch_def fresh_transaction_def)
qed

text \<open>The transactions of the database arrive as they were: if the data frames carry, in order, the
  changes of the transactions \<open>ess\<close> between \<open>Begin\<close> and \<open>Commit\<close>, the loop ends without a panic
  and has sent one transaction per element of \<open>ess\<close>, with its changes in order.\<close>

theorem watch_delivers_transactions:
  assumes "\<forall>i \<in> set inputs. calm parse i"
    and "actions_of parse inputs = concat (map wire_transaction ess)"
    and "\<forall>es \<in> set ess. \<forall>e \<in> set es. is_change e"
  shows "\<exists>s. watch parse t0 True inputs = Returned s \<and> current s = None \<and>
    sent s = map (\<lambda>es. \<lparr>xid = None, commit_time = None, events = es\<rparr>) ess"
  using assms by (rule watch_sends_transactions)

theorem watch_delivers_transactions_witness:
  "\<exists>s. watch sample_parse 5 True sample_inputs = Returned s \<and> current s = None \<and>
    sent s = [\<lparr>xid = None, commit_time = None, events = [sample_insert]\<rparr>]"
  using watch_delivers_transactions [OF sample_inputs_calm, of "[[sample_insert]]" 5]
  by (simp add: sample_inputs_actions wire_transaction_def sample_insert_def)

theorem keepalive_off_by_one_witness:
  "\<exists>s f. watch sample_parse 946684800000258 True [] = Returned s \<and> f \<in> set (frames s) \<and>
    standby_status_of f = Some \<lparr>written = 0, flushed = 0, applied = 0, clock = 1, reply_requested = 2\<rparr>"
proof -
  let ?t = "946684800000258"
  let ?s = "\<lparr>current = None, keepalive = frame_at ?t, sent = [], frames = [frame_at ?t]\<rparr>"
  have w: "watch sample_parse ?t True [] = Returned ?s"
    by (simp add: watch_def watch_start_def send_keepalive_def set_timestamp_new)
  have "wal_clock ?t = 258"
    by (simp add: wal_clock_def MICROSECONDS_FROM_UNIX_EPOCH_TO_2000_def)
  then have "standby_status_of (frame_at ?t) =
      Some \<lparr>written = 0, flushed = 0, applied = 0, clock = 1, reply_requested = 2\<rparr>"
    using keepalive_off_by_one [OF w, of "frame_at ?t"] by simp
  with w show ?thesis by auto
qed

end
