(* ===== verification/Rpc_Contract.thy ===== *)
theory Rpc_Contract
  imports Connection
begin

text \<open>
  What the methods of a connection promise each other: every open transaction belongs to the
  session or to a spawned stream, every database call goes to the session's own database, and the
  session's organization never changes.  The contract is the locale \<open>rpc_method\<close>; the five
  methods, the dispatcher and the events of a connection are its interpretations.
\<close>

section \<open>Programs that run inside one transaction\<close>

fun on_tx :: "tx \<Rightarrow> db_call \<Rightarrow> bool" where
  "on_tx t (Execute c stm) \<longleftrightarrow> c = OnTx t"
| "on_tx t (Fetch c stm) \<longleftrightarrow> c = OnTx t"
| "on_tx t _ \<longleftrightarrow> False"

definition same_session :: "rpc \<Rightarrow> rpc \<Rightarrow> bool" where
  "same_session s s' \<longleftrightarrow> rpc_id s' = rpc_id s \<and> config s' = config s \<and>
     session_db s' = session_db s \<and> sess_org (sess s') = sess_org (sess s)"

definition keeps_rest :: "rpc \<Rightarrow> rpc \<Rightarrow> bool" where
  "keeps_rest s s' \<longleftrightarrow> same_session s s' \<and> streams s' = streams s \<and> notified s' = notified s \<and>
     sess_txn (sess s') = sess_txn (sess s)"

definition inside :: "tx \<Rightarrow> rpc \<Rightarrow> rpc \<Rightarrow> bool" where
  "inside t s s' \<longleftrightarrow> keeps_rest s s' \<and> fresh s' = fresh s \<and>
     (\<exists>cs. calls s' = calls s @ cs \<and> list_all (on_tx t) cs)"

lemmas frame_defs = same_session_def keeps_rest_def session_db_def

lemma keeps_rest_refl [simp]: "keeps_rest s s"
  by (simp add: frame_defs)

lemma keeps_rest_trans: "keeps_rest s s1 \<Longrightarrow> keeps_rest s1 s2 \<Longrightarrow> keeps_rest s s2"
  by (simp add: frame_defs)

lemma inside_rel: "reflp (inside t)" "transp (inside t)"
proof -
  show "reflp (inside t)" by (simp add: reflp_def inside_def)
  show "transp (inside t)"
  proof (rule transpI)
    fix s s1 s2
    assume fst_step: "inside t s s1" and snd_step: "inside t s1 s2"
    obtain cs where "calls s1 = calls s @ cs" "list_all (on_tx t) cs"
      using fst_step by (auto simp: inside_def)
    moreover obtain ds where "calls s2 = calls s1 @ ds" "list_all (on_tx t) ds"
      using snd_step by (auto simp: inside_def)
    moreover have "keeps_rest s s2" "fresh s2 = fresh s"
      using fst_step snd_step keeps_rest_trans by (auto simp: inside_def)
    ultimately
    show "inside t s s2"
      unfolding inside_def by (intro conjI exI [of _ "cs @ ds"]) simp_all
  qed
qed

lemmas inside_pure = steps_pure [OF inside_rel(1)]
lemmas inside_try_bind = steps_try_bind [OF inside_rel(2)]

lemma inside_db: "on_tx t c \<Longrightarrow> steps (inside t) (db E c)"
  by (simp add: steps_def inside_def frame_defs)

lemma inside_set_claims: "steps (inside t) (modify (set_claims c))"
  by (simp add: steps_def inside_def frame_defs set_claims_def)

lemma inside_fetch_one: "steps (inside t) (fetch_one E (OnTx t) stm)"
  unfolding fetch_one_def by (intro inside_try_bind inside_db inside_pure) simp

lemma inside_set_db_config: "steps (inside t) (set_db_config json_text E (OnTx t) cfg)"
  unfolding set_db_config_def by (intro inside_try_bind inside_db inside_pure) simp

lemma inside_switch_auth_context:
  "steps (inside t) (switch_auth_context json_text E (OnTx t) session cfg)"
  unfolding switch_auth_context_def
  by (intro inside_try_bind inside_pure inside_db inside_set_db_config)
    (simp_all add: inside_pure inside_try_bind inside_db split: option.split)

lemma inside_login: "steps (inside t) (login E (OnTx t) username password)"
  unfolding login_def by (intro inside_try_bind inside_fetch_one inside_pure)

lemma inside_authenticate: "steps (inside t) (authenticate E (OnTx t) token)"
  unfolding authenticate_def by (intro inside_try_bind inside_fetch_one inside_pure)

section \<open>Methods with a transaction of their own\<close>

definition own_tx :: "rpc \<Rightarrow> tx" where
  "own_tx s = Tx (session_db s) (fresh s)"

definition scoped :: "db_env \<Rightarrow> rpc \<Rightarrow> rpc \<Rightarrow> bool" where
  "scoped E s s' \<longleftrightarrow> keeps_rest s s' \<and> fresh s' = Suc (fresh s) \<and>
     ((calls s' = calls s @ [Begin (own_tx s)] \<and> (\<exists>e. E (calls s) (Begin (own_tx s)) = Inl e)) \<or>
      (\<exists>cs c. calls s' = calls s @ Begin (own_tx s) # cs @ [c] \<and> list_all (on_tx (own_tx s)) cs \<and>
         (c = Commit (own_tx s) \<or> c = Drop (own_tx s))))"

definition ends :: "tx \<Rightarrow> rpc \<Rightarrow> rpc \<Rightarrow> bool" where
  "ends t s s' \<longleftrightarrow> keeps_rest s s' \<and> fresh s' = fresh s \<and>
     (\<exists>c. calls s' = calls s @ [c] \<and> (c = Commit t \<or> c = Drop t))"

lemma run_begin_session:
  "run_state (begin_session E) s =
     (map_sum failure_of_db_err (\<lambda>_. own_tx s) (E (calls s) (Begin (own_tx s))),
      s\<lparr>fresh := Suc (fresh s), calls := calls s @ [Begin (own_tx s)]\<rparr>)"
  by (auto simp: begin_session_def run_begin_on own_tx_def split: sum.split)

lemma scoped_program:
  assumes body: "\<And>t. steps (inside t) (body t)"
    and final: "\<And>t a s1. ends t s1 (snd (run_state (final t a) s1))"
  shows "scoped E s (snd (run_state
    (try_bind (begin_session E) (\<lambda>t. try_bind (on_error (drop_tx t) (body t)) (final t))) s))"
    (is "scoped E s (snd (run_state ?m s))")
proof -
  let ?t = "own_tx s"
  let ?s = "s\<lparr>fresh := Suc (fresh s), calls := calls s @ [Begin ?t]\<rparr>"
  have rest: "keeps_rest s ?s" by (simp add: frame_defs)
  show ?thesis
  proof (cases "E (calls s) (Begin ?t)")
    case (Inl e)
    then show ?thesis using rest by (simp add: scoped_def run_begin_session)
  next
    case (Inr rows)
    obtain r s1 where b: "run_state (body ?t) ?s = (r, s1)" by fastforce
    obtain cs where cs: "keeps_rest ?s s1" "fresh s1 = Suc (fresh s)"
      "calls s1 = calls s @ Begin ?t # cs" "list_all (on_tx ?t) cs"
      using stepsD [OF body b] by (auto simp: inside_def)
    show ?thesis
    proof (cases r)
      case (Inl e)
      have "keeps_rest s (drop_tx ?t s1)"
        by (rule keeps_rest_trans [OF rest])
          (use cs(1) in \<open>simp add: frame_defs drop_tx_def\<close>)
      with Inr Inl b cs show ?thesis
        by (auto simp: scoped_def run_begin_session drop_tx_def)
    next
      case right: (Inr a)
      let ?s2 = "snd (run_state (final ?t a) s1)"
      obtain c where c: "keeps_rest s1 ?s2" "fresh ?s2 = fresh s1" "calls ?s2 = calls s1 @ [c]"
        "c = Commit ?t \<or> c = Drop ?t"
        using final [of ?t s1 a] by (auto simp: ends_def)
      have "keeps_rest s ?s2" by (blast intro: keeps_rest_trans rest cs(1) c(1))
      with Inr right b cs c show ?thesis
        by (auto simp: scoped_def run_begin_session)
    qed
  qed
qed

lemma ends_commit: "ends t s (snd (run_state (try_bind (db E (Commit t)) (\<lambda>_. ok v)) s))"
  by (auto simp: ends_def frame_defs split: sum.split)

lemma ends_drop:
  "ends t s (snd (run_state (try_bind (modify (set_claims c)) (\<lambda>_.
     try_bind (modify (drop_tx t)) (\<lambda>_. ok v))) s))"
  by (auto simp: ends_def frame_defs set_claims_def drop_tx_def)

lemma scoped_query: "scoped E s (snd (run_state (query_rpc json_text E params) s))"
  unfolding query_rpc_def
  by (rule scoped_program [OF _ ends_commit])
    (intro inside_try_bind inside_pure inside_switch_auth_context inside_db; simp)

lemma scoped_login: "scoped E s (snd (run_state (login_rpc json_text E params) s))"
  unfolding login_rpc_def
  by (rule scoped_program [OF _ ends_commit])
    (intro inside_try_bind inside_pure inside_set_db_config inside_login inside_set_claims)

lemma scoped_authenticate: "scoped E s (snd (run_state (authenticate_rpc E token) s))"
  unfolding authenticate_rpc_def
  by (rule scoped_program [OF inside_authenticate ends_drop])

section \<open>Accounting of open transactions\<close>

definition owned_list :: "rpc \<Rightarrow> tx list" where
  "owned_list s = (case sess_txn (sess s) of None \<Rightarrow> [] | Some t \<Rightarrow> [t]) @ map st_txn (streams s)"

definition accounted :: "db_env \<Rightarrow> rpc \<Rightarrow> bool" where
  "accounted E s \<longleftrightarrow> live E (calls s) = set (owned_list s) \<and> distinct (owned_list s) \<and>
     (\<forall>t \<in> set (owned_list s). tx_no t < fresh s \<and> tx_db t = session_db s)"

definition own_calls :: "rpc \<Rightarrow> rpc \<Rightarrow> bool" where
  "own_calls s s' \<longleftrightarrow> (\<exists>cs. calls s' = calls s @ cs \<and> (\<forall>c \<in> set cs. call_db c = session_db s))"

definition contract :: "db_env \<Rightarrow> rpc \<Rightarrow> rpc \<Rightarrow> bool" where
  "contract E s s' \<longleftrightarrow> same_session s s' \<and> (accounted E s \<longrightarrow> accounted E s' \<and> own_calls s s')"

lemma own_callsI: "calls s' = calls s @ cs \<Longrightarrow> (\<And>c. c \<in> set cs \<Longrightarrow> call_db c = session_db s) \<Longrightarrow> own_calls s s'"
  by (auto simp: own_calls_def)

lemma contract_refl [simp]: "contract E s s"
  by (simp add: contract_def same_session_def own_calls_def)

lemma contract_trans:
  assumes "contract E s s1" "contract E s1 s2"
  shows "contract E s s2"
proof -
  have "same_session s s2" using assms by (simp add: contract_def same_session_def)
  moreover have "accounted E s2 \<and> own_calls s s2" if "accounted E s"
  proof -
    have acc: "accounted E s1" "accounted E s2" and own: "own_calls s s1" "own_calls s1 s2"
      using assms that by (simp_all add: contract_def)
    have db: "session_db s1 = session_db s"
      using assms(1) by (simp add: contract_def same_session_def)
    obtain cs where "calls s1 = calls s @ cs" "\<forall>c \<in> set cs. call_db c = session_db s"
      using own(1) unfolding own_calls_def by blast
    moreover obtain ds where "calls s2 = calls s1 @ ds" "\<forall>c \<in> set ds. call_db c = session_db s1"
      using own(2) unfolding own_calls_def by blast
    ultimately have "own_calls s s2"
      unfolding own_calls_def db by (intro exI [of _ "cs @ ds"]) auto
    with acc show ?thesis by simp
  qed
  ultimately show ?thesis by (simp add: contract_def)
qed

lemma live_on_tx: "list_all (on_tx t) cs \<Longrightarrow> live E (xs @ cs) = live E xs"
proof (induction cs rule: rev_induct)
  case (snoc c cs)
  then have "live E (xs @ cs) = live E xs" "on_tx t c" by simp_all
  then show ?case
    by (cases c) (simp_all flip: append_assoc)
qed simp

lemma on_tx_db: "on_tx t c \<Longrightarrow> call_db c = tx_db t"
  by (cases c) simp_all

lemma own_tx_fresh: "accounted E s \<Longrightarrow> own_tx s \<notin> set (owned_list s)"
  by (force simp: accounted_def own_tx_def)

lemma scoped_cases:
  assumes "scoped E s s'"
  obtains (failed) e where "calls s' = calls s @ [Begin (own_tx s)]"
      "E (calls s) (Begin (own_tx s)) = Inl e"
    | (ran) cs c where "calls s' = calls s @ Begin (own_tx s) # cs @ [c]"
      "list_all (on_tx (own_tx s)) cs" "c = Commit (own_tx s) \<or> c = Drop (own_tx s)"
  using assms unfolding scoped_def by blast

lemma live_drop_last [simp]:
  "live E (xs @ [c, Commit t]) = live E (xs @ [c]) - {t}"
  "live E (xs @ [c, Rollback t]) = live E (xs @ [c]) - {t}"
  "live E (xs @ [c, Drop t]) = live E (xs @ [c]) - {t}"
  using live_simps(3-5) [of E "xs @ [c]" t] by simp_all

lemma live_scoped:
  assumes "list_all (on_tx t) cs" "c = Commit t \<or> c = Drop t" "t \<notin> live E xs"
  shows "live E (xs @ Begin t # cs @ [c]) = live E xs"
proof -
  have "live E (xs @ Begin t # cs @ [c]) = live E (((xs @ [Begin t]) @ cs) @ [c])" by simp
  also have "\<dots> = live E ((xs @ [Begin t]) @ cs) - {t}"
    using assms(2) by (elim disjE; simp only: live_simps)
  also have "\<dots> = live E (xs @ [Begin t]) - {t}" by (simp only: live_on_tx [OF assms(1)])
  also have "\<dots> = live E xs" using assms(3) by (auto split: sum.split)
  finally show ?thesis .
qed

lemma contract_scoped:
  assumes "scoped E s s'"
  shows "contract E s s'"
proof -
  let ?t = "own_tx s"
  have rest: "keeps_rest s s'" and fresh: "fresh s' = Suc (fresh s)"
    using assms by (simp_all add: scoped_def)
  then have same: "same_session s s'" "owned_list s' = owned_list s" "session_db s' = session_db s"
    by (simp_all add: frame_defs owned_list_def)
  have "live E (calls s') = live E (calls s) \<and> own_calls s s'" if acc: "accounted E s"
  proof -
    have new: "?t \<notin> live E (calls s)" using own_tx_fresh [OF acc] acc by (simp add: accounted_def)
    have db: "tx_db ?t = session_db s" by (simp add: own_tx_def)
    from assms show ?thesis
    proof (cases rule: scoped_cases)
      case (failed e)
      then show ?thesis by (auto intro!: own_callsI simp: db)
    next
      case (ran cs c)
      have "live E (calls s') = live E (calls s)"
        unfolding ran(1) by (rule live_scoped [OF ran(2,3) new])
      moreover have "call_db k = session_db s" if "k \<in> set (Begin ?t # cs @ [c])" for k
        using that ran(2,3) on_tx_db [of ?t k] by (auto simp: db list_all_iff)
      ultimately show ?thesis using ran(1) own_callsI by blast
    qed
  qed
  moreover have "accounted E s'" if "live E (calls s') = live E (calls s)" "accounted E s"
    using that same fresh unfolding accounted_def by (simp add: less_Suc_eq)
  ultimately show ?thesis using same(1) by (simp add: contract_def)
qed

section \<open>The interface of a method\<close>

locale rpc_method =
  fixes E :: db_env
    and handle :: "'p \<Rightarrow> (rpc, failure + json) state"
  assumes kept: "contract E s (snd (run_state (handle p) s))"
begin

lemma accounted_after:
  "accounted E s \<Longrightarrow> run_state (handle p) s = (r, s') \<Longrightarrow> accounted E s'"
  using kept [of s p] by (simp add: contract_def)

lemma calls_after:
  "accounted E s \<Longrightarrow> run_state (handle p) s = (r, s') \<Longrightarrow>
     \<exists>cs. calls s' = calls s @ cs \<and> (\<forall>c \<in> set cs. call_db c = session_db s)"
  using kept [of s p] by (simp add: contract_def own_calls_def)

lemma session_after:
  "run_state (handle p) s = (r, s') \<Longrightarrow> same_session s s'"
  using kept [of s p] by (simp add: contract_def)

end

interpretation query: rpc_method E "query_rpc json_text E" for json_text E
  by unfold_locales (rule contract_scoped [OF scoped_query])

interpretation login: rpc_method E "login_rpc json_text E" for json_text E
  by unfold_locales (rule contract_scoped [OF scoped_login])

interpretation authenticate: rpc_method E "authenticate_rpc E" for E
  by unfold_locales (rule contract_scoped [OF scoped_authenticate])

text \<open>Beginning a transaction makes it the session's and drops the one it replaces.\<close>

lemma accounted_begin:
  assumes acc: "accounted E s" and begun: "E (calls s) (Begin (own_tx s)) = Inr rows"
  defines "s1 \<equiv> s\<lparr>fresh := Suc (fresh s), calls := calls s @ [Begin (own_tx s)]\<rparr>"
  shows "live E (calls s1) = insert (own_tx s) (set (owned_list s))"
    "own_tx s \<notin> set (owned_list s)" "tx_no (own_tx s) < fresh s1"
    "\<forall>t \<in> set (owned_list s). tx_no t < fresh s1 \<and> tx_db t = session_db s"
  using acc begun own_tx_fresh [OF acc]
  by (auto simp: accounted_def s1_def own_tx_def)

lemma contract_begin_failed:
  assumes "E (calls s) (Begin (own_tx s)) = Inl e"
  shows "contract E s (s\<lparr>fresh := Suc (fresh s), calls := calls s @ [Begin (own_tx s)]\<rparr>)"
  using assms
  by (intro contract_scoped) (simp add: scoped_def frame_defs own_tx_def)

lemma contract_insert_txn:
  assumes "E (calls s) (Begin (own_tx s)) = Inr rows"
  shows "contract E s (insert_txn (own_tx s)
    (s\<lparr>fresh := Suc (fresh s), calls := calls s @ [Begin (own_tx s)]\<rparr>))"
    (is "contract E s (insert_txn ?t ?s1)")
proof -
  have "same_session s (insert_txn ?t ?s1)"
    by (simp add: insert_txn_def set_txn_def drop_tx_def frame_defs split: option.split)
  moreover have "accounted E (insert_txn ?t ?s1) \<and> own_calls s (insert_txn ?t ?s1)"
    if acc: "accounted E s"
  proof (cases "sess_txn (sess s)")
    case None
    with acc accounted_begin [OF acc assms] show ?thesis
      by (auto simp: accounted_def owned_list_def insert_txn_def set_txn_def session_db_def own_tx_def
          intro!: own_callsI)
  next
    case (Some old)
    have "old \<in> set (owned_list s)" "old \<notin> st_txn ` set (streams s)"
      using acc Some by (auto simp: accounted_def owned_list_def)
    with Some acc accounted_begin [OF acc assms] show ?thesis
      by (auto simp: accounted_def owned_list_def insert_txn_def set_txn_def drop_tx_def session_db_def
          own_tx_def intro!: own_callsI)
  qed
  ultimately show ?thesis by (simp add: contract_def)
qed

text \<open>Ending the session's transaction.\<close>

lemma contract_end_txn:
  assumes "sess_txn (sess s) = Some t" "c = Commit t \<or> c = Rollback t \<or> c = Drop t"
    "calls s' = calls s @ [c]" "same_session s s'" "fresh s' = fresh s"
    "sess_txn (sess s') = None" "streams s' = streams s"
  shows "contract E s s'"
proof -
  have "accounted E s' \<and> own_calls s s'" if acc: "accounted E s"
  proof -
    have "set (owned_list s') = set (owned_list s) - {t}" "distinct (owned_list s')"
      "t \<in> set (owned_list s)"
      using assms acc by (auto simp: accounted_def owned_list_def)
    moreover have "live E (calls s') = live E (calls s) - {t}" "call_db c = tx_db t"
      using assms(2,3) by auto
    ultimately show ?thesis
      using acc assms(3-5) by (auto simp: accounted_def frame_defs intro!: own_callsI)
  qed
  with assms(4) show ?thesis by (simp add: contract_def)
qed

lemma transaction_begin_run:
  "snd (run_state (transaction E TxnBegin) s) =
     (case E (calls s) (Begin (own_tx s)) of
        Inl _ \<Rightarrow> s\<lparr>fresh := Suc (fresh s), calls := calls s @ [Begin (own_tx s)]\<rparr>
      | Inr _ \<Rightarrow> insert_txn (own_tx s)
          (s\<lparr>fresh := Suc (fresh s), calls := calls s @ [Begin (own_tx s)]\<rparr>))"
  by (simp add: run_begin_session split: sum.split)

lemma run_take_txn [simp]:
  "run_state take_txn s = (Inr (sess_txn (sess s)), set_txn None s)"
  by (simp add: take_txn_def)

lemma contract_transaction: "contract E s (snd (run_state (transaction E a) s))"
proof (cases a)
  case TxnBegin
  then show ?thesis
    unfolding TxnBegin transaction_begin_run
    by (auto simp: contract_begin_failed contract_insert_txn split: sum.split)
next
  case TxnCommit
  show ?thesis
  proof (cases "sess_txn (sess s)")
    case None
    then have "set_txn None s = s" by (simp add: set_txn_def)
    with None TxnCommit show ?thesis by simp
  next
    case (Some t)
    then show ?thesis
      by (intro contract_end_txn [OF Some, of "Commit t"])
        (simp_all add: TxnCommit set_txn_def frame_defs split: sum.split)
  qed
next
  case TxnRollback
  show ?thesis
  proof (cases "sess_txn (sess s)")
    case None
    then have "set_txn None s = s" by (simp add: set_txn_def)
    with None TxnRollback show ?thesis by simp
  next
    case (Some t)
    then show ?thesis
      by (intro contract_end_txn [OF Some, of "Rollback t"])
        (simp_all add: TxnRollback set_txn_def frame_defs split: sum.split)
  qed
qed

interpretation transaction: rpc_method E "transaction E" for E
  by unfold_locales (rule contract_transaction)

text \<open>A streaming query hands its transaction to the task.\<close>

lemma query_stream_run:
  "snd (run_state (query_stream_rpc uuid_text E p) s) =
     (case E (calls s) (Begin (own_tx s)) of
        Inl _ \<Rightarrow> s\<lparr>fresh := Suc (fresh s), calls := calls s @ [Begin (own_tx s)]\<rparr>
      | Inr _ \<Rightarrow> spawn_stream
          \<lparr>st_stream = qsp_id p, st_txn = own_tx s, st_stm = query_stm (qsp_params p)\<rparr>
          (s\<lparr>fresh := Suc (fresh s), calls := calls s @ [Begin (own_tx s)]\<rparr>))"
  by (simp add: query_stream_rpc_def run_begin_session split: sum.split)

lemma contract_spawn:
  assumes "E (calls s) (Begin (own_tx s)) = Inr rows" "st_txn task = own_tx s"
  shows "contract E s (spawn_stream task
    (s\<lparr>fresh := Suc (fresh s), calls := calls s @ [Begin (own_tx s)]\<rparr>))"
    (is "contract E s ?s1")
proof -
  have "same_session s ?s1" by (simp add: spawn_stream_def frame_defs)
  moreover have "accounted E ?s1 \<and> own_calls s ?s1" if acc: "accounted E s"
    using acc accounted_begin [OF acc assms(1)] assms(2)
    by (auto simp: accounted_def owned_list_def spawn_stream_def session_db_def own_tx_def
        intro!: own_callsI split: option.splits)
  ultimately show ?thesis by (simp add: contract_def)
qed

interpretation query_stream: rpc_method E "query_stream_rpc uuid_text E" for uuid_text E
proof unfold_locales
  show "contract E s (snd (run_state (query_stream_rpc uuid_text E p) s))" for s p
    unfolding query_stream_run
    by (auto simp: contract_begin_failed contract_spawn split: sum.split)
qed

text \<open>The dispatcher keeps the contract because every method does.\<close>

interpretation dispatch: rpc_method E "process_message json_text uuid_text E" for json_text uuid_text E
proof unfold_locales
  show "contract E s (snd (run_state (process_message json_text uuid_text E d) s))" for s d
    by (cases d) (simp_all add: query.kept login.kept authenticate.kept transaction.kept query_stream.kept
      del: transaction.simps)
qed

section \<open>The events of a connection\<close>

lemma notify_frame [simp]:
  "calls (notify i d s) = calls s" "fresh (notify i d s) = fresh s" "sess (notify i d s) = sess s"
  "streams (notify i d s) = streams s" "config (notify i d s) = config s"
  "rpc_id (notify i d s) = rpc_id s"
  by (simp_all add: notify_def)

lemma stream_rows_frame [simp]:
  "calls (stream_rows i rows s) = calls s" "fresh (stream_rows i rows s) = fresh s"
  "sess (stream_rows i rows s) = sess s" "streams (stream_rows i rows s) = streams s"
  "config (stream_rows i rows s) = config s" "rpc_id (stream_rows i rows s) = rpc_id s"
  by (induction i rows s rule: stream_rows.induct) simp_all

lemma drop_tx_frame [simp]:
  "fresh (drop_tx t s) = fresh s" "sess (drop_tx t s) = sess s" "streams (drop_tx t s) = streams s"
  "config (drop_tx t s) = config s" "rpc_id (drop_tx t s) = rpc_id s"
  "notified (drop_tx t s) = notified s" "calls (drop_tx t s) = calls s @ [Drop t]"
  by (simp_all add: drop_tx_def)

lemma run_stream_calls:
  "calls (snd (run_stream E task s)) = calls s @ [Stream (st_txn task) (st_stm task), Drop (st_txn task)]"
  by (auto simp: run_stream_def split: prod.split sum.split)

lemma run_stream_frame [simp]:
  "fresh (snd (run_stream E task s)) = fresh s" "sess (snd (run_stream E task s)) = sess s"
  "streams (snd (run_stream E task s)) = streams s" "config (snd (run_stream E task s)) = config s"
  "rpc_id (snd (run_stream E task s)) = rpc_id s"
  by (auto simp: run_stream_def split: prod.split sum.split)

lemma live_stream_drop: "live E (xs @ [Stream t stm, Drop t]) = live E xs - {t}"
  by simp

lemma contract_run_task: "contract E s (run_task E i s)"
proof (cases "i < length (streams s)")
  case True
  let ?task = "streams s ! i"
  let ?t = "st_txn ?task"
  let ?rest = "take i (streams s) @ drop (Suc i) (streams s)"
  let ?s = "s\<lparr>streams := ?rest\<rparr>"
  let ?s' = "run_task E i s"
  have s': "?s' = snd (run_stream E ?task ?s)" using True by (simp add: run_task_def)
  have split: "streams s = take i (streams s) @ ?task # drop (Suc i) (streams s)"
    using True by (rule id_take_nth_drop)
  have same: "same_session s ?s'" by (simp add: s' frame_defs)
  have calls': "calls ?s' = calls s @ [Stream ?t (st_stm ?task), Drop ?t]"
    by (simp add: s' run_stream_calls)
  have "accounted E ?s' \<and> own_calls s ?s'" if acc: "accounted E s"
  proof -
    obtain xs ys where parts: "map st_txn (streams s) = xs @ ?t # ys"
      "map st_txn (streams ?s') = xs @ ys"
    proof
      show "map st_txn (streams s) = map st_txn (take i (streams s)) @ ?t #
          map st_txn (drop (Suc i) (streams s))"
        using arg_cong [OF split, of "map st_txn"] by simp
      show "map st_txn (streams ?s') = map st_txn (take i (streams s)) @
          map st_txn (drop (Suc i) (streams s))"
        by (simp add: s')
    qed
    have rest: "sess ?s' = sess s" "fresh ?s' = fresh s"
      by (simp_all add: s')
    have own: "set (owned_list ?s') = set (owned_list s) - {?t}" "distinct (owned_list ?s')"
      "?t \<in> set (owned_list s)"
      using acc by (auto simp: accounted_def owned_list_def parts rest simp del: set_map
          split: option.splits)
    have "live E (calls ?s') = live E (calls s) - {?t}"
      unfolding calls' by (rule live_stream_drop)
    with own acc rest have "accounted E ?s'"
      by (auto simp: accounted_def session_db_def)
    moreover have "tx_db ?t = session_db s" using own(3) acc by (simp add: accounted_def)
    then have "own_calls s ?s'" using calls' by (intro own_callsI) auto
    ultimately show ?thesis by blast
  qed
  with same show ?thesis by (simp add: contract_def)
next
  case False
  then show ?thesis by (simp add: run_task_def)
qed

lemma contract_close_session: "contract E s (close_session s)"
proof (cases "sess_txn (sess s)")
  case None
  then show ?thesis by (simp add: close_session_def)
next
  case (Some t)
  then show ?thesis
    by (intro contract_end_txn [OF Some, of "Drop t"])
      (simp_all add: close_session_def set_txn_def frame_defs)
qed

lemma contract_event: "contract E s (rpc_event_step json_text uuid_text E ev s)"
  by (cases ev) (simp_all add: dispatch.kept contract_run_task contract_close_session)

lemma contract_run: "contract E s (rpc_run json_text uuid_text E evs s)"
  by (induction evs arbitrary: s)
    (auto simp: rpc_run_def intro: contract_trans contract_event)

lemma accounted_new:
  "sess_txn session = None \<Longrightarrow> accounted E (connection_new i session cfg)"
  by (simp add: accounted_def connection_new_def owned_list_def)

end
