(* ===== verification/Rpc_Safety.thy ===== *)
theory Rpc_Safety
  imports Rpc_Contract
begin

text \<open>
  What the methods of a connection do, on every path: a query is one transaction of its own whose
  last statement runs under the session's role; a streaming query is not; open transactions are never
  lost and never another tenant's; claims come from the database only.
\<close>

section \<open>Sequences of calls\<close>

text \<open>The specification of a transactional method: begin, a list of calls up to the first refusal,
  commit, and a drop when a call was refused.\<close>

fun script_run :: "db_env \<Rightarrow> db_call list \<Rightarrow> db_call list \<Rightarrow> (string + db_row list list) \<times> db_call list" where
  "script_run E xs [] = (Inr [], xs)"
| "script_run E xs (c # cs) =
     (case E xs c of
        Inl e \<Rightarrow> (Inl e, xs @ [c])
      | Inr rows \<Rightarrow>
          (case script_run E (xs @ [c]) cs of
             (Inl e, ys) \<Rightarrow> (Inl e, ys)
           | (Inr answers, ys) \<Rightarrow> (Inr (rows # answers), ys)))"

definition atomically ::
    "db_env \<Rightarrow> db_call list \<Rightarrow> tx \<Rightarrow> db_call list \<Rightarrow> (string + db_row list list) \<times> db_call list" where
  "atomically E xs t body =
     (case E xs (Begin t) of
        Inl e \<Rightarrow> (Inl e, xs @ [Begin t])
      | Inr _ \<Rightarrow>
          (case script_run E (xs @ [Begin t]) body of
             (Inl e, ys) \<Rightarrow> (Inl e, ys @ [Drop t])
           | (Inr answers, ys) \<Rightarrow>
               (case E ys (Commit t) of
                  Inl e \<Rightarrow> (Inl e, ys @ [Commit t])
                | Inr _ \<Rightarrow> (Inr answers, ys @ [Commit t]))))"

definition context_calls ::
    "(json \<Rightarrow> string) \<Rightarrow> target \<Rightarrow> session \<Rightarrow> app_config \<Rightarrow> string \<Rightarrow> db_call list" where
  "context_calls json_text c session cfg role =
     (case sess_claims session of
        None \<Rightarrow> [] | Some claims \<Rightarrow> [Execute c (claims_stm json_text claims)]) @
     [Execute c (set_config_stm (json_text (db_config_json (db_config cfg)))), Execute c (role_stm role)]"

lemma begin_session_frame [simp]:
  "sess (s\<lparr>fresh := n, calls := cs\<rparr>) = sess s" "config (s\<lparr>fresh := n, calls := cs\<rparr>) = config s"
  by simp_all

lemma run_set_db_config:
  "run_state (set_db_config json_text E c cfg) s =
     (map_sum failure_of_db_err (\<lambda>_. ()) (E (calls s) (Execute c (set_config_stm (json_text (db_config_json cfg))))),
      s\<lparr>calls := calls s @ [Execute c (set_config_stm (json_text (db_config_json cfg)))]\<rparr>)"
  by (auto simp: set_db_config_def split: sum.split)

lemma run_exec:
  "run_state (try_bind (db E c) (\<lambda>_. ok ())) s =
     (map_sum failure_of_db_err (\<lambda>_. ()) (E (calls s) c), s\<lparr>calls := calls s @ [c]\<rparr>)"
  by (auto split: sum.split)

lemma run_switch_auth_context:
  assumes "auth_role session = Inr role"
  shows "run_state (switch_auth_context json_text E c session cfg) s =
    (map_sum failure_of_db_err (\<lambda>_. ())
       (fst (script_run E (calls s) (context_calls json_text c session cfg role))),
     s\<lparr>calls := snd (script_run E (calls s) (context_calls json_text c session cfg role))\<rparr>)"
proof (cases "sess_claims session")
  case None
  with assms show ?thesis
    by (auto simp: switch_auth_context_def context_calls_def run_set_db_config run_exec
        split: sum.split prod.split)
next
  case (Some claims)
  with assms show ?thesis
    by (auto simp: switch_auth_context_def context_calls_def run_set_db_config run_exec
        split: sum.split prod.split)
qed

lemma script_run_append:
  "script_run E xs (cs @ ds) =
     (case script_run E xs cs of
        (Inl e, ys) \<Rightarrow> (Inl e, ys)
      | (Inr answers, ys) \<Rightarrow>
          (case script_run E ys ds of
             (Inl e, zs) \<Rightarrow> (Inl e, zs)
           | (Inr answers', zs) \<Rightarrow> (Inr (answers @ answers'), zs)))"
  by (induction cs arbitrary: xs) (auto split: sum.split prod.split)

section \<open>Queries\<close>

definition query_calls :: "(json \<Rightarrow> string) \<Rightarrow> rpc \<Rightarrow> string \<Rightarrow> query_params \<Rightarrow> db_call list" where
  "query_calls json_text s role p =
     context_calls json_text (OnTx (own_tx s)) (sess s) (config s) role @
     [Fetch (OnTx (own_tx s)) (query_stm p)]"

lemma world_calls_again [simp]: "s\<lparr>fresh := n, calls := xs, calls := ys\<rparr> = s\<lparr>fresh := n, calls := ys\<rparr>"
  by simp

lemma run_query:
  assumes "auth_role (sess s) = Inr role"
    and "atomically E (calls s) (own_tx s) (query_calls json_text s role p) = (outcome, cs)"
  shows "run_state (query_rpc json_text E p) s =
    (map_sum failure_of_db_err (\<lambda>answers. JArr (map parse_float_int (converted (last answers)))) outcome,
     s\<lparr>fresh := Suc (fresh s), calls := cs\<rparr>)"
proof -
  let ?t = "own_tx s"
  let ?xs = "calls s @ [Begin ?t]"
  let ?ctx = "context_calls json_text (OnTx ?t) (sess s) (config s) role"
  note switch = run_switch_auth_context [OF assms(1)]
  show ?thesis
  proof (cases "E (calls s) (Begin ?t)")
    case (Inl e)
    then show ?thesis
      using assms(2) by (auto simp: query_rpc_def run_begin_session atomically_def)
  next
    case (Inr rows)
    obtain r ys where ctx: "script_run E ?xs ?ctx = (r, ys)" by fastforce
    show ?thesis
    proof (cases r)
      case (Inl e)
      with Inr ctx assms(2) show ?thesis
        by (auto simp: query_rpc_def run_begin_session atomically_def switch query_calls_def
            script_run_append drop_tx_def)
    next
      case answered: (Inr answers)
      show ?thesis
        using Inr ctx answered assms(2)
        by (auto simp: query_rpc_def run_begin_session atomically_def switch query_calls_def
            script_run_append drop_tx_def split: sum.splits)
    qed
  qed
qed


text \<open>C4: a query of a session whose role is known is one transaction of its own on the session's
  database: the claims (if any), the configuration and the role are set, then the statement runs, then
  the transaction is committed; the first refusal ends it with a rollback and is the error returned;
  otherwise the rows that convert are returned, in order, through \<open>parse_float_int\<close>.\<close>

theorem query_refines_transaction:
  assumes "auth_role (sess s) = Inr role"
    and "atomically E (calls s) (own_tx s) (query_calls json_text s role p) = (outcome, cs)"
  shows "run_state (query_rpc json_text E p) s =
    (map_sum failure_of_db_err (\<lambda>answers. JArr (map parse_float_int (converted (last answers)))) outcome,
     s\<lparr>fresh := Suc (fresh s), calls := cs\<rparr>)"
  using assms by (rule run_query)

text \<open>A connection of an anonymous client of \<open>acme\<close> and a database that answers every fetch with
  two rows, one of which does not convert.\<close>

definition sample_conn :: rpc where
  "sample_conn = connection_new 7 (session_new ''acme'' 1) sample_config"

definition two_rows :: db_env where
  "two_rows cs c = (case c of
     Fetch t stm \<Rightarrow> Inr [Row (JObj [(''n'', JNull)]), BadRow ''x''] | _ \<Rightarrow> Inr [])"

lemma sample_conn_fields [simp]:
  "sess sample_conn = session_new ''acme'' 1" "calls sample_conn = []" "fresh sample_conn = 0"
  "config sample_conn = sample_config" "streams sample_conn = []" "own_tx sample_conn = Tx 1 0"
  "session_db sample_conn = 1"
  by (simp_all add: sample_conn_def connection_new_def own_tx_def session_db_def session_new_def)

lemma session_new_fields [simp]:
  "sess_claims (session_new org h) = None" "sess_txn (session_new org h) = None"
  "sess_org (session_new org h) = org" "sess_db (session_new org h) = h"
  by (simp_all add: session_new_def)

lemma auth_role_anonymous: "sess_claims s = None \<Longrightarrow> auth_role s = Inr (sess_org s @ ''_anon'')"
  by (simp add: auth_role_def)

theorem query_refines_transaction_witness:
  "run_state (query_rpc (\<lambda>_. ''{}'') two_rows (query_params_new ''select 1'')) sample_conn =
    (Inr (JArr [JObj [(''n'', JNull)]]),
     sample_conn\<lparr>fresh := 1, calls := [Begin (Tx 1 0), Execute (OnTx (Tx 1 0)) (set_config_stm ''{}''),
        Execute (OnTx (Tx 1 0)) (from_string ''set local role to acme_anon''),
        Fetch (OnTx (Tx 1 0)) (from_string ''select 1''), Commit (Tx 1 0)]\<rparr>)"
proof -
  let ?p = "query_params_new ''select 1''"
  have role: "auth_role (sess sample_conn) = Inr ''acme_anon''"
    by (simp add: auth_role_anonymous)
  have run: "atomically two_rows (calls sample_conn) (own_tx sample_conn)
      (query_calls (\<lambda>_. ''{}'') sample_conn ''acme_anon'' ?p) =
    (Inr [[], [], [Row (JObj [(''n'', JNull)]), BadRow ''x'']],
     [Begin (Tx 1 0), Execute (OnTx (Tx 1 0)) (set_config_stm ''{}''),
        Execute (OnTx (Tx 1 0)) (from_string ''set local role to acme_anon''),
        Fetch (OnTx (Tx 1 0)) (from_string ''select 1''), Commit (Tx 1 0)])"
    by (simp add: atomically_def query_calls_def context_calls_def two_rows_def role_stm_def
        query_stm_def query_params_new_def from_string_def from_sql_and_values_def)
  show ?thesis
    unfolding query_refines_transaction [OF role run]
    by (simp add: parse_float_int_def int_if_whole_def as_f64_def)
qed

lemma query_without_role:
  assumes "auth_role (sess s) = Inl f"
  shows "calls (snd (run_state (query_rpc json_text E p) s)) =
    calls s @ Begin (own_tx s) # (if isl (E (calls s) (Begin (own_tx s))) then [] else [Drop (own_tx s)])"
  using assms by (cases "E (calls s) (Begin (own_tx s))")
    (simp_all add: query_rpc_def run_begin_session switch_auth_context_def)

lemma script_run_calls:
  "script_run E xs cs = (r, ys) \<Longrightarrow> \<exists>n. ys = xs @ take n cs \<and> (\<forall>i. Suc i < n \<longrightarrow> i < length cs \<longrightarrow>
     \<not> isl (E (xs @ take i cs) (cs ! i)))"
proof (induction cs arbitrary: xs r ys)
  case (Cons c cs)
  show ?case
  proof (cases "E xs c")
    case (Inl e)
    with Cons.prems show ?thesis by (intro exI [of _ 1]) auto
  next
    case (Inr rows)
    then obtain r1 where "script_run E (xs @ [c]) cs = (r1, ys)"
      using Cons.prems by (auto split: prod.splits sum.splits)
    from Cons.IH [OF this] obtain n where n: "ys = (xs @ [c]) @ take n cs"
      "\<forall>i. Suc i < n \<longrightarrow> i < length cs \<longrightarrow> \<not> isl (E ((xs @ [c]) @ take i cs) (cs ! i))"
      by blast
    then show ?thesis
      using Inr
      by (intro exI [of _ "Suc n"]) (auto simp: nth_Cons' split: nat.split dest: less_imp_Suc_add)
  qed
qed simp


lemma script_run_accepted:
  "script_run E xs cs = (Inr answers, ys) \<Longrightarrow> ys = xs @ cs"
  by (induction cs arbitrary: xs answers) (fastforce split: sum.splits prod.splits)+

lemma script_run_snoc_accepted:
  assumes "script_run E xs (cs @ [c]) = (Inr answers, ys)"
  shows "\<exists>rows. E (xs @ cs) c = Inr rows"
proof -
  obtain r zs where first: "script_run E xs cs = (r, zs)" by fastforce
  with assms obtain a where "r = Inr a" by (cases r) (auto simp: script_run_append)
  with first have "zs = xs @ cs" by (auto dest: script_run_accepted)
  with assms first \<open>r = Inr a\<close> show ?thesis
    by (cases "E (xs @ cs) c") (auto simp: script_run_append)
qed

text \<open>The role name of a session: \<open>anon\<close>, or the one in the claims.\<close>

definition role_of :: "session \<Rightarrow> string \<Rightarrow> bool" where
  "role_of s name \<longleftrightarrow>
     (case sess_claims s of
        None \<Rightarrow> name = ''anon'' | Some claims \<Rightarrow> json_get claims ''role'' = Some (JStr name))"

lemma auth_role_name:
  assumes "auth_role s = Inr role"
  obtains name where "role = sess_org s @ ''_'' @ name" "role_of s name"
proof (cases "sess_claims s")
  case None
  with assms show thesis by (intro that [of "''anon''"]) (simp_all add: auth_role_def role_of_def)
next
  case (Some claims)
  with assms obtain j where "json_get claims ''role'' = Some j"
    by (cases "json_get claims ''role''") (simp_all add: auth_role_def)
  with Some assms obtain name where "json_get claims ''role'' = Some (JStr name)"
    "role = sess_org s @ ''_'' @ name"
    by (cases "as_str j") (auto simp: auth_role_def)
  with Some show thesis by (intro that) (simp_all add: role_of_def)
qed

text \<open>The calls that may precede the switch of role: they configure, and fetch nothing.\<close>

fun configures :: "tx \<Rightarrow> db_call \<Rightarrow> bool" where
  "configures t (Execute c stm) \<longleftrightarrow> c = OnTx t"
| "configures t _ \<longleftrightarrow> False"

definition config_calls :: "(json \<Rightarrow> string) \<Rightarrow> rpc \<Rightarrow> db_call list" where
  "config_calls json_text s =
     butlast (context_calls json_text (OnTx (own_tx s)) (sess s) (config s) ''_'')"

lemma context_calls_split:
  "context_calls json_text (OnTx (own_tx s)) (sess s) (config s) role =
     config_calls json_text s @ [Execute (OnTx (own_tx s)) (role_stm role)]"
  by (simp add: config_calls_def context_calls_def split: option.split)

lemma config_calls_configure: "\<forall>k \<in> set (config_calls json_text s). configures (own_tx s) k"
  by (auto simp: config_calls_def context_calls_def split: option.splits)

lemma query_fetch_position:
  assumes role: "auth_role (sess s) = Inr role"
    and run: "run_state (query_rpc json_text E p) s = (r, s')"
    and new: "calls s' = calls s @ cs" "Fetch c stm \<in> set cs"
  shows "\<exists>post rows. c = OnTx (own_tx s) \<and> stm = query_stm p \<and>
    cs = Begin (own_tx s) # config_calls json_text s @ [Execute c (role_stm role), Fetch c stm] @ post \<and>
    E (calls s @ Begin (own_tx s) # config_calls json_text s) (Execute c (role_stm role)) = Inr rows \<and>
    (post = [Commit (own_tx s)] \<or> post = [Drop (own_tx s)])"
proof -
  let ?t = "own_tx s"
  define ctx where "ctx = config_calls json_text s @ [Execute (OnTx ?t) (role_stm role)]"
  have plan: "query_calls json_text s role p = ctx @ [Fetch (OnTx ?t) (query_stm p)]"
    by (simp add: query_calls_def context_calls_split ctx_def)
  obtain outcome cs0 where atomic:
    "atomically E (calls s) ?t (query_calls json_text s role p) = (outcome, cs0)" by fastforce
  with run_query [OF role atomic] run have cs0: "cs0 = calls s @ cs"
    using new(1) by auto
  obtain rows where begun: "E (calls s) (Begin ?t) = Inr rows"
    using atomic cs0 new(2) by (cases "E (calls s) (Begin ?t)") (auto simp: atomically_def)
  obtain x ys where ctx: "script_run E (calls s @ [Begin ?t]) ctx = (x, ys)" by fastforce
  show ?thesis
  proof (cases x)
    case (Inl e)
    from script_run_calls [OF ctx] obtain n where "ys = (calls s @ [Begin ?t]) @ take n ctx" by blast
    with atomic begun ctx Inl cs0 have "cs = Begin ?t # take n ctx @ [Drop ?t]"
      by (auto simp: atomically_def plan script_run_append)
    with new(2) have "Fetch c stm \<in> set (take n ctx)" by auto
    then have "Fetch c stm \<in> set ctx" by (rule in_set_takeD)
    then show ?thesis using config_calls_configure [of json_text s] by (auto simp: ctx_def)
  next
    case (Inr answers)
    have ys: "ys = (calls s @ [Begin ?t]) @ ctx"
      using ctx unfolding Inr by (rule script_run_accepted)
    obtain rows' where accepted: "E ((calls s @ [Begin ?t]) @ config_calls json_text s)
        (Execute (OnTx ?t) (role_stm role)) = Inr rows'"
      using script_run_snoc_accepted [OF ctx [unfolded Inr ctx_def]] by blast
    have "\<exists>post. (post = [Commit ?t] \<or> post = [Drop ?t]) \<and>
        cs = Begin ?t # ctx @ [Fetch (OnTx ?t) (query_stm p)] @ post"
      using atomic begun ctx Inr cs0 ys
      by (auto simp: atomically_def plan script_run_append split: sum.splits)
    then obtain post where post: "post = [Commit ?t] \<or> post = [Drop ?t]"
      "cs = Begin ?t # ctx @ [Fetch (OnTx ?t) (query_stm p)] @ post" by blast
    moreover have "c = OnTx ?t \<and> stm = query_stm p"
      using new(2) post config_calls_configure [of json_text s] by (auto simp: ctx_def)
    ultimately show ?thesis using accepted by (auto simp: ctx_def)
  qed
qed

text \<open>C8: whatever a query's outcome, its statement reaches the database only directly after
  \<open>set local role\<close> was accepted in the same transaction, for a role of the session's organization:
  the role in the claims, or the anonymous one.\<close>

theorem query_runs_under_role:
  assumes "run_state (query_rpc json_text E p) s = (r, s')"
    and "calls s' = calls s @ cs" and "Fetch c stm \<in> set cs"
  shows "\<exists>name pre post rows. c = OnTx (own_tx s) \<and> role_of (sess s) name \<and>
    cs = Begin (own_tx s) # pre @
      [Execute c (role_stm (sess_org (sess s) @ ''_'' @ name)), Fetch c stm] @ post \<and>
    E (calls s @ Begin (own_tx s) # pre) (Execute c (role_stm (sess_org (sess s) @ ''_'' @ name))) = Inr rows \<and>
    (\<forall>k \<in> set pre. configures (own_tx s) k) \<and> (post = [Commit (own_tx s)] \<or> post = [Drop (own_tx s)])"
proof (cases "auth_role (sess s)")
  case (Inl f)
  then have "cs = Begin (own_tx s) # (if isl (E (calls s) (Begin (own_tx s))) then [] else [Drop (own_tx s)])"
    using assms(1,2) query_without_role [OF Inl, of json_text E p] by simp
  with assms(3) show ?thesis by (simp split: if_splits)
next
  case (Inr role)
  obtain name where name: "role = sess_org (sess s) @ ''_'' @ name" "role_of (sess s) name"
    using Inr by (rule auth_role_name)
  with query_fetch_position [OF Inr assms] show ?thesis
    using config_calls_configure [of json_text s] by blast
qed

theorem query_runs_under_role_witness:
  "\<exists>pre post rows. [Begin (Tx 1 0), Execute (OnTx (Tx 1 0)) (set_config_stm ''{}''),
        Execute (OnTx (Tx 1 0)) (role_stm ''acme_anon''),
        Fetch (OnTx (Tx 1 0)) (from_string ''select 1''), Commit (Tx 1 0)]
      = Begin (Tx 1 0) # pre @ [Execute (OnTx (Tx 1 0)) (role_stm ''acme_anon''),
          Fetch (OnTx (Tx 1 0)) (from_string ''select 1'')] @ post \<and>
    two_rows (Begin (Tx 1 0) # pre) (Execute (OnTx (Tx 1 0)) (role_stm ''acme_anon'')) = Inr rows"
proof -
  let ?p = "query_params_new ''select 1''"
  let ?cs = "[Begin (Tx 1 0), Execute (OnTx (Tx 1 0)) (set_config_stm ''{}''),
        Execute (OnTx (Tx 1 0)) (role_stm ''acme_anon''),
        Fetch (OnTx (Tx 1 0)) (from_string ''select 1''), Commit (Tx 1 0)]"
  have role: "auth_role (sess sample_conn) = Inr ''acme_anon''"
    by (simp add: auth_role_anonymous)
  obtain outcome where "atomically two_rows (calls sample_conn) (own_tx sample_conn)
      (query_calls (\<lambda>_. ''{}'') sample_conn ''acme_anon'' ?p) = (outcome, ?cs)"
    by (simp add: atomically_def query_calls_def context_calls_def two_rows_def
        query_stm_def query_params_new_def from_string_def from_sql_and_values_def)
  from run_query [OF role this] obtain r s' where
    run: "run_state (query_rpc (\<lambda>_. ''{}'') two_rows ?p) sample_conn = (r, s')" "calls s' = ?cs"
    by simp
  from query_runs_under_role [OF run(1), of ?cs "OnTx (Tx 1 0)" "from_string ''select 1''"] run(2)
  show ?thesis by (auto simp: role_of_def)
qed


section \<open>Sequences of requests\<close>

text \<open>After any sequence of requests, stream tasks and the closing of a connection, in any order
  and with any answers of the database, the open transactions are exactly the session's and those of
  the streams that have not run yet: none is leaked and none is lost.\<close>

theorem open_transactions_accounted:
  assumes "sess_txn session = None"
    and "s = rpc_run json_text uuid_text E evs (connection_new i session cfg)"
  shows "live E (calls s) = set_option (sess_txn (sess s)) \<union> st_txn ` set (streams s)"
proof -
  have "accounted E s"
    using contract_run [of E "connection_new i session cfg" json_text uuid_text evs]
      accounted_new [OF assms(1)] assms(2) by (simp add: contract_def)
  then show ?thesis by (auto simp: accounted_def owned_list_def split: option.splits)
qed

lemma connection_calls_own_db:
  assumes "sess_txn session = None"
    and "s = rpc_run json_text uuid_text E evs (connection_new i session cfg)" and "c \<in> set (calls s)"
  shows "call_db c = sess_db session"
proof -
  have "own_calls (connection_new i session cfg) s"
    using contract_run [of E "connection_new i session cfg" json_text uuid_text evs]
      accounted_new [OF assms(1)] assms(2) by (simp add: contract_def)
  then show ?thesis
    using assms(3) by (auto simp: own_calls_def connection_new_def session_db_def)
qed

text \<open>Tenant isolation: every database call ever made for a connection goes to the database of the
  session it was opened with, whose organization never changes.\<close>

theorem calls_stay_on_session_db:
  assumes "sess_txn session = None"
    and "s = rpc_run json_text uuid_text E evs (connection_new i session cfg)" and "c \<in> set (calls s)"
  shows "call_db c = sess_db session \<and> sess_db (sess s) = sess_db session \<and>
    sess_org (sess s) = sess_org session"
proof -
  let ?s0 = "connection_new i session cfg"
  have "same_session ?s0 s"
    using contract_run [of E ?s0 json_text uuid_text evs] assms(2) by (simp add: contract_def)
  with connection_calls_own_db [OF assms] show ?thesis by (simp add: frame_defs connection_new_def)
qed

text \<open>Closing a connection whose streams have run leaves no transaction open.\<close>

theorem closed_connection_leaves_nothing:
  assumes "sess_txn session = None" and "streams s = []"
    and "s = rpc_run json_text uuid_text E (evs @ [Closed]) (connection_new i session cfg)"
  shows "live E (calls s) = {}"
proof -
  have "accounted E s"
    using contract_run [of E "connection_new i session cfg" json_text uuid_text "evs @ [Closed]"]
      accounted_new [OF assms(1)] assms(3) by (simp add: contract_def)
  moreover have "sess_txn (sess s) = None"
    using assms(3) by (simp add: rpc_run_def close_session_def set_txn_def split: option.split)
  ultimately show ?thesis using assms(2) by (simp add: accounted_def owned_list_def)
qed

text \<open>A client that begins a transaction, starts a stream and leaves.\<close>

definition sample_stream :: query_stream_params where
  "sample_stream = \<lparr>qsp_id = 9, qsp_params = query_params_new ''select 2''\<rparr>"

lemmas rpc_eval = rpc_run_def run_begin_session insert_txn_def set_txn_def drop_tx_def spawn_stream_def
  query_stream_rpc_def run_task_def run_stream_def close_session_def notify_def sample_stream_def
  connection_new_def session_new_def own_tx_def session_db_def

theorem open_transactions_accounted_witness:
  "live two_rows (calls (rpc_run (\<lambda>_. ''{}'') (\<lambda>_. ''9'') two_rows
     [Incoming (Transaction TxnBegin), Incoming (QueryStream sample_stream),
      Incoming (Transaction TxnBegin)] sample_conn)) = {Tx 1 1, Tx 1 2}"
proof -
  let ?evs = "[Incoming (Transaction TxnBegin), Incoming (QueryStream sample_stream),
      Incoming (Transaction TxnBegin)]"
  let ?s = "rpc_run (\<lambda>_. ''{}'') (\<lambda>_. ''9'') two_rows ?evs sample_conn"
  have "sess_txn (sess ?s) = Some (Tx 1 2)" "map st_txn (streams ?s) = [Tx 1 1]"
    by (simp_all add: rpc_eval two_rows_def sample_conn_def)
  then have "sess_txn (sess ?s) = Some (Tx 1 2)" "st_txn ` set (streams ?s) = {Tx 1 1}"
    by (simp_all flip: set_map)
  with open_transactions_accounted [of "session_new ''acme'' 1", OF _ refl, of two_rows
      "\<lambda>_. ''{}''" "\<lambda>_. ''9''" ?evs 7 sample_config]
  show ?thesis by (auto simp: sample_conn_def)
qed

theorem calls_stay_on_session_db_witness:
  "call_db (Drop (Tx 1 0)) = 1 \<and> Drop (Tx 1 0) \<in> set (calls (rpc_run (\<lambda>_. ''{}'') (\<lambda>_. ''9'') two_rows
     [Incoming (Transaction TxnBegin), Incoming (Transaction TxnBegin)] sample_conn))"
proof -
  let ?evs = "[Incoming (Transaction TxnBegin), Incoming (Transaction TxnBegin)]"
  let ?s = "rpc_run (\<lambda>_. ''{}'') (\<lambda>_. ''9'') two_rows ?evs sample_conn"
  have "Drop (Tx 1 0) \<in> set (calls ?s)"
    by (simp add: rpc_eval two_rows_def sample_conn_def)
  with calls_stay_on_session_db [of "session_new ''acme'' 1", OF _ refl, of "Drop (Tx 1 0)"
      "\<lambda>_. ''{}''" "\<lambda>_. ''9''" two_rows ?evs 7 sample_config]
  show ?thesis by (simp add: sample_conn_def)
qed

theorem closed_connection_leaves_nothing_witness:
  "live two_rows (calls (rpc_run (\<lambda>_. ''{}'') (\<lambda>_. ''9'') two_rows
     [Incoming (Transaction TxnBegin), Incoming (QueryStream sample_stream), StreamRuns 0, Closed]
     sample_conn)) = {}"
proof -
  let ?evs = "[Incoming (Transaction TxnBegin), Incoming (QueryStream sample_stream), StreamRuns 0]"
  have "streams (rpc_run (\<lambda>_. ''{}'') (\<lambda>_. ''9'') two_rows (?evs @ [Closed]) sample_conn) = []"
    by (simp add: rpc_eval two_rows_def sample_conn_def)
  with closed_connection_leaves_nothing [of "session_new ''acme'' 1", OF _ _ refl, of
      "\<lambda>_. ''{}''" "\<lambda>_. ''9''" two_rows ?evs 7 sample_config]
  show ?thesis by (simp add: sample_conn_def)
qed


section \<open>The session's transaction\<close>

definition uses_tx :: "tx \<Rightarrow> db_call \<Rightarrow> bool" where
  "uses_tx t c \<longleftrightarrow> (case c of
     Execute d stm \<Rightarrow> d = OnTx t | Fetch d stm \<Rightarrow> d = OnTx t | Stream u stm \<Rightarrow> u = t
   | Begin u \<Rightarrow> u = t | Commit u \<Rightarrow> u = t | Rollback u \<Rightarrow> u = t | Drop u \<Rightarrow> u = t
   | Connect url h \<Rightarrow> False | Close h \<Rightarrow> False)"

lemma scoped_uses_own:
  assumes "scoped E s s'" "calls s' = calls s @ cs" "c \<in> set cs"
  shows "uses_tx (own_tx s) c"
  using assms(1)
proof (cases rule: scoped_cases)
  case (failed e)
  with assms(2,3) show ?thesis by (auto simp: uses_tx_def)
next
  case (ran ds k)
  then have "cs = Begin (own_tx s) # ds @ [k]" using assms(2) by simp
  moreover have "on_tx (own_tx s) k \<Longrightarrow> uses_tx (own_tx s) k" for k
    by (cases k) (auto simp: uses_tx_def)
  then have "uses_tx (own_tx s) c" if "c \<in> set ds"
    using that ran(2) by (simp add: list_all_iff)
  ultimately show ?thesis using assms(3) ran(3) by (auto simp: uses_tx_def)
qed

lemma uses_tx_unique: "uses_tx t c \<Longrightarrow> uses_tx u c \<Longrightarrow> t = u"
  by (cases c) (auto simp: uses_tx_def)

text \<open>A query does not take part in the transaction the client has begun: none of its calls is on
  that transaction, so a later rollback undoes nothing of what the query committed.\<close>

theorem query_outside_session_transaction:
  assumes "accounted E s" and "sess_txn (sess s) = Some t"
    and "run_state (query_rpc json_text E p) s = (r, s')" and "calls s' = calls s @ cs"
  shows "sess_txn (sess s') = Some t \<and> (\<forall>c \<in> set cs. \<not> uses_tx t c)"
proof -
  have scoped: "scoped E s s'"
    using scoped_query [of E s json_text p] assms(3) by simp
  have "own_tx s \<noteq> t"
    using own_tx_fresh [OF assms(1)] assms(2) by (auto simp: owned_list_def)
  with scoped_uses_own [OF scoped assms(4)] have "\<forall>c \<in> set cs. \<not> uses_tx t c"
    using uses_tx_unique by blast
  with scoped assms(2) show ?thesis by (simp add: scoped_def keeps_rest_def)
qed

definition in_transaction :: rpc where
  "in_transaction = sample_conn\<lparr>sess := (session_new ''acme'' 1)\<lparr>sess_txn := Some (Tx 1 0)\<rparr>,
     calls := [Begin (Tx 1 0)], fresh := 1\<rparr>"

lemma accounted_in_transaction: "accounted two_rows in_transaction"
  using live_simps(2) [of two_rows "[]" "Tx 1 0"]
  by (simp add: accounted_def owned_list_def in_transaction_def session_db_def two_rows_def)

theorem query_outside_session_transaction_witness:
  "\<exists>s' cs. run_state (query_rpc (\<lambda>_. ''{}'') two_rows (query_params_new ''insert'')) in_transaction
      = (Inr (JArr [JObj [(''n'', JNull)]]), s') \<and>
    calls s' = calls in_transaction @ cs \<and> Commit (Tx 1 1) \<in> set cs \<and>
    (\<forall>c \<in> set cs. \<not> uses_tx (Tx 1 0) c)"
proof -
  let ?s = in_transaction
  let ?p = "query_params_new ''insert''"
  have role: "auth_role (sess ?s) = Inr ''acme_anon''"
    by (simp add: auth_role_anonymous in_transaction_def)
  obtain cs where "atomically two_rows (calls ?s) (own_tx ?s)
      (query_calls (\<lambda>_. ''{}'') ?s ''acme_anon'' ?p)
      = (Inr [[], [], [Row (JObj [(''n'', JNull)]), BadRow ''x'']], calls ?s @ cs)" "Commit (Tx 1 1) \<in> set cs"
    by (simp add: atomically_def query_calls_def context_calls_def two_rows_def in_transaction_def
        own_tx_def session_db_def)
  note atomic = this
  obtain s' where run: "run_state (query_rpc (\<lambda>_. ''{}'') two_rows ?p) ?s =
      (Inr (JArr [JObj [(''n'', JNull)]]), s')" and s': "calls s' = calls ?s @ cs"
    using run_query [OF role atomic(1)]
    by (simp add: parse_float_int_def int_if_whole_def as_f64_def)
  have "sess_txn (sess ?s) = Some (Tx 1 0)" by (simp add: in_transaction_def)
  from query_outside_session_transaction [OF accounted_in_transaction this run s'] run s' atomic(2)
  show ?thesis by blast
qed

text \<open>Beginning a transaction while one is open rolls the open one back without a word: its handle
  is dropped when the new one replaces it, and the reply is the same \<open>null\<close> as always.\<close>

theorem second_begin_drops_first:
  assumes "sess_txn (sess s) = Some t" and "E (calls s) (Begin (own_tx s)) = Inr rows"
  shows "\<exists>s'. run_state (transaction E TxnBegin) s = (Inr JNull, s') \<and>
    calls s' = calls s @ [Begin (own_tx s), Drop t] \<and> sess_txn (sess s') = Some (own_tx s)"
  using assms by (simp add: run_begin_session insert_txn_def set_txn_def)

theorem second_begin_drops_first_witness:
  "\<exists>s'. run_state (transaction two_rows TxnBegin) in_transaction = (Inr JNull, s') \<and>
    calls s' = [Begin (Tx 1 0), Begin (Tx 1 1), Drop (Tx 1 0)] \<and> sess_txn (sess s') = Some (Tx 1 1)"
  using second_begin_drops_first [of in_transaction "Tx 1 0" two_rows "[]"]
  by (simp add: in_transaction_def two_rows_def own_tx_def session_db_def del: transaction.simps)

section \<open>Streaming queries\<close>

text \<open>The rows a stream delivers: those that convert, up to the first that does not arrive.\<close>

fun arrived :: "db_row list \<Rightarrow> json list" where
  "arrived [] = []"
| "arrived (Row v # rs) = v # arrived rs"
| "arrived (BadRow msg # rs) = arrived rs"
| "arrived (LostRow msg # rs) = []"

definition notice :: "rpc \<Rightarrow> uuid \<Rightarrow> json option \<Rightarrow> uuid \<times> query_stream_notification" where
  "notice s i d = (rpc_id s, \<lparr>qsn_stream_id = i, qsn_data = d\<rparr>)"

lemma notified_notify: "notified (notify i d s) = notified s @ [notice s i d]"
  by (simp add: notify_def notice_def)

lemma notice_notify [simp]: "notice (notify i d s) = notice s" "notice (stream_rows i rows s) = notice s"
  by (simp_all add: notice_def fun_eq_iff)

lemma notified_stream_rows:
  "notified (stream_rows i rows s) = notified s @ map (\<lambda>v. notice s i (Some v)) (arrived rows)"
  by (induction i rows s rule: stream_rows.induct) (simp_all add: notified_notify)

text \<open>A stream whose statement is accepted sends its client one notification per row, in order and
  unchanged, and then one without data that marks the end; its transaction is never committed.\<close>

theorem run_stream_notifies:
  assumes "E (calls s) (Stream (st_txn task) (st_stm task)) = Inr rows"
  shows "fst (run_stream E task s) = Returned () \<and>
    notified (snd (run_stream E task s)) =
      notified s @ map (\<lambda>v. notice s (st_stream task) (Some v)) (arrived rows) @ [notice s (st_stream task) None] \<and>
    calls (snd (run_stream E task s)) =
      calls s @ [Stream (st_txn task) (st_stm task), Drop (st_txn task)]"
  using assms by (simp add: run_stream_def notified_notify notified_stream_rows notice_def)

definition sample_task :: stream_task where
  "sample_task = \<lparr>st_stream = 9, st_txn = Tx 1 0, st_stm = from_string ''select 2''\<rparr>"

definition ends_early :: db_env where
  "ends_early cs c = Inr [Row (JStr ''a''), LostRow ''connection reset'', Row (JStr ''b'')]"

theorem run_stream_notifies_witness:
  "map snd (notified (snd (run_stream ends_early sample_task sample_conn))) =
     [\<lparr>qsn_stream_id = 9, qsn_data = Some (JStr ''a'')\<rparr>, \<lparr>qsn_stream_id = 9, qsn_data = None\<rparr>]"
  using run_stream_notifies [of ends_early sample_conn sample_task
      "[Row (JStr ''a''), LostRow ''connection reset'', Row (JStr ''b'')]"]
  by (simp add: ends_early_def sample_task_def notice_def sample_conn_def connection_new_def)

text \<open>C38: a result cut off by an error looks complete: a stream in which a row fails to arrive gives the
  client the same notifications, end mark included, as one that ends there.\<close>

theorem lost_row_looks_complete:
  assumes "E (calls s) (Stream (st_txn task) (st_stm task)) = Inr (rows @ LostRow msg # unseen)"
    and "E' (calls s) (Stream (st_txn task) (st_stm task)) = Inr rows"
  shows "run_stream E task s = run_stream E' task s"
proof -
  have "stream_rows i (rows @ LostRow msg # unseen) s' = stream_rows i rows s'" for i s'
    by (induction i rows s' rule: stream_rows.induct) simp_all
  with assms show ?thesis by (simp add: run_stream_def)
qed

theorem lost_row_looks_complete_witness:
  "run_stream ends_early sample_task sample_conn =
     run_stream (\<lambda>_ _. Inr [Row (JStr ''a'')]) sample_task sample_conn"
  by (rule lost_row_looks_complete [of _ _ _ "[Row (JStr ''a'')]" "''connection reset''" "[Row (JStr ''b'')]"])
    (simp_all add: ends_early_def)

text \<open>A stream whose statement is refused is silent: the request was already answered with success,
  the task panics, and no notification is ever sent, not even the end mark.\<close>

theorem refused_stream_is_silent:
  assumes "run_state (query_stream_rpc uuid_text E p) s = (Inr v, s1)"
    and "E (calls s1) (Stream (own_tx s) (query_stm (qsp_params p))) = Inl err"
  shows "v = JStr (uuid_text (qsp_id p)) \<and>
    notified (run_task E (length (streams s)) s1) = notified s \<and>
    streams (run_task E (length (streams s)) s1) = streams s"
proof -
  let ?task = "\<lparr>st_stream = qsp_id p, st_txn = own_tx s, st_stm = query_stm (qsp_params p)\<rparr>"
  have s1: "s1 = spawn_stream ?task (s\<lparr>fresh := Suc (fresh s), calls := calls s @ [Begin (own_tx s)]\<rparr>)"
    "v = JStr (uuid_text (qsp_id p))"
    using assms(1) by (auto simp: query_stream_rpc_def run_begin_session split: sum.splits)
  then show ?thesis
    using assms(2) by (simp add: run_task_def run_stream_def spawn_stream_def drop_tx_def)
qed

definition refuses_streams :: db_env where
  "refuses_streams cs c = (case c of Stream t stm \<Rightarrow> Inl ''permission denied'' | _ \<Rightarrow> Inr [])"

theorem refused_stream_is_silent_witness:
  "\<exists>s1. run_state (query_stream_rpc (\<lambda>_. ''9'') refuses_streams sample_stream) sample_conn =
      (Inr (JStr ''9''), s1) \<and> notified (run_task refuses_streams 0 s1) = [] \<and>
    streams (run_task refuses_streams 0 s1) = []"
proof -
  obtain s1 where s1: "run_state (query_stream_rpc (\<lambda>_. ''9'') refuses_streams sample_stream) sample_conn =
      (Inr (JStr ''9''), s1)"
    by (simp add: query_stream_rpc_def run_begin_session refuses_streams_def)
  from refused_stream_is_silent [OF s1] s1 show ?thesis
    by (simp add: refuses_streams_def sample_conn_def connection_new_def)
qed

text \<open>The statement of a streaming query runs without the session's context: on its transaction there
  is nothing but the begin, the statement and the drop, so no role, claims or configuration is set.\<close>

theorem stream_skips_auth_context:
  assumes "run_state (query_stream_rpc uuid_text E p) s = (Inr v, s1)"
  shows "calls (run_task E (length (streams s)) s1) =
    calls s @ [Begin (own_tx s), Stream (own_tx s) (query_stm (qsp_params p)), Drop (own_tx s)]"
proof -
  let ?task = "\<lparr>st_stream = qsp_id p, st_txn = own_tx s, st_stm = query_stm (qsp_params p)\<rparr>"
  have "s1 = spawn_stream ?task (s\<lparr>fresh := Suc (fresh s), calls := calls s @ [Begin (own_tx s)]\<rparr>)"
    using assms by (auto simp: query_stream_rpc_def run_begin_session split: sum.splits)
  then show ?thesis by (simp add: run_task_def run_stream_calls spawn_stream_def)
qed

theorem stream_skips_auth_context_witness:
  "\<exists>s1. run_state (query_stream_rpc (\<lambda>_. ''9'') two_rows sample_stream) sample_conn = (Inr (JStr ''9''), s1) \<and>
    calls (run_task two_rows 0 s1) =
      [Begin (Tx 1 0), Stream (Tx 1 0) (from_string ''select 2''), Drop (Tx 1 0)]"
proof -
  obtain s1 where s1: "run_state (query_stream_rpc (\<lambda>_. ''9'') two_rows sample_stream) sample_conn =
      (Inr (JStr ''9''), s1)"
    by (simp add: query_stream_rpc_def run_begin_session two_rows_def)
  from stream_skips_auth_context [OF s1] s1 show ?thesis
    by (simp add: sample_stream_def query_stm_def query_params_new_def from_string_def
        from_sql_and_values_def)
qed


section \<open>Claims\<close>

lemma framed_rpc:
  assumes "framed m" "run_state m s = (r, s')"
  shows "sess s' = sess s" "config s' = config s" "streams s' = streams s" "notified s' = notified s"
proof -
  have "world.more s' = world.more s" using assms by (rule framedD)
  then show "sess s' = sess s" "config s' = config s" "streams s' = streams s" "notified s' = notified s"
    by (cases s; cases s'; simp)+
qed

lemma framed_set_db_config [framed_intros]: "framed (set_db_config json_text E c cfg)"
  unfolding set_db_config_def by (intro framed_intros)

lemma framed_switch_auth_context [framed_intros]:
  "framed (switch_auth_context json_text E c session cfg)"
  unfolding switch_auth_context_def
  by (auto intro!: framed_intros split: option.split)

lemma framed_begin_session [framed_intros]: "framed (begin_session E)"
  unfolding begin_session_def by (intro framed_intros)

lemma framed_query [framed_intros]: "framed (query_rpc json_text E p)"
  unfolding query_rpc_def by (intro framed_intros)

lemma run_login:
  "run_state (Sql_Ops.login E c u p) w =
     (case map_sum failure_of_db_err id (E (calls w) (Fetch c (from_string (login_sql u p)))) of
        Inl e \<Rightarrow> Inl e
      | Inr rows \<Rightarrow>
          (case first_row rows of
             Inl e \<Rightarrow> Inl e
           | Inr row \<Rightarrow> (case row of None \<Rightarrow> Inl INTERNAL_ERROR
                         | Some x \<Rightarrow> of_option INTERNAL_ERROR (json_get x ''login''))),
      w\<lparr>calls := calls w @ [Fetch c (from_string (login_sql u p))]\<rparr>)"
  by (auto simp: Sql_Ops.login_def fetch_one_def split: sum.split option.split)

text \<open>The answer of the database that makes a login's reply.\<close>

definition logs_in :: "db_row list \<Rightarrow> json \<Rightarrow> bool" where
  "logs_in rows out \<longleftrightarrow> (\<exists>v rest. rows = Row v # rest \<and> json_get v ''login'' = Some out)"

lemma login_answer:
  assumes "run_state (Sql_Ops.login E c u p) w = (Inr out, w')"
  shows "\<exists>rows. E (calls w) (Fetch c (from_string (login_sql u p))) = Inr rows \<and> logs_in rows out"
proof -
  let ?q = "Fetch c (from_string (login_sql u p))"
  obtain rows where rows: "E (calls w) ?q = Inr rows"
    using assms by (auto simp: run_login split: sum.splits)
  with assms obtain row where row: "first_row rows = Inr row"
    by (cases "first_row rows") (simp_all add: run_login)
  with assms rows obtain v where v: "row = Some v"
    by (cases row) (simp_all add: run_login)
  with assms rows row have "json_get v ''login'' = Some out"
    by (cases "json_get v ''login''") (simp_all add: run_login)
  with row v have "logs_in rows out"
    by (auto simp: logs_in_def first_row_def split: list.splits db_row.splits)
  with rows show ?thesis by blast
qed

definition login_prefix :: "(json \<Rightarrow> string) \<Rightarrow> rpc \<Rightarrow> db_call list" where
  "login_prefix json_text s = calls s @ [Begin (own_tx s),
     Execute (OnTx (own_tx s)) (set_config_stm (json_text (db_config_json (db_config (config s)))))]"

lemma login_rpc_outcome:
  assumes run: "run_state (login_rpc json_text E p) s = (r, s')"
  shows "sess s' = sess s \<and> isl r \<or>
    (\<exists>rows out claims. E (login_prefix json_text s)
        (Fetch (OnTx (own_tx s)) (from_string (login_sql (lp_username p) (lp_password p)))) = Inr rows \<and>
      logs_in rows out \<and> json_get out ''claims'' = Some claims \<and>
      sess s' = with_claims (Some claims) (sess s) \<and>
      r = map_sum failure_of_db_err (\<lambda>_. out) (E (login_prefix json_text s @
        [Fetch (OnTx (own_tx s)) (from_string (login_sql (lp_username p) (lp_password p)))])
        (Commit (own_tx s))))"
proof -
  let ?t = "own_tx s"
  let ?cfg = "Execute (OnTx ?t) (set_config_stm (json_text (db_config_json (db_config (config s)))))"
  let ?s = "s\<lparr>fresh := Suc (fresh s), calls := login_prefix json_text s\<rparr>"
  obtain x s1 where l: "run_state (Sql_Ops.login E (OnTx ?t) (lp_username p) (lp_password p)) ?s = (x, s1)"
    by fastforce
  have s1: "s1 = ?s\<lparr>calls := calls ?s @
      [Fetch (OnTx ?t) (from_string (login_sql (lp_username p) (lp_password p)))]\<rparr>"
    using l by (simp add: run_login)
  show ?thesis
  proof (cases "E (calls s) (Begin ?t)")
    case (Inl e)
    with run show ?thesis by (auto simp: login_rpc_def run_begin_session)
  next
    case begun: (Inr rows)
    show ?thesis
    proof (cases "E (calls s @ [Begin ?t]) ?cfg")
      case (Inl e)
      with run begun show ?thesis
        by (auto simp: login_rpc_def run_begin_session run_set_db_config drop_tx_def)
    next
      case configured: (Inr rows')
      show ?thesis
      proof (cases x)
        case (Inl e)
        with run begun configured l s1 show ?thesis
          by (auto simp: login_rpc_def run_begin_session run_set_db_config drop_tx_def login_prefix_def)
      next
        case (Inr out)
        show ?thesis
        proof (cases "json_get out ''claims''")
          case None
          with run begun configured l s1 Inr show ?thesis
            by (auto simp: login_rpc_def run_begin_session run_set_db_config drop_tx_def login_prefix_def)
        next
          case (Some claims)
          then have "sess s' = with_claims (Some claims) (sess s)"
            "r = map_sum failure_of_db_err (\<lambda>_. out) (E (calls s1) (Commit ?t))"
            using run begun configured l s1 Inr
            by (auto simp: login_rpc_def run_begin_session run_set_db_config set_claims_def
                with_claims_def login_prefix_def split: sum.splits)
          with Some login_answer [OF l [unfolded Inr]] s1 show ?thesis by auto
        qed
      qed
    qed
  qed
qed


lemma authenticate_rpc_run:
  "run_state (authenticate_rpc E token) s =
     (let t = own_tx s; q = Fetch (OnTx t) (from_string (authenticate_sql token));
          s1 = s\<lparr>fresh := Suc (fresh s), calls := calls s @ [Begin t]\<rparr>
      in case E (calls s) (Begin t) of
           Inl e \<Rightarrow> (Inl (failure_of_db_err e), s1)
         | Inr _ \<Rightarrow>
             (case run_state (authenticate E (OnTx t) token) s1 of
                (Inl f, s2) \<Rightarrow> (Inl f, drop_tx t s2)
              | (Inr out, s2) \<Rightarrow> (Inr out, drop_tx t (set_claims (Some out) s2))))"
  by (simp add: authenticate_rpc_def run_begin_session Let_def split: sum.split prod.split)

lemma authenticate_rpc_outcome:
  assumes run: "run_state (authenticate_rpc E token) s = (r, s')"
  shows "sess s' = sess s \<and> isl r \<or>
    (\<exists>rows out. E (calls s @ [Begin (own_tx s)])
        (Fetch (OnTx (own_tx s)) (from_string (authenticate_sql token))) = Inr rows \<and>
      grants rows out \<and> r = Inr out \<and> sess s' = with_claims (Some out) (sess s))"
proof (cases "E (calls s) (Begin (own_tx s))")
  case (Inl e)
  with run show ?thesis by (auto simp: authenticate_rpc_run)
next
  case (Inr rows)
  let ?s = "s\<lparr>fresh := Suc (fresh s), calls := calls s @ [Begin (own_tx s)]\<rparr>"
  obtain x s2 where a: "run_state (authenticate E (OnTx (own_tx s)) token) ?s = (x, s2)" by fastforce
  have same: "sess s2 = sess s"
    using framed_rpc(1) [OF _ a] by (simp add: framed_intros)
  show ?thesis
  proof (cases x)
    case (Inl f)
    with run Inr a same show ?thesis
      by (auto simp: authenticate_rpc_run Let_def)
  next
    case right: (Inr out)
    then have "r = Inr out" "sess s' = with_claims (Some out) (sess s)"
      using run Inr a same by (auto simp: authenticate_rpc_run Let_def set_claims_def with_claims_def)
    with authenticate_grants [OF a [unfolded right]] show ?thesis by auto
  qed
qed

text \<open>The claims of a connection change only by a login or an authentication, to exactly what the
  database answered in the request's own transaction; no other request, and no failed authentication,
  touches them.\<close>

theorem claims_come_from_database:
  assumes run: "run_state (process_message json_text uuid_text E d) s = (r, s')"
    and changed: "sess_claims (sess s') \<noteq> sess_claims (sess s)"
  shows "(\<exists>token rows claims. d = Authenticate token \<and> r = Inr claims \<and>
      E (calls s @ [Begin (own_tx s)])
        (Fetch (OnTx (own_tx s)) (from_string (authenticate_sql token))) = Inr rows \<and>
      grants rows claims \<and> sess_claims (sess s') = Some claims) \<or>
    (\<exists>p rows out claims. d = Login p \<and>
      E (login_prefix json_text s)
        (Fetch (OnTx (own_tx s)) (from_string (login_sql (lp_username p) (lp_password p)))) = Inr rows \<and>
      logs_in rows out \<and> json_get out ''claims'' = Some claims \<and> sess_claims (sess s') = Some claims)"
proof (cases d)
  case (Query p)
  with run framed_rpc(1) [OF framed_query] have "sess s' = sess s" by simp
  with changed show ?thesis by simp
next
  case (Authenticate token)
  with run authenticate_rpc_outcome [of E token s r s'] changed show ?thesis
    by (auto simp: with_claims_def)
next
  case (Login p)
  with run login_rpc_outcome [of json_text E p s r s'] changed show ?thesis
    by (auto simp: with_claims_def)
next
  case (Transaction a)
  with run have "sess_claims (sess s') = sess_claims (sess s)"
    by (cases a) (auto simp: run_begin_session insert_txn_def set_txn_def drop_tx_def
        split: sum.splits option.splits)
  with changed show ?thesis by simp
next
  case (QueryStream p)
  with run have "sess s' = sess s"
    by (auto simp: query_stream_rpc_def run_begin_session spawn_stream_def split: sum.splits)
  with changed show ?thesis by simp
qed

definition grants_admin :: db_env where
  "grants_admin cs c =
     (case c of
        Fetch t stm \<Rightarrow> Inr [Row (JObj [(''authenticate'', JObj [(''role'', JStr ''admin'')]),
          (''login'', JObj [(''claims'', JObj [(''role'', JStr ''admin'')]), (''token'', JStr ''tok'')])])]
      | Commit t \<Rightarrow> Inl ''connection lost''
      | _ \<Rightarrow> Inr [])"

definition admin_login :: login_params where
  "admin_login = \<lparr>lp_username = ''u'', lp_password = ''p''\<rparr>"

lemmas claims_eval = grants_admin_def set_claims_def drop_tx_def first_row_def run_begin_session
  run_set_db_config Let_def

theorem claims_come_from_database_witness:
  "\<exists>r s' claims. run_state (process_message (\<lambda>_. ''{}'') (\<lambda>_. ''9'') grants_admin (Authenticate ''tok''))
      sample_conn = (r, s') \<and> sess_claims (sess s') = Some claims \<and> r = Inr claims"
proof -
  obtain r s' where run: "run_state (process_message (\<lambda>_. ''{}'') (\<lambda>_. ''9'') grants_admin
      (Authenticate ''tok'')) sample_conn = (r, s')" by fastforce
  then have "sess_claims (sess s') \<noteq> sess_claims (sess sample_conn)"
    by (auto simp: authenticate_rpc_run run_authenticate claims_eval)
  from claims_come_from_database [OF run this] run show ?thesis by auto
qed

text \<open>A login whose commit fails is answered with the database's error, and yet the connection keeps
  the claims of that login: the next query runs under its role.\<close>

theorem failed_login_keeps_claims:
  assumes "E (calls s) (Begin (own_tx s)) = Inr rows" and "E (calls s @ [Begin (own_tx s)])
      (Execute (OnTx (own_tx s)) (set_config_stm (json_text (db_config_json (db_config (config s)))))) = Inr rows'"
    and "E (login_prefix json_text s) (Fetch (OnTx (own_tx s))
      (from_string (login_sql (lp_username p) (lp_password p)))) = Inr (Row v # rest)"
    and "json_get v ''login'' = Some out" and "json_get out ''claims'' = Some claims"
    and "E (login_prefix json_text s @ [Fetch (OnTx (own_tx s))
      (from_string (login_sql (lp_username p) (lp_password p)))]) (Commit (own_tx s)) = Inl err"
  shows "\<exists>s'. run_state (login_rpc json_text E p) s = (Inl (custom err), s') \<and>
    sess s' = with_claims (Some claims) (sess s)"
  using assms
  by (simp add: login_rpc_def run_begin_session run_set_db_config run_login login_prefix_def
      first_row_def set_claims_def with_claims_def failure_of_db_err_def)

theorem failed_login_keeps_claims_witness:
  "\<exists>s'. run_state (login_rpc (\<lambda>_. ''{}'') grants_admin admin_login) sample_conn
      = (Inl (custom ''connection lost''), s') \<and> auth_role (sess s') = Inr ''acme_admin''"
proof -
  have "\<exists>s'. run_state (login_rpc (\<lambda>_. ''{}'') grants_admin admin_login) sample_conn
      = (Inl (custom ''connection lost''), s') \<and>
     sess s' = with_claims (Some (JObj [(''role'', JStr ''admin'')])) (sess sample_conn)"
    by (rule failed_login_keeps_claims)
      (simp add: grants_admin_def, simp add: grants_admin_def, simp add: grants_admin_def, simp, simp,
       simp add: grants_admin_def)
  then show ?thesis
    by (auto simp: auth_role_def with_claims_def session_new_def)
qed

text \<open>An authentication on an open connection is one statement in a transaction that is always rolled
  back, and unlike a login it never configures \<open>app.env\<close>, from which the SQL function reads its
  key.\<close>

theorem authenticate_never_configures:
  assumes "run_state (authenticate_rpc E token) s = (r, s')"
    and "E (calls s) (Begin (own_tx s)) = Inr rows"
  shows "calls s' = calls s @ [Begin (own_tx s),
    Fetch (OnTx (own_tx s)) (from_string (authenticate_sql token)), Drop (own_tx s)]"
  using assms
  by (auto simp: authenticate_rpc_run run_authenticate Let_def drop_tx_def set_claims_def
      split: prod.splits sum.splits)

theorem authenticate_never_configures_witness:
  "\<exists>r s'. run_state (authenticate_rpc grants_admin ''tok'') sample_conn = (r, s') \<and>
    calls s' = [Begin (Tx 1 0), Fetch (OnTx (Tx 1 0)) (from_string (authenticate_sql ''tok'')), Drop (Tx 1 0)]"
proof -
  obtain r s' where run: "run_state (authenticate_rpc grants_admin ''tok'') sample_conn = (r, s')"
    by fastforce
  from authenticate_never_configures [OF run, of "[]"] run show ?thesis
    by (simp add: grants_admin_def)
qed

end
