(* ===== verification/Transition.thy ===== *)
theory Transition
  imports Prelude
begin

text \<open>
  Invariants of step relations.  A component proves once that its invariant survives a step; what
  holds on every run is then the same few lemmas for the socket, the lock of a connection and the
  client's router.
\<close>

locale invariant =
  fixes step :: "'s \<Rightarrow> 's \<Rightarrow> bool"
    and inv :: "'s \<Rightarrow> bool"
  assumes kept: "inv s \<Longrightarrow> step s s' \<Longrightarrow> inv s'"
begin

lemma kept_star: "step\<^sup>*\<^sup>* s s' \<Longrightarrow> inv s \<Longrightarrow> inv s'"
  by (induction rule: rtranclp_induct) (auto intro: kept)

text \<open>A quantity that no step changes while the invariant holds is constant on every run.\<close>

lemma constant_star:
  assumes "step\<^sup>*\<^sup>* s s'" "inv s" "\<And>s s'. inv s \<Longrightarrow> step s s' \<Longrightarrow> f s' = f s"
  shows "f s' = f s"
  using assms(1,2)
proof (induction rule: rtranclp_induct)
  case (step s1 s2)
  then show ?case using assms(3) kept_star by metis
qed simp

end

text \<open>Two invariants hold together.\<close>

locale two_invariants = fst_inv: invariant step inv + snd_inv: invariant step inv'
  for step :: "'s \<Rightarrow> 's \<Rightarrow> bool" and inv inv' :: "'s \<Rightarrow> bool"
begin

lemma both_star: "step\<^sup>*\<^sup>* s s' \<Longrightarrow> inv s \<Longrightarrow> inv' s \<Longrightarrow> inv s' \<and> inv' s'"
  using fst_inv.kept_star snd_inv.kept_star by blast

end

sublocale two_invariants \<subseteq> both: invariant step "\<lambda>s. inv s \<and> inv' s"
  by unfold_locales (use fst_inv.kept snd_inv.kept in blast)

section \<open>Progress\<close>

text \<open>A component that can always make a step that brings it nearer to a final state can reach one; if
  every step brings it nearer, every run ends there.\<close>

locale advancing = invariant step inv
  for step :: "'s \<Rightarrow> 's \<Rightarrow> bool" and inv :: "'s \<Rightarrow> bool" +
  fixes distance :: "'s \<Rightarrow> nat"
    and final :: "'s \<Rightarrow> bool"
  assumes advance: "inv s \<Longrightarrow> \<not> final s \<Longrightarrow> \<exists>s'. step s s' \<and> distance s' < distance s"
begin

lemma reaches_final: "inv s \<Longrightarrow> \<exists>s'. step\<^sup>*\<^sup>* s s' \<and> final s'"
proof (induction "distance s" arbitrary: s rule: less_induct)
  case less
  show ?case
  proof (cases "final s")
    case False
    then obtain s1 where s1: "step s s1" "distance s1 < distance s"
      using advance less.prems by blast
    moreover have "inv s1" using kept less.prems s1(1) by blast
    ultimately show ?thesis using less.hyps by (meson converse_rtranclp_into_rtranclp)
  qed blast
qed

end

locale terminating = invariant step inv
  for step :: "'s \<Rightarrow> 's \<Rightarrow> bool" and inv :: "'s \<Rightarrow> bool" +
  fixes distance :: "'s \<Rightarrow> nat"
    and final :: "'s \<Rightarrow> bool"
  assumes nearer: "inv s \<Longrightarrow> step s s' \<Longrightarrow> distance s' < distance s"
    and enabled: "inv s \<Longrightarrow> \<not> final s \<Longrightarrow> \<exists>s'. step s s'"
begin

lemma well_founded: "wfp (\<lambda>s' s. inv s \<and> step s s')"
  using wfp_if_convertible_to_nat [of "\<lambda>s' s. inv s \<and> step s s'" distance] nearer by blast

lemma reaches_end: "inv s \<Longrightarrow> \<exists>s'. step\<^sup>*\<^sup>* s s' \<and> (\<nexists>s''. step s' s'')"
proof (induction "distance s" arbitrary: s rule: less_induct)
  case less
  show ?case
  proof (cases "\<exists>s1. step s s1")
    case True
    then obtain s1 where s1: "step s s1" by blast
    with less.prems have "inv s1" "distance s1 < distance s" using kept nearer by blast+
    with s1 less.hyps show ?thesis by (meson converse_rtranclp_into_rtranclp)
  qed blast
qed

text \<open>No run goes on for ever.\<close>

lemma stops:
  assumes "inv (f 0)"
  shows "\<exists>n. \<not> step (f n) (f (Suc n))"
proof (rule ccontr)
  assume "\<not> ?thesis"
  then have step: "step (f n) (f (Suc n))" for n by blast
  have inv: "inv (f n)" for n
    by (induction n) (use assms step kept in auto)
  have "distance (f n) + n \<le> distance (f 0)" for n
  proof (induction n)
    case (Suc n)
    with nearer [OF inv step, of n] show ?case by simp
  qed simp
  from this [of "Suc (distance (f 0))"] show False by simp
qed

lemma ends_final: "step\<^sup>*\<^sup>* s s' \<Longrightarrow> inv s \<Longrightarrow> \<not> (\<exists>s''. step s' s'') \<Longrightarrow> final s'"
  using enabled kept_star by blast

end

sublocale terminating \<subseteq> advancing
  by unfold_locales (use nearer enabled in blast)

end
