(* ===== verification/Router.thy ===== *)
theory Router
  imports Wire Transition
begin

text \<open>
  The client's engine: \<open>src/api/src/conn.rs\<close> (routes, parameters, request ids),
  \<open>src/api/src/engine/ws/mod.rs\<close> (the router's state) and \<open>native.rs\<close> and \<open>wasm.rs\<close> beside it
  (handling of routes and messages, reconnection, the loop).  A channel is a number; what a
  \<open>Sender\<close> delivers is recorded in \<open>delivered\<close>, what the sink accepts in \<open>written\<close>, and the
  attempts to connect in \<open>attempts\<close>.  The sockets of \<open>tokio_tungstenite\<close> and
  \<open>ws_stream_wasm\<close>, the text of a value and the validity of a header value are parameters; an
  input says what they answer.
\<close>

section \<open>Routes, parameters and request ids\<close>

type_synonym chan = nat

record route =
  rt_request :: request
  rt_response :: chan

record param =
  p_stream :: "(uuid \<times> chan) option"
  p_listen :: "(string \<times> chan) option"
  p_token :: "string option"

definition param_stream :: "uuid \<Rightarrow> chan \<Rightarrow> param" where
  "param_stream stream_id sender = \<lparr>p_stream = Some (stream_id, sender), p_listen = None, p_token = None\<rparr>"

definition param_listen :: "string \<Rightarrow> chan \<Rightarrow> param" where
  "param_listen channel sender = \<lparr>p_stream = None, p_listen = Some (channel, sender), p_token = None\<rparr>"

definition param_token :: "string \<Rightarrow> param" where
  "param_token s = \<lparr>p_stream = None, p_listen = None, p_token = Some s\<rparr>"

text \<open>\<open>fetch_add\<close> wraps around; the request carries the decimal text.\<close>

definition next_id :: "64 word \<Rightarrow> 64 word \<times> 64 word" where
  "next_id last_id = (last_id, last_id + 1)"

definition make_route :: "64 word \<Rightarrow> request_data \<Rightarrow> chan \<Rightarrow> route \<times> 64 word" where
  "make_route last_id data sender =
     (case next_id last_id of (i, last') \<Rightarrow>
        (\<lparr>rt_request = \<lparr>req_id = int_text (sint i), req_data = data\<rparr>, rt_response = sender\<rparr>, last'))"

section \<open>Messages\<close>

text \<open>\<open>DbResponse::try_from_message\<close>: the text is parsed as an optional response and unwrapped;
  the error side of the result is never used.\<close>

definition from_text :: "(string \<Rightarrow> json option) \<Rightarrow> (string \<Rightarrow> uuid option) \<Rightarrow> string \<Rightarrow> db_response option option" where
  "from_text parse_json parse_uuid text =
     Option.bind (parse_json text) (\<lambda>j.
       if j = JNull then Some None else map_option Some (dec_db_response parse_uuid j))"

fun try_from_message ::
    "(string \<Rightarrow> json option) \<Rightarrow> (string \<Rightarrow> uuid option) \<Rightarrow> message \<Rightarrow> (string + db_response option) outcome" where
  "try_from_message parse_json parse_uuid (TextMsg text) =
     (case from_text parse_json parse_uuid text of None \<Rightarrow> Panic | Some res \<Rightarrow> Returned (Inr res))"
| "try_from_message parse_json parse_uuid (BinaryMsg b) = Returned (Inr None)"
| "try_from_message parse_json parse_uuid (PingMsg b) = Returned (Inr None)"
| "try_from_message parse_json parse_uuid (PongMsg b) = Returned (Inr None)"
| "try_from_message parse_json parse_uuid FrameMsg = Returned (Inr None)"
| "try_from_message parse_json parse_uuid CloseMsg = Returned (Inr None)"

text \<open>The browser's messages, and the same function for them.\<close>

datatype wasm_message = WasmText string | WasmBinary "8 word list"

fun wasm_try_from_message ::
    "(string \<Rightarrow> json option) \<Rightarrow> (string \<Rightarrow> uuid option) \<Rightarrow> wasm_message \<Rightarrow> (string + db_response option) outcome" where
  "wasm_try_from_message parse_json parse_uuid (WasmText text) =
     (case from_text parse_json parse_uuid text of None \<Rightarrow> Panic | Some res \<Rightarrow> Returned (Inr res))"
| "wasm_try_from_message parse_json parse_uuid (WasmBinary b) = Returned (Inr None)"

section \<open>State of the router\<close>

datatype delivery =
    ToCaller chan query_result
  | ToStream chan query_stream_notification
  | ToListener chan transaction

datatype wire_item = WRequest request | WPing | WClose | WText string

record router_state =
  live_queries :: "uuid \<rightharpoonup> chan"
  routes :: "string \<rightharpoonup> chan"
  channels :: "string \<rightharpoonup> chan"
  token :: "string option"
  last_activity :: nat
  socket :: nat
  delivered :: "delivery list"
  written :: "wire_item list"
  attempts :: "string option list"

definition router_state_new :: "nat \<Rightarrow> nat \<Rightarrow> router_state" where
  "router_state_new sock now = \<lparr>live_queries = Map.empty, routes = Map.empty, channels = Map.empty,
     token = None, last_activity = now, socket = sock, delivered = [], written = [], attempts = []\<rparr>"

datatype handle_result = Disconnected | HandledOk

definition router_handle_route :: "bool \<Rightarrow> nat \<Rightarrow> route \<Rightarrow> router_state \<Rightarrow> handle_result \<times> router_state" where
  "router_handle_route sent_ok now r s =
     (if \<not> sent_ok then (Disconnected, s)
      else
        let s1 = s\<lparr>written := written s @ [WRequest (rt_request r)], last_activity := now\<rparr>
        in (HandledOk,
            case routes s1 (req_id (rt_request r)) of
              None \<Rightarrow> s1\<lparr>routes := (routes s1)(req_id (rt_request r) \<mapsto> rt_response r)\<rparr>
            | Some _ \<Rightarrow> s1))"

definition deliver :: "delivery \<Rightarrow> router_state \<Rightarrow> router_state" where
  "deliver d s = s\<lparr>delivered := delivered s @ [d]\<rparr>"

text \<open>\<open>alive c\<close>: the receiver of channel \<open>c\<close> has not been dropped.\<close>

fun dispatch :: "(chan \<Rightarrow> bool) \<Rightarrow> db_response \<Rightarrow> router_state \<Rightarrow> router_state" where
  "dispatch alive (QueryResponse r) s =
     (case routes s (resp_id r) of
        None \<Rightarrow> s
      | Some c \<Rightarrow>
          let s1 = s\<lparr>routes := (routes s)(resp_id r := None)\<rparr>
          in if alive c then deliver (ToCaller c (resp_result r)) s1 else s1)"
| "dispatch alive (QueryStreamNotification n) s =
     (case live_queries s (qsn_stream_id n) of
        None \<Rightarrow> s
      | Some c \<Rightarrow> if alive c then deliver (ToStream c n) s
                  else s\<lparr>live_queries := (live_queries s)(qsn_stream_id n := None)\<rparr>)"
| "dispatch alive (ListenChanel l) s =
     (case channels s (lcr_channel l) of
        None \<Rightarrow> s
      | Some c \<Rightarrow> if alive c then deliver (ToListener c (lcr_data l)) s
                  else s\<lparr>channels := (channels s)(lcr_channel l := None)\<rparr>)"

definition router_handle_response ::
    "(string \<Rightarrow> json option) \<Rightarrow> (string \<Rightarrow> uuid option) \<Rightarrow> (chan \<Rightarrow> bool) \<Rightarrow> message \<Rightarrow> router_state \<Rightarrow>
     (handle_result \<times> router_state) outcome" where
  "router_handle_response parse_json parse_uuid alive m s =
     after (try_from_message parse_json parse_uuid m) (\<lambda>res.
       Returned (HandledOk, case res of
           Inl _ \<Rightarrow> s
         | Inr None \<Rightarrow> s
         | Inr (Some response) \<Rightarrow> dispatch alive response s))"

definition wasm_handle_response ::
    "(string \<Rightarrow> json option) \<Rightarrow> (string \<Rightarrow> uuid option) \<Rightarrow> (chan \<Rightarrow> bool) \<Rightarrow> wasm_message \<Rightarrow> router_state \<Rightarrow>
     (handle_result \<times> router_state) outcome" where
  "wasm_handle_response parse_json parse_uuid alive m s =
     after (wasm_try_from_message parse_json parse_uuid m) (\<lambda>res.
       Returned (HandledOk, case res of
           Inl _ \<Rightarrow> s
         | Inr None \<Rightarrow> s
         | Inr (Some response) \<Rightarrow> dispatch alive response s))"

section \<open>Parameters, connection and the start of the loop\<close>

definition handle_param :: "param \<Rightarrow> router_state \<Rightarrow> router_state" where
  "handle_param p s =
     (let s1 = (case p_listen p of None \<Rightarrow> s
                | Some (channel, sender) \<Rightarrow> s\<lparr>channels := (channels s)(channel \<mapsto> sender)\<rparr>);
          s2 = (case p_stream p of None \<Rightarrow> s1
                | Some (stream_id, sender) \<Rightarrow> s1\<lparr>live_queries := (live_queries s1)(stream_id \<mapsto> sender)\<rparr>)
      in case p_token p of None \<Rightarrow> s2 | Some t \<Rightarrow> s2\<lparr>token := Some t\<rparr>)"

text \<open>\<open>connect\<close>: a token that is no header value fails before the network is touched.\<close>

definition connect :: "(string \<Rightarrow> bool) \<Rightarrow> string option \<Rightarrow> string + nat \<Rightarrow> string + nat" where
  "connect header_ok tok answer =
     (case tok of
        Some tk \<Rightarrow> if header_ok tk then answer else Inl ''failed to parse header value''
      | None \<Rightarrow> answer)"

definition enter_router :: "nat \<Rightarrow> router_state \<Rightarrow> router_state" where
  "enter_router now s = s\<lparr>last_activity := now, live_queries := Map.empty, routes := Map.empty, token := None\<rparr>"

definition PING_INTERVAL :: nat where
  "PING_INTERVAL = 5"

section \<open>The loop of the native client\<close>

text \<open>One branch of the \<open>select!\<close>, with what the socket answered to what the branch sends.\<close>

datatype router_event =
    GotParam param
  | ParamsClosed
  | GotRoute route bool
  | RoutesClosed bool
  | GotMessage message
  | GotError
  | StreamOver
  | Tick bool

datatype router_input = Select router_event | ConnectAnswer "string + nat"

datatype router_phase =
    Running router_state
  | Reconnecting router_state
  | Quit router_state
  | Crashed

fun select_step ::
    "(string \<Rightarrow> json option) \<Rightarrow> (string \<Rightarrow> uuid option) \<Rightarrow> (chan \<Rightarrow> bool) \<Rightarrow> nat \<Rightarrow> router_event \<Rightarrow>
     router_state \<Rightarrow> router_phase" where
  "select_step pj pu alive now (GotParam p) s = Running (handle_param p s)"
| "select_step pj pu alive now ParamsClosed s = Running s"
| "select_step pj pu alive now (GotRoute r sent_ok) s =
     (case router_handle_route sent_ok now r s of
        (HandledOk, s') \<Rightarrow> Running s' | (Disconnected, s') \<Rightarrow> Reconnecting s')"
| "select_step pj pu alive now (RoutesClosed sent_ok) s =
     Quit (if sent_ok then s\<lparr>written := written s @ [WClose]\<rparr> else s)"
| "select_step pj pu alive now (GotMessage m) s =
     (case router_handle_response pj pu alive m (s\<lparr>last_activity := now\<rparr>) of
        Panic \<Rightarrow> Crashed
      | Returned (HandledOk, s') \<Rightarrow> Running s'
      | Returned (Disconnected, s') \<Rightarrow> Reconnecting s')"
| "select_step pj pu alive now GotError s = Reconnecting (s\<lparr>last_activity := now\<rparr>)"
| "select_step pj pu alive now StreamOver s = Reconnecting s"
| "select_step pj pu alive now (Tick sent_ok) s =
     (if PING_INTERVAL \<le> now - last_activity s
      then if sent_ok then Running (s\<lparr>written := written s @ [WPing]\<rparr>) else Reconnecting s
      else Running s)"

text \<open>An attempt to reconnect; after the first success the loop is entered again.\<close>

definition reconnect_step ::
    "(string \<Rightarrow> bool) \<Rightarrow> nat \<Rightarrow> string + nat \<Rightarrow> router_state \<Rightarrow> router_phase" where
  "reconnect_step header_ok now answer s =
     (let s1 = s\<lparr>attempts := attempts s @ [token s]\<rparr>
      in case connect header_ok (token s) answer of
           Inl _ \<Rightarrow> Reconnecting s1
         | Inr sock \<Rightarrow> Running (enter_router now (s1\<lparr>socket := sock\<rparr>)))"

fun router_step ::
    "(string \<Rightarrow> json option) \<Rightarrow> (string \<Rightarrow> uuid option) \<Rightarrow> (string \<Rightarrow> bool) \<Rightarrow> (chan \<Rightarrow> bool) \<Rightarrow>
     nat \<times> router_input \<Rightarrow> router_phase \<Rightarrow> router_phase" where
  "router_step pj pu header_ok alive (now, Select ev) (Running s) = select_step pj pu alive now ev s"
| "router_step pj pu header_ok alive (now, ConnectAnswer a) (Reconnecting s) = reconnect_step header_ok now a s"
| "router_step pj pu header_ok alive input p = p"

definition run_router ::
    "(string \<Rightarrow> json option) \<Rightarrow> (string \<Rightarrow> uuid option) \<Rightarrow> (string \<Rightarrow> bool) \<Rightarrow> (chan \<Rightarrow> bool) \<Rightarrow>
     nat \<Rightarrow> nat \<Rightarrow> (nat \<times> router_input) list \<Rightarrow> router_phase" where
  "run_router pj pu header_ok alive sock now inputs =
     fold (router_step pj pu header_ok alive) inputs (Running (enter_router now (router_state_new sock now)))"

end
