(* ===== verification/Router_Wasm.thy ===== *)
theory Router_Wasm
  imports Router
begin

text \<open>
  \<open>src/api/src/engine/ws/wasm.rs\<close>: the router's loop in the browser.  Routes, responses and
  parameters are handled as in the native client; the socket's events, the ping, the reconnection
  and the token in the query string are its own.
\<close>

definition wasm_handle_request :: "bool \<Rightarrow> nat \<Rightarrow> route \<Rightarrow> router_state \<Rightarrow> handle_result \<times> router_state" where
  "wasm_handle_request sent_ok now r s =
     (if sent_ok then
        let s1 = s\<lparr>written := written s @ [WRequest (rt_request r)], last_activity := now\<rparr>;
            i = req_id (rt_request r)
        in (HandledOk, if routes s1 i = None then s1\<lparr>routes := (routes s1)(i \<mapsto> rt_response r)\<rparr> else s1)
      else (Disconnected, s))"

datatype ws_event = WsOpen | WsErrorEvent | WsErr string | WsClosing | WsClosed

datatype wasm_event =
    WasmParam param
  | WasmParamsClosed
  | WasmRoute route bool
  | WasmRoutesClosed bool
  | WasmMessage wasm_message
  | WasmStreamOver
  | WasmEvent "ws_event option"
  | WasmTick bool

text \<open>Connecting can fail, or succeed and then fail to observe the socket's events.\<close>

datatype wasm_answer = ConnFailed string | ObserveFailed nat string | Connected nat

datatype wasm_input = WasmSelect wasm_event | WasmAnswer wasm_answer

text \<open>\<open>Again s\<close>: the inner loop was left without reconnecting, so the router is entered again on the
  socket it has.\<close>

fun wasm_select_step ::
    "(string \<Rightarrow> json option) \<Rightarrow> (string \<Rightarrow> uuid option) \<Rightarrow> (chan \<Rightarrow> bool) \<Rightarrow> nat \<Rightarrow> wasm_event \<Rightarrow>
     router_state \<Rightarrow> router_phase" where
  "wasm_select_step pj pu alive now (WasmParam p) s = Running (handle_param p s)"
| "wasm_select_step pj pu alive now WasmParamsClosed s = Running s"
| "wasm_select_step pj pu alive now (WasmRoute r sent_ok) s =
     (case wasm_handle_request sent_ok now r s of
        (HandledOk, s') \<Rightarrow> Running s' | (Disconnected, s') \<Rightarrow> Reconnecting s')"
| "wasm_select_step pj pu alive now (WasmRoutesClosed sent_ok) s =
     Quit (if sent_ok then s\<lparr>written := written s @ [WClose]\<rparr> else s)"
| "wasm_select_step pj pu alive now (WasmMessage m) s =
     (case wasm_handle_response pj pu alive m (s\<lparr>last_activity := now\<rparr>) of
        Panic \<Rightarrow> Crashed
      | Returned (HandledOk, s') \<Rightarrow> Running s'
      | Returned (Disconnected, s') \<Rightarrow> Reconnecting s')"
| "wasm_select_step pj pu alive now WasmStreamOver s = Reconnecting s"
| "wasm_select_step pj pu alive now (WasmEvent None) s = Running s"
| "wasm_select_step pj pu alive now (WasmEvent (Some WsErrorEvent)) s = Running (enter_router now s)"
| "wasm_select_step pj pu alive now (WasmEvent (Some (WsErr e))) s = Running s"
| "wasm_select_step pj pu alive now (WasmEvent (Some WsClosed)) s = Reconnecting s"
| "wasm_select_step pj pu alive now (WasmEvent (Some WsOpen)) s = Running s"
| "wasm_select_step pj pu alive now (WasmEvent (Some WsClosing)) s = Running s"
| "wasm_select_step pj pu alive now (WasmTick sent_ok) s =
     (if PING_INTERVAL \<le> now - last_activity s
      then if sent_ok then Running (s\<lparr>written := written s @ [WText ''PING'']\<rparr>) else Reconnecting s
      else Running s)"

text \<open>The query string carries the current token, or, when there is none, what \<open>run_router\<close> put
  into the endpoint at the start: the token of the options.\<close>

definition wasm_token :: "string option \<Rightarrow> router_state \<Rightarrow> string option" where
  "wasm_token opts_token s = (case token s of Some t \<Rightarrow> Some t | None \<Rightarrow> opts_token)"

definition wasm_reconnect_step ::
    "string option \<Rightarrow> nat \<Rightarrow> wasm_answer \<Rightarrow> router_state \<Rightarrow> router_phase" where
  "wasm_reconnect_step opts_token now answer s =
     (let s1 = s\<lparr>attempts := attempts s @ [wasm_token opts_token s]\<rparr>
      in case answer of
           ConnFailed e \<Rightarrow> Reconnecting s1
         | ObserveFailed sock e \<Rightarrow> Reconnecting (s1\<lparr>socket := sock\<rparr>)
         | Connected sock \<Rightarrow> Running (enter_router now (s1\<lparr>socket := sock\<rparr>)))"

fun wasm_router_step ::
    "(string \<Rightarrow> json option) \<Rightarrow> (string \<Rightarrow> uuid option) \<Rightarrow> string option \<Rightarrow> (chan \<Rightarrow> bool) \<Rightarrow>
     nat \<times> wasm_input \<Rightarrow> router_phase \<Rightarrow> router_phase" where
  "wasm_router_step pj pu opts_token alive (now, WasmSelect ev) (Running s) =
     wasm_select_step pj pu alive now ev s"
| "wasm_router_step pj pu opts_token alive (now, WasmAnswer a) (Reconnecting s) =
     wasm_reconnect_step opts_token now a s"
| "wasm_router_step pj pu opts_token alive input p = p"

text \<open>The first connection is made inside \<open>run_router\<close>; a failure is reported to \<open>connect\<close>.\<close>

definition wasm_run_router ::
    "(string \<Rightarrow> json option) \<Rightarrow> (string \<Rightarrow> uuid option) \<Rightarrow> string option \<Rightarrow> (chan \<Rightarrow> bool) \<Rightarrow>
     nat \<Rightarrow> wasm_answer \<Rightarrow> (nat \<times> wasm_input) list \<Rightarrow> failure + router_phase" where
  "wasm_run_router pj pu opts_token alive now answer inputs =
     (case answer of
        ConnFailed e \<Rightarrow> Inl (custom e)
      | ObserveFailed sock e \<Rightarrow> Inl (custom e)
      | Connected sock \<Rightarrow>
          Inr (fold (wasm_router_step pj pu opts_token alive) inputs
            (Running (enter_router now ((router_state_new sock now)\<lparr>attempts := [opts_token]\<rparr>)))))"

section \<open>The same handling on both platforms\<close>

fun native_message :: "wasm_message \<Rightarrow> message" where
  "native_message (WasmText t) = TextMsg t"
| "native_message (WasmBinary b) = BinaryMsg b"

lemma wasm_try_from_message_native:
  "wasm_try_from_message pj pu m = try_from_message pj pu (native_message m)"
  by (cases m) simp_all

text \<open>The browser's router and the native one treat routes and messages alike.\<close>

theorem wasm_handles_like_native:
  "wasm_handle_request sent_ok now r s = router_handle_route sent_ok now r s \<and>
   wasm_handle_response pj pu alive m s = router_handle_response pj pu alive (native_message m) s"
  by (simp add: wasm_handle_request_def router_handle_route_def wasm_handle_response_def
      router_handle_response_def wasm_try_from_message_native Let_def split: option.split)

text \<open>In the browser an error event of the socket makes the client forget every pending request,
  streaming query and token without reconnecting: the socket stays, so the answers that still arrive on
  it are delivered to nobody.\<close>

theorem wasm_error_event_forgets_requests:
  "\<exists>s'. wasm_select_step pj pu alive now (WasmEvent (Some WsErrorEvent)) s = Running s' \<and>
    socket s' = socket s \<and> attempts s' = attempts s \<and> token s' = None \<and>
    dispatch alive (QueryResponse r) s' = s' \<and> dispatch alive (QueryStreamNotification n) s' = s'"
  by (simp add: enter_router_def)

end
