(* ===== verification/Endpoint.thy ===== *)
theory Endpoint
  imports Failures
begin

text \<open>
  \<open>src/api/src/opt/mod.rs\<close> and \<open>endpoint.rs\<close>: the states a client can be waited for in,
  and the address of a server.  The \<open>url\<close> crate is a parameter: \<open>parse\<close> is
  \<open>Url::parse\<close> (\<open>None\<close> for its errors) and \<open>scheme\<close> the accessor; a URL is
  whatever \<open>parse\<close> returns.
\<close>

section \<open>WaitFor\<close>

datatype wait_for = WaitConnection | WaitDatabase

text \<open>\<open>derive(PartialOrd, Ord)\<close>: variants are ordered as they are declared.\<close>

instantiation wait_for :: linorder
begin

definition less_eq_wait_for :: "wait_for \<Rightarrow> wait_for \<Rightarrow> bool" where
  "less_eq_wait_for a b \<longleftrightarrow> a = WaitConnection \<or> b = WaitDatabase"

definition less_wait_for :: "wait_for \<Rightarrow> wait_for \<Rightarrow> bool" where
  "less_wait_for a b \<longleftrightarrow> a = WaitConnection \<and> b = WaitDatabase"

instance
proof
  fix a b c :: wait_for
  show "a < b \<longleftrightarrow> a \<le> b \<and> \<not> b \<le> a"
    by (cases a; cases b) (simp_all add: less_eq_wait_for_def less_wait_for_def)
  show "a \<le> a" by (cases a) (simp_all add: less_eq_wait_for_def)
  show "a \<le> b \<Longrightarrow> b \<le> c \<Longrightarrow> a \<le> c"
    by (auto simp: less_eq_wait_for_def)
  show "a \<le> b \<Longrightarrow> b \<le> a \<Longrightarrow> a = b"
    by (cases a; cases b) (simp_all add: less_eq_wait_for_def)
  show "a \<le> b \<or> b \<le> a"
    by (cases a; cases b) (simp_all add: less_eq_wait_for_def)
qed

end

section \<open>Endpoints\<close>

datatype endpoint_kind = KindWs | KindWss | KindUnsupported string

definition endpoint_kind_of :: "string \<Rightarrow> endpoint_kind" where
  "endpoint_kind_of s =
     (if s = ''ws'' then KindWs else if s = ''wss'' then KindWss else KindUnsupported s)"

record 'u endpoint =
  ep_url :: 'u
  ep_path :: string

definition endpoint_new :: "'u \<Rightarrow> 'u endpoint" where
  "endpoint_new url = \<lparr>ep_url = url, ep_path = []\<rparr>"

definition parse_kind :: "('u \<Rightarrow> string) \<Rightarrow> 'u endpoint \<Rightarrow> failure + endpoint_kind" where
  "parse_kind scheme e =
     (case endpoint_kind_of (scheme (ep_url e)) of
        KindUnsupported s \<Rightarrow> Inl (custom s)
      | kind \<Rightarrow> Inr kind)"

text \<open>The two types that choose the scheme of an address, and the conversion of the address (the
  macro gives every address type the same one; \<open>address\<close> is its text).\<close>

datatype ws_scheme = Ws | Wss

definition scheme_prefix :: "ws_scheme \<Rightarrow> string" where
  "scheme_prefix sch = (case sch of Ws \<Rightarrow> ''ws://'' | Wss \<Rightarrow> ''wss://'')"

definition into_endpoint ::
    "(string \<Rightarrow> 'u option) \<Rightarrow> ws_scheme \<Rightarrow> string \<Rightarrow> failure + 'u endpoint" where
  "into_endpoint parse sch address =
     (case parse (scheme_prefix sch @ address) of
        None \<Rightarrow> Inl (custom ''Invalid URL'')
      | Some url \<Rightarrow> Inr (endpoint_new url))"

lemma into_endpoint_Inr [simp]:
  "into_endpoint parse sch address = Inr e \<longleftrightarrow>
     (\<exists>url. parse (scheme_prefix sch @ address) = Some url \<and> e = endpoint_new url)"
  by (auto simp: into_endpoint_def split: option.split)

text \<open>An address is turned into an endpoint of the kind its type names, whatever the address; that
  uses only that the parser keeps these two schemes.\<close>

theorem endpoint_kind_is_scheme:
  assumes "\<And>s rest url. s \<in> {''ws'', ''wss''} \<Longrightarrow> parse (s @ ''://'' @ rest) = Some url \<Longrightarrow> scheme url = s"
    and "into_endpoint parse sch address = Inr e"
  shows "parse_kind scheme e = Inr (case sch of Ws \<Rightarrow> KindWs | Wss \<Rightarrow> KindWss)"
proof -
  obtain url where url: "parse (scheme_prefix sch @ address) = Some url" "e = endpoint_new url"
    using assms(2) by auto
  have "scheme url = (case sch of Ws \<Rightarrow> ''ws'' | Wss \<Rightarrow> ''wss'')"
    using url(1) assms(1) [of "''ws''" address url] assms(1) [of "''wss''" address url]
    by (cases sch) (simp_all add: scheme_prefix_def)
  with url(2) show ?thesis
    by (cases sch) (simp_all add: parse_kind_def endpoint_kind_of_def endpoint_new_def)
qed

theorem endpoint_kind_is_scheme_witness:
  "parse_kind (takeWhile (\<lambda>c. c \<noteq> CHR '':'')) (endpoint_new ''ws://localhost:8000/acme/rpc'') = Inr KindWs"
proof -
  have "takeWhile (\<lambda>c. c \<noteq> CHR '':'') url = s"
    if "s \<in> {''ws'', ''wss''}" "Some (s @ ''://'' @ rest) = Some url" for s rest url :: string
    using that by auto
  from endpoint_kind_is_scheme [of Some "takeWhile (\<lambda>c. c \<noteq> CHR '':'')" Ws "''localhost:8000/acme/rpc''",
      OF this]
  show ?thesis by (simp add: scheme_prefix_def)
qed

end
