(* ===== verification/Client.thy ===== *)
theory Client
  imports Router_Wasm Endpoint
begin

text \<open>
  The client library: \<open>src/api/src/lib.rs\<close> (connecting), \<open>conn.rs\<close> (sending a request and
  awaiting its response) and \<open>method/\<close> (authenticate, login, query, stream, listen).  A client is
  what a \<open>TenantDB\<close> and its clones share; the routes and parameters it hands to the router's task
  are recorded.  What the other side does is a parameter: whether the router still takes routes and
  parameters, and what arrives on the response channel of a route (\<open>None\<close>: the channel is dropped).
\<close>

section \<open>State\<close>

record router_handle =
  rh_last_id :: "64 word"
  rh_capacity :: "nat option"

record client =
  cl_router :: "router_handle option"
  cl_params :: bool
  cl_waiter :: "wait_for option"
  cl_fresh :: chan
  cl_sent_routes :: "route list"
  cl_sent_params :: "param list"

record net =
  net_routes_open :: bool
  net_params_open :: bool
  net_answer :: "route \<Rightarrow> query_result option"

text \<open>Errors of a call: the route is not taken, the response channel is dropped, the server reports a
  failure, its value is not of the expected type.\<close>

datatype client_error = SendFailed | RecvFailed | ServerFailed failure | BadReply

text \<open>\<open>OnceLock::extract\<close>.\<close>

definition extract_router :: "client \<Rightarrow> router_handle outcome" where
  "extract_router c = (case cl_router c of None \<Rightarrow> Panic | Some h \<Rightarrow> Returned h)"

section \<open>Requests\<close>

definition router_send ::
    "net \<Rightarrow> request_data \<Rightarrow> router_handle \<Rightarrow> client \<Rightarrow> (client_error + route) \<times> client" where
  "router_send net data h c =
     (case make_route (rh_last_id h) data (cl_fresh c) of (r, last') \<Rightarrow>
        let c1 = c\<lparr>cl_router := Some (h\<lparr>rh_last_id := last'\<rparr>), cl_fresh := Suc (cl_fresh c)\<rparr>
        in if net_routes_open net then (Inr r, c1\<lparr>cl_sent_routes := cl_sent_routes c1 @ [r]\<rparr>)
           else (Inl SendFailed, c1))"

definition recv_query :: "net \<Rightarrow> route \<Rightarrow> client_error + query_result" where
  "recv_query net r = (case net_answer net r of None \<Rightarrow> Inl RecvFailed | Some res \<Rightarrow> Inr res)"

definition execute_query ::
    "(json \<Rightarrow> 'a option) \<Rightarrow> net \<Rightarrow> request_data \<Rightarrow> router_handle \<Rightarrow> client \<Rightarrow> (client_error + 'a) \<times> client" where
  "execute_query from_value net data h c =
     (case router_send net data h c of
        (Inl e, c1) \<Rightarrow> (Inl e, c1)
      | (Inr r, c1) \<Rightarrow>
          (case recv_query net r of
             Inl e \<Rightarrow> Inl e
           | Inr (Inl f) \<Rightarrow> Inl (ServerFailed f)
           | Inr (Inr v) \<Rightarrow> (case from_value v of None \<Rightarrow> Inl BadReply | Some x \<Rightarrow> Inr x), c1))"

text \<open>\<open>param_tx.as_ref().unwrap().try_send(..).unwrap()\<close>, and the same with \<open>send\<close>: the channel
  is unbounded, so both fail only when the router is gone.\<close>

definition send_param :: "net \<Rightarrow> param \<Rightarrow> client \<Rightarrow> unit outcome \<times> client" where
  "send_param net p c =
     (if cl_params c \<and> net_params_open net
      then (Returned (), c\<lparr>cl_sent_params := cl_sent_params c @ [p]\<rparr>)
      else (Panic, c))"

section \<open>Methods\<close>

definition bind_param :: "sql_value \<Rightarrow> query_params \<Rightarrow> query_params" where
  "bind_param v p = p\<lparr>query_variables := query_variables p @ [v]\<rparr>"

definition query_call ::
    "(json \<Rightarrow> 'a option) \<Rightarrow> net \<Rightarrow> query_params \<Rightarrow> client \<Rightarrow> (client_error + 'a) outcome \<times> client" where
  "query_call from_value net p c =
     (case extract_router c of
        Panic \<Rightarrow> (Panic, c)
      | Returned h \<Rightarrow> (case execute_query from_value net (Query p) h c of (r, c1) \<Rightarrow> (Returned r, c1)))"

definition authenticate_call :: "net \<Rightarrow> string \<Rightarrow> client \<Rightarrow> (client_error + unit) outcome \<times> client" where
  "authenticate_call net tok c =
     (case extract_router c of
        Panic \<Rightarrow> (Panic, c)
      | Returned h \<Rightarrow>
          (case execute_query Some net (Authenticate tok) h c of (_, c1) \<Rightarrow>
             (case send_param net (param_token tok) c1 of
                (Panic, c2) \<Rightarrow> (Panic, c2)
              | (Returned _, c2) \<Rightarrow> (Returned (Inr ()), c2))))"

record login_claims =
  lc_id :: nat
  lc_is_root :: bool
  lc_name :: string
  lc_org :: string

record login_response =
  lr_claims :: login_claims
  lr_token :: string

definition dec_usize :: "json option \<Rightarrow> nat option" where
  "dec_usize j =
     (case j of
        Some (JNum (NInt n)) \<Rightarrow> if 0 \<le> n \<and> n < 2 ^ 64 then Some (nat n) else None
      | _ \<Rightarrow> None)"

definition dec_bool :: "json option \<Rightarrow> bool option" where
  "dec_bool j = (case j of Some (JBool b) \<Rightarrow> Some b | _ \<Rightarrow> None)"

definition dec_login_claims :: "json \<Rightarrow> login_claims option" where
  "dec_login_claims j =
     (case struct_fields [''id'', ''is_root'', ''name'', ''org''] j of
        Some [i, r, n, g] \<Rightarrow>
          (case (dec_usize i, dec_bool r, dec_string n, dec_string g) of
             (Some i, Some r, Some n, Some g) \<Rightarrow>
               Some \<lparr>lc_id = i, lc_is_root = r, lc_name = n, lc_org = g\<rparr>
           | _ \<Rightarrow> None)
      | _ \<Rightarrow> None)"

definition dec_login_response :: "json \<Rightarrow> login_response option" where
  "dec_login_response j =
     (case struct_fields [''claims'', ''token''] j of
        Some [Some k, t] \<Rightarrow>
          (case (dec_login_claims k, dec_string t) of
             (Some k, Some t) \<Rightarrow> Some \<lparr>lr_claims = k, lr_token = t\<rparr>
           | _ \<Rightarrow> None)
      | _ \<Rightarrow> None)"

definition login_call :: "net \<Rightarrow> string \<Rightarrow> string \<Rightarrow> client \<Rightarrow> (client_error + login_response) outcome \<times> client" where
  "login_call net username password c =
     (case extract_router c of
        Panic \<Rightarrow> (Panic, c)
      | Returned h \<Rightarrow>
          (case execute_query dec_login_response net
                  (Login \<lparr>lp_username = username, lp_password = password\<rparr>) h c of
             (Inl e, c1) \<Rightarrow> (Returned (Inl e), c1)
           | (Inr res, c1) \<Rightarrow>
               (case send_param net (param_token (lr_token res)) c1 of
                  (Panic, c2) \<Rightarrow> (Panic, c2)
                | (Returned _, c2) \<Rightarrow> (Returned (Inr res), c2))))"

text \<open>A stream's id is drawn with \<open>Uuid::new_v4\<close>; its channel is handed to the router before the
  request is sent.\<close>

definition stream_call ::
    "(string \<Rightarrow> uuid option) \<Rightarrow> net \<Rightarrow> uuid \<Rightarrow> query_params \<Rightarrow> client \<Rightarrow>
     (client_error + uuid \<times> chan) outcome \<times> client" where
  "stream_call parse_uuid net i p c =
     (case extract_router c of
        Panic \<Rightarrow> (Panic, c)
      | Returned h \<Rightarrow>
          let tx = cl_fresh c
          in case send_param net (param_stream i tx) (c\<lparr>cl_fresh := Suc tx\<rparr>) of
               (Panic, c1) \<Rightarrow> (Panic, c1)
             | (Returned _, c1) \<Rightarrow>
                 (case execute_query (\<lambda>j. Option.bind (as_str j) parse_uuid) net
                         (QueryStream \<lparr>qsp_id = i, qsp_params = p\<rparr>) h c1 of
                    (Inl e, c2) \<Rightarrow> (Returned (Inl e), c2)
                  | (Inr _, c2) \<Rightarrow> (Returned (Inr (i, tx)), c2)))"

definition listen_call :: "net \<Rightarrow> string \<Rightarrow> client \<Rightarrow> chan outcome \<times> client" where
  "listen_call net channel c =
     (let tx = cl_fresh c
      in case send_param net (param_listen channel tx) (c\<lparr>cl_fresh := Suc tx\<rparr>) of
           (Panic, c1) \<Rightarrow> (Panic, c1)
         | (Returned _, c1) \<Rightarrow> (Returned tx, c1))"

section \<open>Streams\<close>

text \<open>\<open>QueryStream::poll_next\<close> on what its channel has (\<open>None\<close>: the channel is closed and
  empty), and what a consumer gets that polls until the first \<open>None\<close>.\<close>

definition poll_next ::
    "(json \<Rightarrow> 'a option) \<Rightarrow> query_stream_notification option \<Rightarrow> 'a option" where
  "poll_next from_value n = Option.bind n (\<lambda>n. Option.bind (qsn_data n) from_value)"

fun collect :: "(json \<Rightarrow> 'a option) \<Rightarrow> query_stream_notification list \<Rightarrow> 'a list" where
  "collect from_value [] = []"
| "collect from_value (n # ns) =
     (case poll_next from_value (Some n) of None \<Rightarrow> [] | Some x \<Rightarrow> x # collect from_value ns)"

section \<open>Connecting\<close>

record connect_options =
  co_token :: "string option"
  co_capacity :: nat

definition connect_options_default :: connect_options where
  "connect_options_default = \<lparr>co_token = None, co_capacity = 0\<rparr>"

definition with_token :: "string \<Rightarrow> connect_options \<Rightarrow> connect_options" where
  "with_token t opts = opts\<lparr>co_token := Some t\<rparr>"

definition with_capacity :: "nat \<Rightarrow> connect_options \<Rightarrow> connect_options" where
  "with_capacity n opts = opts\<lparr>co_capacity := n\<rparr>"

definition client_init :: client where
  "client_init = \<lparr>cl_router = None, cl_params = False, cl_waiter = None, cl_fresh = 0,
     cl_sent_routes = [], cl_sent_params = []\<rparr>"

definition new_from_router_waiter :: "router_handle \<Rightarrow> wait_for option \<Rightarrow> client" where
  "new_from_router_waiter h w = \<lparr>cl_router = Some h, cl_params = True, cl_waiter = w, cl_fresh = 0,
     cl_sent_routes = [], cl_sent_params = []\<rparr>"

text \<open>\<open>native.rs\<close>, \<open>Connection::connect\<close>: the client, and the router's task on the new socket.\<close>

definition native_connect ::
    "(string \<Rightarrow> bool) \<Rightarrow> nat \<Rightarrow> connect_options \<Rightarrow> string + nat \<Rightarrow> failure + (client \<times> router_phase)" where
  "native_connect header_ok now opts answer =
     (case connect header_ok (co_token opts) answer of
        Inl err \<Rightarrow> Inl (custom err)
      | Inr sock \<Rightarrow>
          let capacity = (if co_capacity opts = 0 then None else Some (co_capacity opts))
          in Inr (new_from_router_waiter \<lparr>rh_last_id = 0, rh_capacity = capacity\<rparr> (Some WaitConnection),
               Running (enter_router now (router_state_new sock now))))"

text \<open>\<open>wasm.rs\<close>: the router's task connects by itself and reports how that went.\<close>

definition wasm_connect ::
    "(string \<Rightarrow> json option) \<Rightarrow> (string \<Rightarrow> uuid option) \<Rightarrow> (chan \<Rightarrow> bool) \<Rightarrow> nat \<Rightarrow> connect_options \<Rightarrow>
     wasm_answer \<Rightarrow> failure + (client \<times> router_phase)" where
  "wasm_connect pj pu alive now opts answer =
     (case wasm_run_router pj pu (co_token opts) alive now answer [] of
        Inl f \<Rightarrow> Inl f
      | Inr task \<Rightarrow>
          let capacity = (if co_capacity opts = 0 then None else Some (co_capacity opts))
          in Inr (new_from_router_waiter \<lparr>rh_last_id = 0, rh_capacity = capacity\<rparr> (Some WaitConnection), task))"

text \<open>\<open>TenantDB::new(address).with_token(..).await\<close>.\<close>

definition connect_new ::
    "(string \<Rightarrow> bool) \<Rightarrow> net \<Rightarrow> nat \<Rightarrow> connect_options \<Rightarrow> string + nat \<Rightarrow> failure + 'u endpoint \<Rightarrow>
     (failure + (client \<times> router_phase)) outcome" where
  "connect_new header_ok net now opts answer address =
     (case address of
        Inl f \<Rightarrow> Returned (Inl f)
      | Inr endpoint \<Rightarrow>
          (case native_connect header_ok now opts answer of
             Inl f \<Rightarrow> Returned (Inl f)
           | Inr (c, task) \<Rightarrow>
               (case co_token opts of
                  None \<Rightarrow> Returned (Inr (c\<lparr>cl_waiter := Some WaitConnection\<rparr>, task))
                | Some tok \<Rightarrow>
                    (case send_param net (param_token tok) c of
                       (Panic, _) \<Rightarrow> Panic
                     | (Returned _, c1) \<Rightarrow> Returned (Inr (c1\<lparr>cl_waiter := Some WaitConnection\<rparr>, task))))))"

text \<open>\<open>TenantDB::init()\<close> followed by \<open>connect(address, opts).await\<close>: only the router of the new
  client is kept.\<close>

definition connect_unit ::
    "(string \<Rightarrow> bool) \<Rightarrow> nat \<Rightarrow> connect_options \<Rightarrow> string + nat \<Rightarrow> failure + 'u endpoint \<Rightarrow> client \<Rightarrow>
     (failure + unit) \<times> client" where
  "connect_unit header_ok now opts answer address c =
     (if cl_router c \<noteq> None then (Inl (custom ''Already connected''), c)
      else case address of
        Inl f \<Rightarrow> (Inl f, c)
      | Inr endpoint \<Rightarrow>
          (case native_connect header_ok now opts answer of
             Inl f \<Rightarrow> (Inl f, c)
           | Inr (new, task) \<Rightarrow>
               (Inr (), c\<lparr>cl_router := cl_router new, cl_waiter := Some WaitConnection\<rparr>)))"

section \<open>Starting to connect\<close>

text \<open>\<open>Connect\<close>: what a connection in the making knows.  \<open>TenantDB::new\<close> makes one with a router of
  its own, \<open>connect\<close> of an existing client one that shares the client's.\<close>

record 'u connecting =
  cn_router :: "router_handle option"
  cn_address :: "failure + 'u endpoint"
  cn_waiter :: "wait_for option"
  cn_opts :: connect_options

definition tenant_new :: "(string \<Rightarrow> 'u option) \<Rightarrow> ws_scheme \<Rightarrow> string \<Rightarrow> 'u connecting" where
  "tenant_new parse sch address =
     \<lparr>cn_router = None, cn_address = into_endpoint parse sch address, cn_waiter = None,
      cn_opts = connect_options_default\<rparr>"

definition tenant_connect ::
    "(string \<Rightarrow> 'u option) \<Rightarrow> ws_scheme \<Rightarrow> string \<Rightarrow> connect_options \<Rightarrow> client \<Rightarrow> 'u connecting" where
  "tenant_connect parse sch address opts c =
     \<lparr>cn_router = cl_router c, cn_address = into_endpoint parse sch address, cn_waiter = cl_waiter c,
      cn_opts = opts\<rparr>"

definition query_new :: "string \<Rightarrow> query_params" where
  "query_new q = query_params_new q"

text \<open>\<open>TenantDB::new::<Ws>(address).with_token(token).await\<close>.\<close>

definition connect_with_token ::
    "(string \<Rightarrow> bool) \<Rightarrow> net \<Rightarrow> nat \<Rightarrow> string + nat \<Rightarrow> string \<Rightarrow> 'u connecting \<Rightarrow>
     (failure + (client \<times> router_phase)) outcome" where
  "connect_with_token header_ok net now answer tok cn =
     connect_new header_ok net now (with_token tok (cn_opts cn)) answer (cn_address cn)"

lemma bad_address_fails:
  "parse (scheme_prefix sch @ address) = None \<Longrightarrow>
     connect_with_token header_ok net now answer tok (tenant_new parse sch address) =
       Returned (Inl (custom ''Invalid URL''))"
  by (simp add: connect_with_token_def tenant_new_def into_endpoint_def connect_new_def)

text \<open>A client that connected with a token keeps it for the router, which has taken none yet.\<close>

lemma connect_with_token_sends:
  assumes "connect_with_token header_ok net now answer tok cn = Returned (Inr (c, task))"
  shows "cl_sent_params c = [param_token tok] \<and> (\<exists>s. task = Running s \<and> token s = None)"
  using assms
  by (auto simp: connect_with_token_def connect_new_def with_token_def native_connect_def Let_def
      new_from_router_waiter_def send_param_def enter_router_def split: sum.splits if_splits)

end
