(* ===== verification/Router_Safety.thy ===== *)
theory Router_Safety
  imports Router_Wasm
begin

text \<open>
  What the client's router guarantees its callers: a response reaches the caller of the request it
  answers, and only once; ids do not repeat.  And what a reconnection costs them.
\<close>

section \<open>Request ids\<close>

fun ids_from :: "64 word \<Rightarrow> nat \<Rightarrow> string list" where
  "ids_from last_id 0 = []"
| "ids_from last_id (Suc n) =
     (case next_id last_id of (i, last') \<Rightarrow> int_text (sint i) # ids_from last' n)"

lemma ids_from_nth: "k < n \<Longrightarrow> ids_from w n ! k = int_text (sint (w + of_nat k))"
proof (induction n arbitrary: k w)
  case (Suc n)
  then show ?case by (cases k) (simp_all add: next_id_def add.assoc)
qed simp

lemma length_ids_from [simp]: "length (ids_from w n) = n"
  by (induction n arbitrary: w) (simp_all add: next_id_def)

lemma of_nat_word_inject:
  assumes "a < 2 ^ 64" "b < 2 ^ 64" "(of_nat a :: 64 word) = of_nat b"
  shows "a = b"
  using arg_cong [OF assms(3), of unat] assms(1,2) by (simp add: unat_of_nat)

text \<open>Request ids do not repeat before the counter has gone through all its \<open>2 ^ 64\<close> values, the
  wrap from the largest to the smallest integer included.\<close>

theorem request_ids_distinct:
  assumes "n \<le> 2 ^ 64"
  shows "distinct (ids_from w n)"
proof -
  have "a = b" if "a < n" "b < n" "ids_from w n ! a = ids_from w n ! b" for a b
  proof -
    from that have "sint (w + of_nat a) = sint (w + of_nat b)" by (simp add: ids_from_nth)
    then have "(of_int (sint (w + of_nat a)) :: 64 word) = of_int (sint (w + of_nat b))" by simp
    then have "w + of_nat a = w + of_nat b" by (simp add: scast_id)
    then have "(of_nat a :: 64 word) = of_nat b" by simp
    then show ?thesis using that assms by (intro of_nat_word_inject) simp_all
  qed
  then show ?thesis by (auto simp: distinct_conv_nth)
qed

theorem request_ids_distinct_witness:
  "distinct (ids_from (2 ^ 63 - 1) 3)"
  by (rule request_ids_distinct) simp

section \<open>Responses\<close>

fun phase_state :: "router_phase \<Rightarrow> router_state option" where
  "phase_state (Running s) = Some s"
| "phase_state (Reconnecting s) = Some s"
| "phase_state (Quit s) = Some s"
| "phase_state Crashed = None"

text \<open>The routes whose request was sent, and the responses that came, in a list of inputs.\<close>

definition routed :: "(nat \<times> router_input) list \<Rightarrow> route \<Rightarrow> bool" where
  "routed inputs r \<longleftrightarrow> (\<exists>now. (now, Select (GotRoute r True)) \<in> set inputs)"

definition answered ::
    "(string \<Rightarrow> json option) \<Rightarrow> (string \<Rightarrow> uuid option) \<Rightarrow> (nat \<times> router_input) list \<Rightarrow> response \<Rightarrow> bool" where
  "answered pj pu inputs r \<longleftrightarrow>
     (\<exists>now m. (now, Select (GotMessage m)) \<in> set inputs \<and>
        try_from_message pj pu m = Returned (Inr (Some (QueryResponse r))))"

definition routes_justified :: "(nat \<times> router_input) list \<Rightarrow> router_state \<Rightarrow> bool" where
  "routes_justified inputs s \<longleftrightarrow> (\<forall>i c. routes s i = Some c \<longrightarrow>
     (\<exists>r. routed inputs r \<and> req_id (rt_request r) = i \<and> rt_response r = c))"

definition deliveries_justified ::
    "(string \<Rightarrow> json option) \<Rightarrow> (string \<Rightarrow> uuid option) \<Rightarrow> (nat \<times> router_input) list \<Rightarrow> router_state \<Rightarrow> bool" where
  "deliveries_justified pj pu inputs s \<longleftrightarrow> (\<forall>c res. ToCaller c res \<in> set (delivered s) \<longrightarrow>
     (\<exists>r. routed inputs r \<and> rt_response r = c \<and>
        answered pj pu inputs \<lparr>resp_id = req_id (rt_request r), resp_result = res\<rparr>))"

definition justified ::
    "(string \<Rightarrow> json option) \<Rightarrow> (string \<Rightarrow> uuid option) \<Rightarrow> (nat \<times> router_input) list \<Rightarrow> router_state \<Rightarrow> bool" where
  "justified pj pu inputs s \<longleftrightarrow> routes_justified inputs s \<and> deliveries_justified pj pu inputs s"

lemma routed_more: "routed inputs r \<Longrightarrow> routed (inputs @ later) r"
  by (auto simp: routed_def)

lemma answered_more: "answered pj pu inputs r \<Longrightarrow> answered pj pu (inputs @ later) r"
  by (auto simp: answered_def)

lemma justified_more: "justified pj pu inputs s \<Longrightarrow> justified pj pu (inputs @ later) s"
  unfolding justified_def routes_justified_def deliveries_justified_def
  by (meson routed_more answered_more)

lemma justified_cong:
  "justified pj pu inputs s \<Longrightarrow> routes s' = routes s \<Longrightarrow> delivered s' = delivered s \<Longrightarrow>
     justified pj pu inputs s'"
  by (simp add: justified_def routes_justified_def deliveries_justified_def)

lemma justified_enter:
  "justified pj pu inputs s \<Longrightarrow> delivered s' = delivered s \<Longrightarrow> justified pj pu inputs (enter_router now s')"
  by (simp add: justified_def routes_justified_def deliveries_justified_def enter_router_def)

lemma handle_param_frame [simp]:
  "routes (handle_param p s) = routes s" "delivered (handle_param p s) = delivered s"
  by (simp_all add: handle_param_def Let_def split: option.split prod.split)

lemma justified_route:
  assumes "justified pj pu inputs s" "routed inputs r" "router_handle_route True now r s = (h, s')"
  shows "justified pj pu inputs s'"
proof -
  have same: "delivered s' = delivered s"
    and routes': "routes s' = (routes s)(req_id (rt_request r) \<mapsto> rt_response r) \<or> routes s' = routes s"
    using assms(3) by (cases "routes s (req_id (rt_request r))";
      force simp: router_handle_route_def Let_def)+
  show ?thesis
    using assms(1,2) routes' unfolding justified_def routes_justified_def deliveries_justified_def same
    by (auto split: if_splits)
qed

lemma justified_dispatch:
  assumes "justified pj pu inputs s"
    and "\<And>r. response = QueryResponse r \<Longrightarrow> answered pj pu inputs r"
  shows "justified pj pu inputs (dispatch alive response s)"
proof (cases response)
  case (QueryResponse r)
  show ?thesis
  proof (cases "routes s (resp_id r)")
    case None
    with assms(1) QueryResponse show ?thesis by simp
  next
    case (Some c)
    then obtain rt where "routed inputs rt" "req_id (rt_request rt) = resp_id r" "rt_response rt = c"
      using assms(1) by (auto simp: justified_def routes_justified_def)
    moreover have "answered pj pu inputs \<lparr>resp_id = resp_id r, resp_result = resp_result r\<rparr>"
      using assms(2) [OF QueryResponse] by (cases r) simp
    ultimately have "\<exists>rt. routed inputs rt \<and> rt_response rt = c \<and>
        answered pj pu inputs \<lparr>resp_id = req_id (rt_request rt), resp_result = resp_result r\<rparr>"
      by metis
    with assms(1) Some QueryResponse show ?thesis
      by (auto simp: justified_def routes_justified_def deliveries_justified_def deliver_def Let_def
          split: if_splits)
  qed
qed (use assms(1) in \<open>auto simp: justified_def routes_justified_def deliveries_justified_def deliver_def
    split: option.split\<close>)

lemma justified_response:
  assumes "justified pj pu inputs s" "(now, Select (GotMessage m)) \<in> set inputs"
    and "router_handle_response pj pu alive m s = Returned (h, s')"
  shows "justified pj pu inputs s'"
proof -
  obtain res where res: "try_from_message pj pu m = Returned res"
    and s': "s' = (case res of Inl _ \<Rightarrow> s | Inr None \<Rightarrow> s | Inr (Some response) \<Rightarrow> dispatch alive response s)"
    using assms(3) by (auto simp: router_handle_response_def)
  have "answered pj pu inputs r" if "res = Inr (Some (QueryResponse r))" for r
    using assms(2) res that by (auto simp: answered_def)
  with assms(1) show ?thesis
    unfolding s' by (auto simp: justified_dispatch split: sum.split option.split)
qed

definition phase_justified ::
    "(string \<Rightarrow> json option) \<Rightarrow> (string \<Rightarrow> uuid option) \<Rightarrow> (nat \<times> router_input) list \<Rightarrow> router_phase \<Rightarrow> bool" where
  "phase_justified pj pu inputs p \<longleftrightarrow> (\<forall>s. phase_state p = Some s \<longrightarrow> justified pj pu inputs s)"

lemma phase_justified_simps [simp]:
  "phase_justified pj pu inputs (Running s) = justified pj pu inputs s"
  "phase_justified pj pu inputs (Reconnecting s) = justified pj pu inputs s"
  "phase_justified pj pu inputs (Quit s) = justified pj pu inputs s"
  "phase_justified pj pu inputs Crashed"
  by (simp_all add: phase_justified_def)

lemma select_justified:
  assumes "justified pj pu inputs s" "(now, Select ev) \<in> set inputs"
  shows "phase_justified pj pu inputs (select_step pj pu alive now ev s)"
proof (cases ev)
  case (GotParam p)
  with assms(1) show ?thesis by (auto intro: justified_cong)
next
  case (GotRoute r sent_ok)
  show ?thesis
  proof (cases sent_ok)
    case True
    with assms GotRoute have "routed inputs r" by (auto simp: routed_def)
    with justified_route [OF assms(1)] GotRoute True show ?thesis
      by (auto split: prod.split handle_result.split)
  next
    case False
    with GotRoute assms(1) show ?thesis by (simp add: router_handle_route_def)
  qed
next
  case (RoutesClosed sent_ok)
  with assms(1) show ?thesis by (auto intro: justified_cong)
next
  case (GotMessage m)
  let ?s = "s\<lparr>last_activity := now\<rparr>"
  have "justified pj pu inputs ?s" by (rule justified_cong [OF assms(1)]) simp_all
  with justified_response [OF this assms(2) [unfolded GotMessage]] GotMessage show ?thesis
    by (auto split: outcome.split prod.split handle_result.split)
next
  case (Tick sent_ok)
  with assms(1) show ?thesis by (auto intro: justified_cong)
qed (use assms(1) in \<open>auto intro: justified_cong\<close>)

lemma router_step_justified:
  assumes "phase_justified pj pu inputs p"
  shows "phase_justified pj pu (inputs @ [input]) (router_step pj pu header_ok alive input p)"
proof -
  have later: "phase_justified pj pu (inputs @ [input]) p"
    using assms justified_more by (auto simp: phase_justified_def)
  obtain now i where input: "input = (now, i)" by fastforce
  show ?thesis
  proof (cases p)
    case (Running s)
    with later show ?thesis
      by (cases i) (auto simp: input intro: select_justified)
  next
    case (Reconnecting s)
    with later show ?thesis
      by (cases i) (auto simp: input reconnect_step_def Let_def intro: justified_cong justified_enter
          split: sum.split)
  qed (use later in \<open>cases i; simp add: input\<close>)+
qed

lemma run_router_justified:
  "phase_justified pj pu inputs (run_router pj pu header_ok alive sock now inputs)"
proof (induction inputs rule: rev_induct)
  case Nil
  then show ?case
    by (simp add: run_router_def justified_def routes_justified_def deliveries_justified_def
        enter_router_def router_state_new_def)
next
  case (snoc input inputs)
  then show ?case using router_step_justified by (simp add: run_router_def)
qed

text \<open>What a caller receives is the answer to its own request: every result the router delivers on a
  response channel came in a message with the id of a request that was sent for that channel.\<close>

theorem response_reaches_its_caller:
  assumes "phase_state (run_router pj pu header_ok alive sock now inputs) = Some s"
    and "ToCaller c res \<in> set (delivered s)"
  shows "\<exists>r. routed inputs r \<and> rt_response r = c \<and>
    answered pj pu inputs \<lparr>resp_id = req_id (rt_request r), resp_result = res\<rparr>"
  using run_router_justified [of pj pu inputs header_ok alive sock now] assms
  by (auto simp: phase_justified_def justified_def deliveries_justified_def)

text \<open>A run of two requests whose answers arrive in the other order.\<close>

definition sample_route :: "string \<Rightarrow> chan \<Rightarrow> route" where
  "sample_route i c = \<lparr>rt_request = \<lparr>req_id = i, req_data = Query (query_params_new ''q'')\<rparr>, rt_response = c\<rparr>"

definition parse_ids :: "string \<Rightarrow> json option" where
  "parse_ids t = Some (enc_db_response (\<lambda>_. '''') (QueryResponse \<lparr>resp_id = t, resp_result = Inr (JStr t)\<rparr>))"

lemma parse_ids_message:
  "try_from_message parse_ids (\<lambda>_. None) (TextMsg t) =
     Returned (Inr (Some (QueryResponse \<lparr>resp_id = t, resp_result = Inr (JStr t)\<rparr>)))"
proof -
  have "dec_db_response (\<lambda>_. None) (enc_db_response (\<lambda>_. '''')
      (QueryResponse \<lparr>resp_id = t, resp_result = Inr (JStr t)\<rparr>)) =
    Some (QueryResponse \<lparr>resp_id = t, resp_result = Inr (JStr t)\<rparr>)"
    by (simp add: dec_db_response_def response_codec.dec_enc)
  moreover have "enc_db_response (\<lambda>_. '''') (QueryResponse \<lparr>resp_id = t, resp_result = Inr (JStr t)\<rparr>) \<noteq> JNull"
    by (simp add: enc_response_def)
  ultimately show ?thesis by (simp add: from_text_def parse_ids_def)
qed

definition sample_inputs :: "(nat \<times> router_input) list" where
  "sample_inputs = [(1, Select (GotRoute (sample_route ''0'' 7) True)),
     (1, Select (GotRoute (sample_route ''1'' 8) True)), (2, Select (GotMessage (TextMsg ''1''))),
     (2, Select (GotMessage (TextMsg ''0'')))]"

lemma sample_run:
  "\<exists>s. run_router parse_ids (\<lambda>_. None) (\<lambda>_. True) (\<lambda>_. True) 0 0 sample_inputs = Running s \<and>
     delivered s = [ToCaller 8 (Inr (JStr ''1'')), ToCaller 7 (Inr (JStr ''0''))]"
  by (simp add: run_router_def sample_inputs_def router_handle_route_def router_handle_response_def
      parse_ids_message sample_route_def enter_router_def router_state_new_def Let_def deliver_def
      del: try_from_message.simps)

theorem response_reaches_its_caller_witness:
  "\<exists>r. routed sample_inputs r \<and> rt_response r = 8 \<and> answered parse_ids (\<lambda>_. None) sample_inputs
     \<lparr>resp_id = req_id (rt_request r), resp_result = Inr (JStr ''1'')\<rparr>"
proof -
  obtain s where s: "run_router parse_ids (\<lambda>_. None) (\<lambda>_. True) (\<lambda>_. True) 0 0 sample_inputs = Running s"
    "ToCaller 8 (Inr (JStr ''1'')) \<in> set (delivered s)"
    using sample_run by auto
  show ?thesis
    using response_reaches_its_caller [OF _ s(2), of parse_ids "\<lambda>_. None" "\<lambda>_. True" "\<lambda>_. True" 0 0 sample_inputs]
      s(1) by simp
qed

section \<open>At most one response\<close>

fun caller :: "delivery \<Rightarrow> chan option" where
  "caller (ToCaller c res) = Some c"
| "caller (ToStream c n) = None"
| "caller (ToListener c t) = None"

definition callers :: "router_state \<Rightarrow> chan list" where
  "callers s = List.map_filter caller (delivered s)"

fun route_chan :: "nat \<times> router_input \<Rightarrow> chan option" where
  "route_chan (now, Select (GotRoute r sent_ok)) = Some (rt_response r)"
| "route_chan _ = None"

text \<open>The response channels the inputs ask for; every request makes a channel of its own.\<close>

definition route_chans :: "(nat \<times> router_input) list \<Rightarrow> chan list" where
  "route_chans inputs = List.map_filter route_chan inputs"

definition once :: "chan set \<Rightarrow> router_state \<Rightarrow> bool" where
  "once used s \<longleftrightarrow> distinct (callers s) \<and> set (callers s) \<union> ran (routes s) \<subseteq> used \<and>
     set (callers s) \<inter> ran (routes s) = {} \<and> inj_on (routes s) (dom (routes s))"

definition phase_once :: "chan set \<Rightarrow> router_phase \<Rightarrow> bool" where
  "phase_once used p \<longleftrightarrow> (\<forall>s. phase_state p = Some s \<longrightarrow> once used s)"

lemma phase_once_simps [simp]:
  "phase_once used (Running s) = once used s" "phase_once used (Reconnecting s) = once used s"
  "phase_once used (Quit s) = once used s" "phase_once used Crashed"
  by (simp_all add: phase_once_def)

lemma once_cong:
  "once used s \<Longrightarrow> routes s' = routes s \<Longrightarrow> delivered s' = delivered s \<Longrightarrow> used \<subseteq> used' \<Longrightarrow> once used' s'"
  by (auto simp: once_def callers_def)

lemma map_filter_append: "List.map_filter f (xs @ ys) = List.map_filter f xs @ List.map_filter f ys"
  by (simp add: map_filter_def)

lemma callers_simps [simp]:
  "callers (deliver d s) = callers s @ (case caller d of None \<Rightarrow> [] | Some c \<Rightarrow> [c])"
  "callers (s\<lparr>routes := rs\<rparr>) = callers s" "callers (s\<lparr>live_queries := lq\<rparr>) = callers s"
  "callers (s\<lparr>channels := cs\<rparr>) = callers s" "routes (deliver d s) = routes s"
  by (simp_all add: callers_def deliver_def map_filter_append List.map_filter_simps split: option.split)

lemma once_dispatch:
  assumes "once used s"
  shows "once used (dispatch alive response s)"
proof (cases response)
  case (QueryResponse r)
  show ?thesis
  proof (cases "routes s (resp_id r)")
    case None
    with assms QueryResponse show ?thesis by simp
  next
    case (Some c)
    let ?s1 = "s\<lparr>routes := (routes s)(resp_id r := None)\<rparr>"
    have c: "c \<in> ran (routes s)" "c \<notin> ran ((routes s)(resp_id r := None))"
    proof -
      show "c \<in> ran (routes s)" using Some by (rule ranI)
      show "c \<notin> ran ((routes s)(resp_id r := None))"
      proof
        assume "c \<in> ran ((routes s)(resp_id r := None))"
        then obtain i where "i \<noteq> resp_id r" "routes s i = Some c" by (auto simp: ran_def split: if_splits)
        with Some assms show False by (auto simp: once_def inj_on_def dom_def)
      qed
    qed
    have sub: "ran ((routes s)(resp_id r := None)) \<subseteq> ran (routes s)" by (auto simp: ran_def)
    have inj: "inj_on ((routes s)(resp_id r := None)) (dom ((routes s)(resp_id r := None)))"
      using assms by (auto simp: once_def inj_on_def dom_def)
    have "once used ?s1"
      using assms sub inj by (auto simp: once_def)
    moreover have "once used (deliver (ToCaller c (resp_result r)) ?s1)"
      using assms sub inj c by (auto simp: once_def)
    ultimately show ?thesis using QueryResponse Some by (simp add: Let_def)
  qed
next
  case (QueryStreamNotification n)
  then show ?thesis using assms
    by (auto simp: once_def split: option.split)
next
  case (ListenChanel l)
  then show ?thesis using assms
    by (auto simp: once_def split: option.split)
qed


lemma once_route:
  assumes "once used s" "rt_response r \<notin> used" "router_handle_route sent_ok now r s = (h, s')"
  shows "once (insert (rt_response r) used) s'"
proof -
  have same: "delivered s' = delivered s"
    and routes': "routes s (req_id (rt_request r)) = None \<and>
        routes s' = (routes s)(req_id (rt_request r) \<mapsto> rt_response r) \<or> routes s' = routes s"
    using assms(3) by (cases "routes s (req_id (rt_request r))";
      force simp: router_handle_route_def Let_def split: if_splits)+
  have callers': "callers s' = callers s" by (simp add: callers_def same)
  from routes' show ?thesis
  proof
    assume new: "routes s (req_id (rt_request r)) = None \<and>
        routes s' = (routes s)(req_id (rt_request r) \<mapsto> rt_response r)"
    have "rt_response r \<notin> ran (routes s)" "rt_response r \<notin> set (callers s)"
      using assms(1,2) by (auto simp: once_def)
    with assms(1) new show ?thesis
      by (auto simp: once_def callers' ran_def inj_on_def dom_def)
  next
    assume "routes s' = routes s"
    with assms(1) show ?thesis by (auto simp: once_def callers')
  qed
qed

lemma once_response:
  assumes "once used s" "router_handle_response pj pu alive m s = Returned (h, s')"
  shows "once used s'"
proof -
  have "\<exists>res. s' = (case res of Inl (e :: string) \<Rightarrow> s | Inr None \<Rightarrow> s
      | Inr (Some response) \<Rightarrow> dispatch alive response s)"
    using assms(2) by (auto simp: router_handle_response_def)
  with assms(1) show ?thesis by (auto simp: once_dispatch split: sum.split option.split)
qed

lemma once_enter: "once used s \<Longrightarrow> delivered s' = delivered s \<Longrightarrow> once used (enter_router now s')"
  by (auto simp: once_def enter_router_def callers_def)

lemma router_step_once:
  assumes "phase_once used p" "\<And>c. route_chan input = Some c \<Longrightarrow> c \<notin> used"
  shows "phase_once (used \<union> set_option (route_chan input)) (router_step pj pu header_ok alive input p)"
proof -
  obtain now i where input: "input = (now, i)" by fastforce
  have kept: "phase_once (used \<union> A) p" for A
    using assms(1) by (auto simp: phase_once_def intro: once_cong)
  show ?thesis
  proof (cases p)
    case (Running s)
    then have s: "once used s" using assms(1) by simp
    show ?thesis
    proof (cases i)
      case (Select ev)
      show ?thesis
      proof (cases ev)
        case (GotRoute r sent_ok)
        obtain h s' where "router_handle_route sent_ok now r s = (h, s')" by fastforce
        with once_route [OF s _ this] assms(2) show ?thesis
          using Running Select GotRoute input by (cases h) (auto simp: Un_commute)
      next
        case (GotMessage m)
        have "once used (s\<lparr>last_activity := now\<rparr>)" by (rule once_cong [OF s]) simp_all
        from once_response [OF this] show ?thesis
          using Running Select GotMessage input
          by (auto split: outcome.split prod.split handle_result.split)
      qed (use Running Select input s in \<open>auto intro: once_cong\<close>)
    next
      case (ConnectAnswer a)
      with Running input s show ?thesis by simp
    qed
  next
    case (Reconnecting s)
    then have s: "once used s" using assms(1) by simp
    with Reconnecting show ?thesis
      by (cases i) (auto simp: input reconnect_step_def Let_def split: sum.split
          intro: once_cong once_enter kept [unfolded Reconnecting])
  next
    case (Quit s)
    with kept [of "set_option (route_chan input)"] show ?thesis by (simp add: input)
  next
    case Crashed
    then show ?thesis by (simp add: input)
  qed
qed


lemma run_router_once:
  "distinct (route_chans inputs) \<Longrightarrow>
     phase_once (set (route_chans inputs)) (run_router pj pu header_ok alive sock now inputs)"
proof (induction inputs rule: rev_induct)
  case Nil
  then show ?case
    by (simp add: run_router_def once_def callers_def enter_router_def router_state_new_def
        List.map_filter_simps)
next
  case (snoc input inputs)
  have split: "route_chans (inputs @ [input]) =
      route_chans inputs @ (case route_chan input of None \<Rightarrow> [] | Some c \<Rightarrow> [c])"
    by (simp add: route_chans_def map_filter_append List.map_filter_simps split: option.split)
  let ?p = "run_router pj pu header_ok alive sock now inputs"
  have "phase_once (set (route_chans inputs)) ?p" using snoc split by simp
  moreover have "c \<notin> set (route_chans inputs)" if "route_chan input = Some c" for c
    using snoc.prems split that by simp
  ultimately have "phase_once (set (route_chans inputs) \<union> set_option (route_chan input))
      (router_step pj pu header_ok alive input ?p)"
    by (rule router_step_once)
  then show ?case
    by (cases "route_chan input") (simp_all add: run_router_def split)
qed

text \<open>A caller is answered at most once: when every request comes with a response channel of its
  own, as \<open>Router::send\<close> makes one, no response channel is used for two results, whatever the
  server sends.\<close>

theorem caller_answered_at_most_once:
  assumes "distinct (route_chans inputs)"
    and "phase_state (run_router pj pu header_ok alive sock now inputs) = Some s"
  shows "distinct (callers s)"
  using run_router_once [OF assms(1), of pj pu header_ok alive sock now] assms(2)
  by (auto simp: phase_once_def once_def)

theorem caller_answered_at_most_once_witness:
  "\<exists>s. run_router parse_ids (\<lambda>_. None) (\<lambda>_. True) (\<lambda>_. True) 0 0
      (sample_inputs @ [(3, Select (GotMessage (TextMsg ''0'')))]) = Running s \<and>
    callers s = [8, 7] \<and> distinct (callers s)"
proof -
  let ?inputs = "sample_inputs @ [(3, Select (GotMessage (TextMsg ''0'')))]"
  have chans: "distinct (route_chans ?inputs)"
    by (simp add: sample_inputs_def route_chans_def List.map_filter_simps sample_route_def)
  obtain s where s: "run_router parse_ids (\<lambda>_. None) (\<lambda>_. True) (\<lambda>_. True) 0 0 ?inputs = Running s"
    "callers s = [8, 7]"
    by (simp add: run_router_def sample_inputs_def router_handle_route_def router_handle_response_def
      parse_ids_message sample_route_def enter_router_def router_state_new_def Let_def
      callers_def deliver_def List.map_filter_simps del: try_from_message.simps)
  with caller_answered_at_most_once [OF chans, of parse_ids "\<lambda>_. None" "\<lambda>_. True" "\<lambda>_. True" 0 0 s]
  show ?thesis by simp
qed

section \<open>Reconnection\<close>

text \<open>A successful reconnection keeps the listeners and nothing else: pending requests and streams
  lose their channels, and the token is gone.\<close>

theorem reconnect_keeps_listeners_only:
  assumes "connect header_ok (token s) answer = Inr sock"
  shows "\<exists>s'. reconnect_step header_ok now answer s = Running s' \<and> channels s' = channels s \<and>
    routes s' = Map.empty \<and> live_queries s' = Map.empty \<and> token s' = None \<and> delivered s' = delivered s \<and>
    attempts s' = attempts s @ [token s]"
  using assms by (simp add: reconnect_step_def enter_router_def Let_def)

theorem reconnect_keeps_listeners_only_witness:
  "\<exists>s'. reconnect_step (\<lambda>_. True) 4 (Inr 2)
      ((router_state_new 0 0)\<lparr>token := Some ''tok'', channels := [''db_changes'' \<mapsto> 3], routes := [''0'' \<mapsto> 5]\<rparr>)
      = Running s' \<and> channels s' = [''db_changes'' \<mapsto> 3] \<and> routes s' = Map.empty \<and> attempts s' = [Some ''tok'']"
  using reconnect_keeps_listeners_only [of "\<lambda>_. True"
      "(router_state_new 0 0)\<lparr>token := Some ''tok'', channels := [''db_changes'' \<mapsto> 3], routes := [''0'' \<mapsto> 5]\<rparr>"
      "Inr 2" 2 4]
  by (auto simp: connect_def router_state_new_def)


fun sets_token :: "nat \<times> router_input \<Rightarrow> bool" where
  "sets_token (now, Select (GotParam p)) \<longleftrightarrow> p_token p \<noteq> None"
| "sets_token _ \<longleftrightarrow> False"

definition anonymous_since :: "string option list \<Rightarrow> router_phase \<Rightarrow> bool" where
  "anonymous_since tried p \<longleftrightarrow> (\<forall>s. phase_state p = Some s \<longrightarrow>
     token s = None \<and> (\<exists>k. attempts s = tried @ replicate k None))"

lemma anonymous_simps [simp]:
  "anonymous_since tried (Running s) \<longleftrightarrow> token s = None \<and> (\<exists>k. attempts s = tried @ replicate k None)"
  "anonymous_since tried (Reconnecting s) \<longleftrightarrow> token s = None \<and> (\<exists>k. attempts s = tried @ replicate k None)"
  "anonymous_since tried (Quit s) \<longleftrightarrow> token s = None \<and> (\<exists>k. attempts s = tried @ replicate k None)"
  "anonymous_since tried Crashed"
  by (simp_all add: anonymous_since_def)

lemma dispatch_frame [simp]:
  "token (dispatch alive r s) = token s" "attempts (dispatch alive r s) = attempts s"
  by (cases r; simp add: deliver_def Let_def split: option.split)+

lemma route_frame:
  "router_handle_route sent_ok now r s = (h, s') \<Longrightarrow> token s' = token s \<and> attempts s' = attempts s"
  by (cases "routes s (req_id (rt_request r))")
    (auto simp: router_handle_route_def Let_def split: if_splits)

lemma response_frame:
  "router_handle_response pj pu alive m s = Returned (h, s') \<Longrightarrow> token s' = token s \<and> attempts s' = attempts s"
  by (cases "try_from_message pj pu m")
    (auto simp: router_handle_response_def split: sum.split option.split)

lemma select_anonymous:
  assumes "anonymous_since tried (Running s)" "\<not> sets_token (now, Select ev)"
  shows "anonymous_since tried (select_step pj pu alive now ev s)"
proof (cases ev)
  case (GotParam p)
  with assms show ?thesis
    by (auto simp: handle_param_def Let_def split: option.split prod.split)
next
  case (GotRoute r sent_ok)
  with assms show ?thesis
    by (auto dest: route_frame split: prod.split handle_result.split)
next
  case (GotMessage m)
  with assms show ?thesis
    by (auto dest: response_frame split: outcome.split prod.split handle_result.split)
qed (use assms in auto)

lemma router_step_anonymous:
  assumes "anonymous_since tried p" "\<not> sets_token input"
  shows "anonymous_since tried (router_step pj pu header_ok alive input p)"
proof -
  obtain now i where input: "input = (now, i)" by fastforce
  show ?thesis
  proof (cases p)
    case (Running s)
    with assms input show ?thesis by (cases i) (auto intro: select_anonymous)
  next
    case (Reconnecting s)
    then obtain k where k: "token s = None" "attempts s = tried @ replicate k None"
      using assms(1) by auto
    then have grown: "attempts s @ [None] = tried @ replicate (Suc k) None"
      by (simp add: replicate_append_same)
    have "\<exists>k. attempts s @ [None] = tried @ replicate k None"
      using grown by blast
    with k Reconnecting input show ?thesis
      by (cases i) (simp_all add: reconnect_step_def Let_def enter_router_def split: sum.split)
  qed (use assms(1) in \<open>simp_all add: input\<close>)
qed

text \<open>C37: a token serves for one reconnection.  After it, every further attempt is anonymous until the
  client sends a token again, although the server knows the session by the token of the connection
  only.\<close>

theorem token_lost_after_reconnect:
  assumes "reconnect_step header_ok now answer s = Running s1" and "\<forall>i \<in> set inputs. \<not> sets_token i"
    and "phase_state (fold (router_step pj pu header_ok alive) inputs (Running s1)) = Some s2"
  shows "\<exists>k. attempts s2 = attempts s @ token s # replicate k None"
proof -
  have "anonymous_since (attempts s @ [token s]) (Running s1)"
    using assms(1) by (auto simp: reconnect_step_def Let_def enter_router_def split: sum.splits)
  then have "anonymous_since (attempts s @ [token s]) (fold (router_step pj pu header_ok alive) inputs (Running s1))"
    using assms(2) by (induction inputs arbitrary: s1 rule: rev_induct) (simp_all add: router_step_anonymous)
  with assms(3) show ?thesis by (auto simp: anonymous_since_def)
qed

theorem token_lost_after_reconnect_witness:
  "\<exists>s1 s2. reconnect_step (\<lambda>_. True) 1 (Inr 2) ((router_state_new 0 0)\<lparr>token := Some ''tok''\<rparr>) = Running s1 \<and>
    fold (router_step (\<lambda>_. None) (\<lambda>_. None) (\<lambda>_. True) (\<lambda>_. True))
      [(2, Select StreamOver), (3, ConnectAnswer (Inr 3))] (Running s1) = Running s2 \<and>
    attempts s2 = [Some ''tok'', None]"
proof -
  let ?s = "(router_state_new 0 0)\<lparr>token := Some ''tok''\<rparr>"
  let ?inputs = "[(2, Select StreamOver), (3, ConnectAnswer (Inr 3))]"
  let ?run = "fold (router_step (\<lambda>_. None) (\<lambda>_. None) (\<lambda>_. True) (\<lambda>_. True)) ?inputs"
  obtain s1 where s1: "reconnect_step (\<lambda>_. True) 1 (Inr 2) ?s = Running s1"
    by (simp add: reconnect_step_def connect_def)
  obtain s2 where s2: "?run (Running s1) = Running s2" "length (attempts s2) = 2"
    using s1 by (auto simp: reconnect_step_def connect_def enter_router_def router_state_new_def)
  then obtain k where "attempts s2 = attempts ?s @ token ?s # replicate k None"
    using token_lost_after_reconnect [OF s1, of ?inputs "\<lambda>_. None" "\<lambda>_. None" "\<lambda>_. True" s2] by auto
  then have "attempts s2 = [Some ''tok'', None]"
    using s2(2) by (simp add: router_state_new_def numeral_2_eq_2)
  with s1 s2 show ?thesis by blast
qed

text \<open>A token that cannot be written in a header, a line break in it is enough, keeps the client
  disconnected for ever: no answer of the network ends the reconnection.\<close>

theorem invalid_token_never_reconnects:
  assumes "token s = Some tk" "\<not> header_ok tk"
  shows "\<exists>s'. fold (router_step pj pu header_ok alive) inputs (Reconnecting s) = Reconnecting s' \<and>
    token s' = Some tk \<and> delivered s' = delivered s"
  using assms
proof (induction inputs arbitrary: s)
  case (Cons input inputs)
  obtain now i where input: "input = (now, i)" by fastforce
  have "\<exists>s1. router_step pj pu header_ok alive input (Reconnecting s) = Reconnecting s1 \<and>
      token s1 = Some tk \<and> delivered s1 = delivered s"
    using Cons.prems by (cases i) (simp_all add: input reconnect_step_def connect_def)
  with Cons show ?case by fastforce
qed simp

theorem invalid_token_never_reconnects_witness:
  "\<exists>s'. fold (router_step (\<lambda>_. None) (\<lambda>_. None) (\<lambda>t. \<forall>c \<in> set t. c \<noteq> CHR 0x0A) (\<lambda>_. True))
      [(1, ConnectAnswer (Inr 1)), (2, ConnectAnswer (Inr 2))]
      (Reconnecting ((router_state_new 0 0)\<lparr>token := Some [CHR ''t'', CHR 0x0A]\<rparr>)) = Reconnecting s'"
  using invalid_token_never_reconnects [of "(router_state_new 0 0)\<lparr>token := Some [CHR ''t'', CHR 0x0A]\<rparr>"
      "[CHR ''t'', CHR 0x0A]" "\<lambda>t. \<forall>c \<in> set t. c \<noteq> CHR 0x0A"]
  by fastforce

section \<open>Messages that are not responses\<close>

text \<open>The error side of \<open>try_from_message\<close> is dead: a text that is not a response is a panic
  instead, which ends the router, and nothing else is.\<close>

theorem malformed_text_ends_router:
  "try_from_message pj pu m \<noteq> Returned (Inl e) \<and>
   (select_step pj pu alive now (GotMessage m) s = Crashed \<longleftrightarrow>
     (\<exists>t. m = TextMsg t \<and> from_text pj pu t = None))"
  by (cases m) (auto simp: router_handle_response_def split: option.splits)

end
