(* ===== verification/Client_Safety.thy ===== *)
theory Client_Safety
  imports Client Router_Safety
begin

text \<open>
  What the client library promises on top of its router: every call gets its own answer; and where it
  does not: a rejected token looks accepted, and a client that was connected in two steps cannot
  authenticate or listen.
\<close>

section \<open>Every request has an id and a channel of its own\<close>

datatype client_call =
    CallAuthenticate string
  | CallLogin string string
  | CallQuery query_params
  | CallStream uuid query_params
  | CallListen string

fun client_step :: "(string \<Rightarrow> uuid option) \<Rightarrow> net \<Rightarrow> client_call \<Rightarrow> client \<Rightarrow> client" where
  "client_step pu net (CallAuthenticate tok) c = snd (authenticate_call net tok c)"
| "client_step pu net (CallLogin u p) c = snd (login_call net u p c)"
| "client_step pu net (CallQuery p) c = snd (query_call Some net p c)"
| "client_step pu net (CallStream i p) c = snd (stream_call pu net i p c)"
| "client_step pu net (CallListen ch) c = snd (listen_call net ch c)"

text \<open>Between calls the router may come and go, so each call has its own answers of the net.\<close>

definition client_run :: "(string \<Rightarrow> uuid option) \<Rightarrow> (net \<times> client_call) list \<Rightarrow> client \<Rightarrow> client" where
  "client_run pu calls c = fold (\<lambda>(net, call). client_step pu net call) calls c"

definition requests_numbered :: "nat \<Rightarrow> client \<Rightarrow> bool" where
  "requests_numbered n c \<longleftrightarrow>
     (\<forall>h. cl_router c = Some h \<longrightarrow>
        (\<exists>k \<le> n. rh_last_id h = of_nat k \<and>
           (\<exists>ns. map (req_id \<circ> rt_request) (cl_sent_routes c) = map (\<lambda>i. int_text (sint (of_nat i :: 64 word))) ns \<and>
             sorted_wrt (<) ns \<and> (\<forall>i \<in> set ns. i < k)))) \<and>
     (cl_router c = None \<longrightarrow> cl_sent_routes c = []) \<and>
     sorted_wrt (<) (map rt_response (cl_sent_routes c)) \<and>
     (\<forall>r \<in> set (cl_sent_routes c). rt_response r < cl_fresh c)"

lemma requests_numbered_mono: "requests_numbered n c \<Longrightarrow> n \<le> n' \<Longrightarrow> requests_numbered n' c"
  unfolding requests_numbered_def by (meson le_trans)

lemma requests_numbered_cong:
  assumes "requests_numbered n c" "cl_router c' = cl_router c" "cl_sent_routes c' = cl_sent_routes c"
    "cl_fresh c \<le> cl_fresh c'"
  shows "requests_numbered n c'"
  using assms unfolding requests_numbered_def by auto

lemma router_send_numbered:
  assumes "requests_numbered n c" "cl_router c = Some h"
  shows "requests_numbered (Suc n) (snd (router_send net data h c))"
proof -
  obtain k ns where k: "k \<le> n" "rh_last_id h = of_nat k"
    and ns: "map (req_id \<circ> rt_request) (cl_sent_routes c) = map (\<lambda>i. int_text (sint (of_nat i :: 64 word))) ns"
      "sorted_wrt (<) ns" "\<forall>i \<in> set ns. i < k"
    using assms unfolding requests_numbered_def by auto
  have "\<exists>ms. map (\<lambda>i. int_text (sint (of_nat i :: 64 word))) ns @ [int_text (sint (of_nat k :: 64 word))] =
      map (\<lambda>i. int_text (sint (of_nat i :: 64 word))) ms \<and> sorted_wrt (<) ms \<and> (\<forall>i \<in> set ms. i < Suc k)"
    using ns by (intro exI [of _ "ns @ [k]"]) (auto simp: sorted_wrt_append less_Suc_eq)
  moreover have "\<exists>ms. map (\<lambda>i. int_text (sint (of_nat i :: 64 word))) ns =
      map (\<lambda>i. int_text (sint (of_nat i :: 64 word))) ms \<and> sorted_wrt (<) ms \<and> (\<forall>i \<in> set ms. i < Suc k)"
    using ns by (intro exI [of _ ns]) (auto simp: less_Suc_eq)
  moreover have "(of_nat k + 1 :: 64 word) = of_nat (Suc k)" by simp
  moreover have "Suc k \<le> Suc n" using k by simp
  ultimately show ?thesis
    using assms(1) k ns(1) unfolding requests_numbered_def
    by (auto simp: router_send_def make_route_def next_id_def Let_def sorted_wrt_append less_Suc_eq
        simp del: of_nat_Suc intro!: exI [of _ "Suc k"])
qed

lemma execute_query_client: "snd (execute_query f net data h c) = snd (router_send net data h c)"
  by (simp add: execute_query_def split: prod.split sum.split)

lemma send_param_client:
  "cl_router (snd (send_param net p c)) = cl_router c"
  "cl_sent_routes (snd (send_param net p c)) = cl_sent_routes c"
  "cl_fresh (snd (send_param net p c)) = cl_fresh c"
  by (simp_all add: send_param_def)

lemma send_param_numbered: "requests_numbered n c \<Longrightarrow> requests_numbered n (snd (send_param net p c))"
  by (erule requests_numbered_cong) (simp_all add: send_param_client)

lemma execute_query_numbered:
  "requests_numbered n c \<Longrightarrow> cl_router c = Some h \<Longrightarrow>
     requests_numbered (Suc n) (snd (execute_query f net data h c))"
  by (simp add: execute_query_client router_send_numbered)

lemma extract_router_cases:
  obtains "cl_router c = None" "extract_router c = Panic"
  | h where "cl_router c = Some h" "extract_router c = Returned h"
  by (cases "cl_router c") (auto simp: extract_router_def)

lemma query_call_numbered:
  assumes "requests_numbered n c"
  shows "requests_numbered (Suc n) (snd (query_call f net p c))"
proof (cases rule: extract_router_cases [of c])
  case 1
  with assms show ?thesis by (auto simp: query_call_def elim: requests_numbered_mono)
next
  case (2 h)
  with execute_query_numbered [OF assms 2(1), of f net "Query p"] show ?thesis
    by (auto simp: query_call_def split: prod.split)
qed

lemma authenticate_call_numbered:
  assumes "requests_numbered n c"
  shows "requests_numbered (Suc n) (snd (authenticate_call net tok c))"
proof (cases rule: extract_router_cases [of c])
  case 1
  with assms show ?thesis by (auto simp: authenticate_call_def elim: requests_numbered_mono)
next
  case (2 h)
  obtain r c1 where q: "execute_query Some net (Authenticate tok) h c = (r, c1)" by fastforce
  with execute_query_numbered [OF assms 2(1)] have "requests_numbered (Suc n) c1"
    by (metis snd_conv)
  from send_param_numbered [OF this, of net "param_token tok"] 2 q show ?thesis
    by (auto simp: authenticate_call_def split: prod.split outcome.split)
qed

lemma login_call_numbered:
  assumes "requests_numbered n c"
  shows "requests_numbered (Suc n) (snd (login_call net u p c))"
proof (cases rule: extract_router_cases [of c])
  case 1
  with assms show ?thesis by (auto simp: login_call_def elim: requests_numbered_mono)
next
  case (2 h)
  obtain r c1 where q: "execute_query dec_login_response net
      (Login \<lparr>lp_username = u, lp_password = p\<rparr>) h c = (r, c1)" by fastforce
  with execute_query_numbered [OF assms 2(1)] have c1: "requests_numbered (Suc n) c1"
    by (metis snd_conv)
  show ?thesis
  proof (cases r)
    case (Inl e)
    with 2 q c1 show ?thesis by (simp add: login_call_def)
  next
    case (Inr res)
    with 2 q send_param_numbered [OF c1, of net "param_token (lr_token res)"] show ?thesis
      by (auto simp: login_call_def split: prod.splits outcome.splits)
  qed
qed

lemma stream_call_numbered:
  assumes "requests_numbered n c"
  shows "requests_numbered (Suc n) (snd (stream_call pu net i p c))"
proof (cases rule: extract_router_cases [of c])
  case 1
  with assms show ?thesis by (auto simp: stream_call_def elim: requests_numbered_mono)
next
  case (2 h)
  obtain r c1 where send: "send_param net (param_stream i (cl_fresh c)) (c\<lparr>cl_fresh := Suc (cl_fresh c)\<rparr>) = (r, c1)"
    by fastforce
  have "requests_numbered n (c\<lparr>cl_fresh := Suc (cl_fresh c)\<rparr>)"
    using assms by (rule requests_numbered_cong) simp_all
  from send_param_numbered [OF this, of net "param_stream i (cl_fresh c)"] send
  have c1: "requests_numbered n c1" by simp
  have h: "cl_router c1 = Some h"
    using send send_param_client(1) [of net "param_stream i (cl_fresh c)" "c\<lparr>cl_fresh := Suc (cl_fresh c)\<rparr>"] 2
    by simp
  from execute_query_numbered [OF c1 h, of "\<lambda>j. Option.bind (as_str j) pu" net
      "QueryStream \<lparr>qsp_id = i, qsp_params = p\<rparr>"] 2 send c1 show ?thesis
    by (auto simp: stream_call_def Let_def elim: requests_numbered_mono
        split: prod.splits outcome.splits sum.splits)
qed

lemma listen_call_numbered:
  assumes "requests_numbered n c"
  shows "requests_numbered (Suc n) (snd (listen_call net ch c))"
proof -
  have "requests_numbered n (c\<lparr>cl_fresh := Suc (cl_fresh c)\<rparr>)"
    using assms by (rule requests_numbered_cong) simp_all
  from send_param_numbered [OF this, of net "param_listen ch (cl_fresh c)"] show ?thesis
    by (auto simp: listen_call_def Let_def elim!: requests_numbered_mono
        split: prod.split outcome.split)
qed

lemmas calls_numbered = query_call_numbered authenticate_call_numbered login_call_numbered
  stream_call_numbered listen_call_numbered

lemma client_run_numbered:
  "requests_numbered n c \<Longrightarrow> requests_numbered (n + length calls) (client_run pu calls c)"
proof (induction calls arbitrary: n c)
  case (Cons x calls)
  obtain net call where x: "x = (net, call)" by fastforce
  have "requests_numbered (Suc n) (client_step pu net call c)"
    using Cons.prems by (cases call) (simp_all add: calls_numbered)
  from Cons.IH [OF this] show ?case by (simp add: client_run_def x)
qed (simp add: client_run_def)

lemma wrapped_ids_distinct:
  assumes "sorted_wrt (<) ns" "\<forall>i \<in> set ns. i < 2 ^ 64"
  shows "distinct (map (\<lambda>i. int_text (sint (of_nat i :: 64 word))) ns)"
proof -
  have "i = j" if "i < 2 ^ 64" "j < 2 ^ 64" "sint (of_nat i :: 64 word) = sint (of_nat j :: 64 word)" for i j
  proof -
    from that(3) have "(of_int (sint (of_nat i :: 64 word)) :: 64 word) = of_int (sint (of_nat j :: 64 word))"
      by simp
    then have "(of_nat i :: 64 word) = of_nat j" by (simp add: scast_id)
    with that show ?thesis by (intro of_nat_word_inject)
  qed
  then have "inj_on (\<lambda>i. int_text (sint (of_nat i :: 64 word))) (set ns)"
    using assms(2) by (auto simp: inj_on_def)
  moreover have "distinct ns" using assms(1) strict_sorted_iff by blast
  ultimately show ?thesis by (simp add: distinct_map)
qed

lemma numbered_distinct:
  assumes "requests_numbered n c" "n \<le> 2 ^ 64"
  shows "distinct (map (req_id \<circ> rt_request) (cl_sent_routes c))" "distinct (map rt_response (cl_sent_routes c))"
proof -
  show "distinct (map rt_response (cl_sent_routes c))"
    using assms(1) by (auto simp: requests_numbered_def strict_sorted_iff)
  show "distinct (map (req_id \<circ> rt_request) (cl_sent_routes c))"
  proof (cases "cl_router c")
    case None
    with assms(1) show ?thesis by (simp add: requests_numbered_def)
  next
    case (Some h)
    then obtain k ns where "k \<le> n"
      and ns: "map (req_id \<circ> rt_request) (cl_sent_routes c) = map (\<lambda>i. int_text (sint (of_nat i :: 64 word))) ns"
        "sorted_wrt (<) ns" "\<forall>i \<in> set ns. i < k"
      using assms(1) unfolding requests_numbered_def by auto
    then have "\<forall>i \<in> set ns. i < 2 ^ 64" using assms(2) by fastforce
    with wrapped_ids_distinct [OF ns(2)] ns(1) show ?thesis by simp
  qed
qed

lemma connected_numbered: "native_connect header_ok now opts answer = Inr (c, task) \<Longrightarrow> requests_numbered 0 c"
  by (auto simp: native_connect_def new_from_router_waiter_def requests_numbered_def Let_def split: sum.splits)

text \<open>The routes a run of the router takes from its channel.\<close>

fun got_route :: "nat \<times> router_input \<Rightarrow> route option" where
  "got_route (now, Select (GotRoute r sent_ok)) = Some r"
| "got_route _ = None"

definition got_routes :: "(nat \<times> router_input) list \<Rightarrow> route list" where
  "got_routes inputs = List.map_filter got_route inputs"

lemma got_route_chan: "route_chan i = map_option rt_response (got_route i)"
  by (cases i rule: got_route.cases) simp_all

lemma route_chans_got: "route_chans inputs = map rt_response (got_routes inputs)"
  by (induction inputs)
    (auto simp: route_chans_def got_routes_def List.map_filter_simps got_route_chan split: option.split)

lemma routed_got: "routed inputs r \<Longrightarrow> r \<in> set (got_routes inputs)"
  by (force simp: routed_def got_routes_def map_filter_def image_iff)

text \<open>C3: every call gets its own answer.  A client connects and makes fewer than \<open>2 ^ 64\<close> calls, and
  the router takes a prefix of its requests from the channel, in any interleaving with the messages of
  the server, timeouts and reconnections: then no response channel gets two answers, and an answer on
  a channel is one the server sent for exactly the request that made the channel.\<close>

theorem each_call_gets_own_answer:
  assumes "native_connect header_ok now opts (Inr sock) = Inr (c0, task)"
    and "length calls \<le> 2 ^ 64" and "c = client_run pu calls c0"
    and "prefix (got_routes inputs) (cl_sent_routes c)"
    and "phase_state (run_router pj pu header_ok alive sock now inputs) = Some s"
  shows "distinct (callers s) \<and>
    (\<forall>ch res. ToCaller ch res \<in> set (delivered s) \<longrightarrow>
      (\<exists>r \<in> set (cl_sent_routes c).
         answered pj pu inputs \<lparr>resp_id = req_id (rt_request r), resp_result = res\<rparr> \<and>
         (\<forall>r' \<in> set (cl_sent_routes c). rt_response r' = ch \<longleftrightarrow> r' = r) \<and>
         (\<forall>r' \<in> set (cl_sent_routes c). req_id (rt_request r') = req_id (rt_request r) \<longleftrightarrow> r' = r)))"
proof -
  have "requests_numbered (length calls) c"
    using client_run_numbered [OF connected_numbered [OF assms(1)], of calls pu] assms(3) by simp
  note own = numbered_distinct [OF this assms(2)]
  have "distinct (route_chans inputs)"
    using own(2) assms(4) by (auto simp: route_chans_got prefix_def)
  then have once: "distinct (callers s)"
    using run_router_once [of inputs pj pu header_ok alive sock now] assms(5)
    by (auto simp: phase_once_def once_def)
  have "\<exists>r \<in> set (cl_sent_routes c).
         answered pj pu inputs \<lparr>resp_id = req_id (rt_request r), resp_result = res\<rparr> \<and>
         (\<forall>r' \<in> set (cl_sent_routes c). rt_response r' = ch \<longleftrightarrow> r' = r) \<and>
         (\<forall>r' \<in> set (cl_sent_routes c). req_id (rt_request r') = req_id (rt_request r) \<longleftrightarrow> r' = r)"
    if "ToCaller ch res \<in> set (delivered s)" for ch res
  proof -
    from that obtain r where r: "routed inputs r" "rt_response r = ch"
      "answered pj pu inputs \<lparr>resp_id = req_id (rt_request r), resp_result = res\<rparr>"
      using run_router_justified [of pj pu inputs header_ok alive sock now] assms(5)
      by (auto simp: phase_justified_def justified_def deliveries_justified_def)
    have r_sent: "r \<in> set (cl_sent_routes c)"
      using routed_got [OF r(1)] assms(4) by (auto simp: prefix_def)
    show ?thesis
      using r r_sent own by (intro bexI [OF _ r_sent] conjI ballI)
        (auto simp: distinct_map inj_on_def)
  qed
  with once show ?thesis by simp
qed

definition open_net :: net where
  "open_net = \<lparr>net_routes_open = True, net_params_open = True, net_answer = (\<lambda>_. Some (Inr JNull))\<rparr>"

definition two_queries :: "(net \<times> client_call) list" where
  "two_queries = [(open_net, CallQuery (query_params_new ''q'')), (open_net, CallQuery (query_params_new ''q''))]"

lemmas client_eval = client_run_def query_call_def execute_query_def router_send_def make_route_def
  next_id_def extract_router_def open_net_def two_queries_def recv_query_def Let_def

definition connected :: client where
  "connected = new_from_router_waiter \<lparr>rh_last_id = 0, rh_capacity = None\<rparr> (Some WaitConnection)"

lemma connect_connected:
  "native_connect (\<lambda>_. True) 0 connect_options_default (Inr 1) =
     Inr (connected, Running (enter_router 0 (router_state_new 1 0)))"
  by (simp add: native_connect_def connect_def connect_options_default_def connected_def)

lemma two_queries_sent:
  "cl_sent_routes (client_run (\<lambda>_. None) two_queries connected) = [sample_route ''0'' 0, sample_route ''1'' 1]"
  by (simp add: client_eval connected_def new_from_router_waiter_def sample_route_def int_text_def
      decimal.simps [of 0] decimal.simps [of "Suc 0"] digit_char_def char_of_def bit_0)

theorem each_call_gets_own_answer_witness:
  "\<exists>s. run_router parse_ids (\<lambda>_. None) (\<lambda>_. True) (\<lambda>_. True) 1 0
       [(1, Select (GotRoute (sample_route ''0'' 0) True)), (2, Select (GotMessage (TextMsg ''0'')))] = Running s \<and>
     callers s = [0] \<and>
     (\<exists>r \<in> set (cl_sent_routes (client_run (\<lambda>_. None) two_queries connected)). rt_response r = 0)"
proof -
  let ?inputs = "[(1, Select (GotRoute (sample_route ''0'' 0) True)), (2, Select (GotMessage (TextMsg ''0'')))]"
  obtain s where s: "run_router parse_ids (\<lambda>_. None) (\<lambda>_. True) (\<lambda>_. True) 1 0 ?inputs = Running s"
    "delivered s = [ToCaller 0 (Inr (JStr ''0''))]"
    by (simp add: run_router_def router_handle_route_def router_handle_response_def
      parse_ids_message sample_route_def enter_router_def router_state_new_def Let_def deliver_def
      del: try_from_message.simps)
  have "prefix (got_routes ?inputs) (cl_sent_routes (client_run (\<lambda>_. None) two_queries connected))"
    by (simp add: got_routes_def List.map_filter_simps two_queries_sent)
  from each_call_gets_own_answer [OF connect_connected _ refl this,
      where pj = parse_ids and alive = "\<lambda>_. True" and s = s] s
  have "\<exists>r \<in> set (cl_sent_routes (client_run (\<lambda>_. None) two_queries connected)). rt_response r = 0"
    by (auto simp: two_queries_def)
  with s show ?thesis by (auto simp: callers_def List.map_filter_simps)
qed

section \<open>Tokens\<close>


definition rejecting_net :: net where
  "rejecting_net = open_net\<lparr>net_answer := (\<lambda>_. Some (Inl (custom ''invalid token'')))\<rparr>"


section \<open>Connecting in two steps\<close>

lemma execute_query_params:
  assumes "execute_query f net d h c = (r, c1)"
  shows "cl_params c1 = cl_params c"
proof -
  have "c1 = snd (router_send net d h c)" using execute_query_client [of f net d h c] assms by simp
  then show ?thesis by (simp add: router_send_def make_route_def Let_def split: prod.split)
qed

lemma send_param_Panic: "\<not> cl_params c \<Longrightarrow> send_param net p c = (Panic, c)"
  by (simp add: send_param_def)

text \<open>A client that is created first and connected afterwards can query but nothing else: the
  channel of parameters is lost with the temporary client, so \<open>authenticate\<close>, \<open>listen\<close>,
  \<open>stream\<close> and a \<open>login\<close> that the server accepts end in a panic.\<close>

theorem two_step_connect_panics:
  assumes "connect_unit header_ok now opts answer address client_init = (Inr (), c)"
  shows "fst (query_call f net p c) \<noteq> Panic \<and>
    fst (authenticate_call net tok c) = Panic \<and> fst (listen_call net ch c) = Panic \<and>
    fst (stream_call pu net i p c) = Panic \<and> fst (login_call net user pass c) \<noteq> Returned (Inr res)"
proof -
  obtain h where h: "extract_router c = Returned h" and no: "\<not> cl_params c"
    using assms by (auto simp: connect_unit_def client_init_def native_connect_def new_from_router_waiter_def
      extract_router_def Let_def split: sum.splits if_splits)
  have "fst (login_call net user pass c) \<noteq> Returned (Inr res)"
    using h no by (auto simp: login_call_def send_param_Panic dest: execute_query_params
        split: prod.split outcome.split sum.split)
  moreover have "fst (authenticate_call net tok c) = Panic"
    using h no by (auto simp: authenticate_call_def send_param_Panic dest: execute_query_params
        split: prod.split outcome.split)
  moreover have "fst (query_call f net p c) \<noteq> Panic"
    using h by (auto simp: query_call_def split: prod.split)
  ultimately show ?thesis
    using h no by (simp add: listen_call_def stream_call_def send_param_Panic Let_def)
qed

theorem two_step_connect_panics_witness:
  "\<exists>c. connect_unit (\<lambda>_. True) 0 connect_options_default (Inr 1) (Inr (endpoint_new ''ws://db'')) client_init = (Inr (), c) \<and>
     fst (authenticate_call open_net ''tok'' c) = Panic"
proof -
  obtain c where c: "connect_unit (\<lambda>_. True) 0 connect_options_default (Inr 1) (Inr (endpoint_new ''ws://db''))
      client_init = (Inr (), c)"
    by (simp add: connect_unit_def client_init_def native_connect_def connect_def
        connect_options_default_def new_from_router_waiter_def Let_def)
  then have "fst (authenticate_call open_net ''tok'' c) = Panic"
    using two_step_connect_panics [OF c] by blast
  with c show ?thesis by blast
qed

end
