(* ===== verification/Request_Wire.thy ===== *)
theory Request_Wire
  imports Wire
begin

text \<open>
  The JSON documents of requests: the \<open>Serialize\<close> and \<open>Deserialize\<close> derivations of
  \<open>Request\<close>, \<open>RequestData\<close> and their parameters (\<open>tenant/src/rpc.rs\<close>, \<open>lib.rs\<close>) and of
  \<open>SQLValue\<close> (\<open>value.rs\<close>), as \<open>Wire\<close> has those of the server's messages.  Both enums are
  adjacently tagged: an object with a tag and a content, in either order, or an array of the two; the
  content of a variant that holds an \<open>Option\<close> may be missing.  A unit variant is its name, or an
  object from its name to null.  Tags are strings.

  The texts of UUIDs and dates and the reading of floating-point numbers are third-party: a record
  of parameters says what they are.
\<close>

section \<open>Third-party texts\<close>

record texts =
  uuid_out :: "uuid \<Rightarrow> string"
  uuid_in :: "string \<Rightarrow> uuid option"
  date_out :: "naive_date \<Rightarrow> string"
  date_in :: "string \<Rightarrow> naive_date option"
  f32_out :: "rat \<Rightarrow> rat"
  f32_in :: "rat \<Rightarrow> rat"
  f64_in :: "rat \<Rightarrow> rat"

text \<open>\<open>f32_out\<close>: the number that the shortest text of an \<open>f32\<close> denotes; \<open>f32_in\<close> and
  \<open>f64_in\<close>: the float that reading a number gives.\<close>

section \<open>Optional scalars\<close>

definition enc_opt :: "('a \<Rightarrow> json) \<Rightarrow> 'a option \<Rightarrow> json" where
  "enc_opt enc v = (case v of None \<Rightarrow> JNull | Some a \<Rightarrow> enc a)"

definition dec_opt :: "(json \<Rightarrow> 'a option) \<Rightarrow> json option \<Rightarrow> 'a option option" where
  "dec_opt dec j =
     (case j of
        None \<Rightarrow> Some None
      | Some v \<Rightarrow> if v = JNull then Some None else map_option Some (dec v))"

definition dec_bool_value :: "json \<Rightarrow> bool option" where
  "dec_bool_value j = (case j of JBool b \<Rightarrow> Some b | _ \<Rightarrow> None)"

definition dec_i32 :: "json \<Rightarrow> 32 word option" where
  "dec_i32 j =
     (case j of
        JNum (NInt n) \<Rightarrow> if - (2 ^ 31) \<le> n \<and> n < 2 ^ 31 then Some (word_of_int n) else None
      | _ \<Rightarrow> None)"

definition dec_float :: "(rat \<Rightarrow> rat) \<Rightarrow> json \<Rightarrow> rat option" where
  "dec_float inp j =
     (case j of
        JNum (NInt n) \<Rightarrow> Some (inp (of_int n))
      | JNum (NFloat r) \<Rightarrow> Some (inp r)
      | _ \<Rightarrow> None)"

definition dec_text :: "(string \<Rightarrow> 'a option) \<Rightarrow> json \<Rightarrow> 'a option" where
  "dec_text parse j = Option.bind (as_str j) parse"

lemma dec_opt_enc [codec_simps]:
  "(\<And>a. v = Some a \<Longrightarrow> enc a \<noteq> JNull \<and> dec (enc a) = Some a) \<Longrightarrow> dec_opt dec (Some (enc_opt enc v)) = Some v"
  by (cases v) (simp_all add: dec_opt_def enc_opt_def)

lemma dec_opt_simps [codec_simps]:
  "dec_opt dec (Some (enc_opt enc None)) = Some None"
  "enc a \<noteq> JNull \<Longrightarrow> dec_opt dec (Some (enc_opt enc (Some a))) = map_option Some (dec (enc a))"
  by (simp_all add: dec_opt_def enc_opt_def)

lemma dec_opt_json [codec_simps]: "v \<noteq> Some JNull \<Longrightarrow> dec_opt Some (Some (enc_opt (\<lambda>j. j) v)) = Some v"
  by (rule dec_opt_enc) auto

lemma dec_i32_enc [codec_simps]: "dec_i32 (JNum (NInt (sint w))) = Some w"
  using sint_ge [of w] sint_lt [of w] by (simp add: dec_i32_def)

lemma dec_scalar_simps [codec_simps]:
  "dec_bool_value (JBool b) = Some b" "dec_float inp (JNum (NFloat r)) = Some (inp r)"
  "dec_text parse (JStr s) = parse s"
  by (simp_all add: dec_bool_value_def dec_float_def dec_text_def)

section \<open>Parameter values\<close>

text \<open>The variant of a unit-only enum.\<close>

definition variant_of :: "json \<Rightarrow> string option" where
  "variant_of j = (case j of JStr s \<Rightarrow> Some s | JObj [(k, JNull)] \<Rightarrow> Some k | _ \<Rightarrow> None)"

fun array_type_name :: "sql_array_type \<Rightarrow> string" where
  "array_type_name ArrBool = ''Bool''"
| "array_type_name ArrFloat = ''Float''"
| "array_type_name ArrInt = ''Int''"
| "array_type_name ArrString = ''String''"

definition dec_array_type :: "json \<Rightarrow> sql_array_type option" where
  "dec_array_type j =
     Option.bind (variant_of j) (\<lambda>n. map_of [(''Bool'', ArrBool), (''Float'', ArrFloat), (''Int'', ArrInt),
       (''String'', ArrString)] n)"

lemma dec_array_type_name [codec_simps]: "dec_array_type (JStr (array_type_name t)) = Some t"
  by (cases t) (simp_all add: dec_array_type_def variant_of_def)

definition tagged_value :: "string \<Rightarrow> json \<Rightarrow> json" where
  "tagged_value t v = JObj [(''t'', JStr t), (''v'', v)]"

fun enc_sql_value :: "texts \<Rightarrow> sql_value \<Rightarrow> json" where
  "enc_sql_value T (SqlBool v) = tagged_value ''Bool'' (enc_opt JBool v)"
| "enc_sql_value T (SqlInt v) = tagged_value ''Int'' (enc_opt (\<lambda>w. JNum (NInt (sint w))) v)"
| "enc_sql_value T (SqlFloat v) = tagged_value ''Float'' (enc_opt (\<lambda>r. JNum (NFloat (f32_out T r))) v)"
| "enc_sql_value T (SqlDouble v) = tagged_value ''Double'' (enc_opt (\<lambda>r. JNum (NFloat r)) v)"
| "enc_sql_value T (SqlString v) = tagged_value ''String'' (enc_opt JStr v)"
| "enc_sql_value T (SqlJson v) = tagged_value ''Json'' (enc_opt (\<lambda>j. j) v)"
| "enc_sql_value T (SqlChronoDate v) = tagged_value ''ChronoDate'' (enc_opt (\<lambda>d. JStr (date_out T d)) v)"
| "enc_sql_value T (SqlUuid v) = tagged_value ''Uuid'' (enc_opt (\<lambda>u. JStr (uuid_out T u)) v)"
| "enc_sql_value T (SqlArray t v) = tagged_value ''Array''
     (JArr [JStr (array_type_name t), case v of None \<Rightarrow> JNull | Some vs \<Rightarrow> JArr (map (enc_sql_value T) vs)])"

definition dec_scalar :: "texts \<Rightarrow> string \<Rightarrow> json option \<Rightarrow> sql_value option" where
  "dec_scalar T t v =
     (if t = ''Bool'' then map_option SqlBool (dec_opt dec_bool_value v)
      else if t = ''Int'' then map_option SqlInt (dec_opt dec_i32 v)
      else if t = ''Float'' then map_option SqlFloat (dec_opt (dec_float (f32_in T)) v)
      else if t = ''Double'' then map_option SqlDouble (dec_opt (dec_float (f64_in T)) v)
      else if t = ''String'' then map_option SqlString (dec_opt as_str v)
      else if t = ''Json'' then map_option SqlJson (dec_opt Some v)
      else if t = ''ChronoDate'' then map_option SqlChronoDate (dec_opt (dec_text (date_in T)) v)
      else if t = ''Uuid'' then map_option SqlUuid (dec_opt (dec_text (uuid_in T)) v)
      else None)"

lemma map_of_size: "map_of ms k = Some v \<Longrightarrow> size v < size (JObj ms)"
  by (induction ms) (auto split: if_splits)

lemma struct_fields_size:
  assumes "struct_fields names j = Some fs" "Some v \<in> set fs"
  shows "size v < size j"
proof (cases j)
  case (JArr xs)
  with assms have "v \<in> set xs" by (auto simp: struct_fields_def split: if_splits)
  then show ?thesis using JArr by (simp add: size_list_estimation' less_Suc_eq_le)
next
  case (JObj ms)
  with assms obtain k where "map_of ms k = Some v"
    by (auto simp: struct_fields_def split: if_splits)
  from map_of_size [OF this] JObj show ?thesis by simp
qed (use assms in \<open>simp_all add: struct_fields_def\<close>)

function (sequential) dec_sql_value :: "texts \<Rightarrow> json \<Rightarrow> sql_value option"
  and dec_sql_values :: "texts \<Rightarrow> json list \<Rightarrow> sql_value list option" where
  "dec_sql_value T j =
     (case struct_fields [''t'', ''v''] j of
        Some [Some (JStr t), v] \<Rightarrow>
          if t = ''Array'' then
            (case v of
               Some (JArr [a, JNull]) \<Rightarrow> map_option (\<lambda>el. SqlArray el None) (dec_array_type a)
             | Some (JArr [a, JArr xs]) \<Rightarrow>
                 (case dec_array_type a of
                    None \<Rightarrow> None
                  | Some el \<Rightarrow> map_option (\<lambda>vs. SqlArray el (Some vs)) (dec_sql_values T xs))
             | _ \<Rightarrow> None)
          else dec_scalar T t v
      | _ \<Rightarrow> None)"
| "dec_sql_values T [] = Some []"
| "dec_sql_values T (x # xs) =
     (case dec_sql_value T x of None \<Rightarrow> None | Some a \<Rightarrow> map_option ((#) a) (dec_sql_values T xs))"
  by pat_completeness auto
termination
proof (relation "measure (\<lambda>x. case x of Inl (T, j) \<Rightarrow> 2 * size j + 1 | Inr (T, js) \<Rightarrow> 2 * size_list size js)", goal_cases)
  case 1
  then show ?case by simp
next
  case (2 T j fs)
  then show ?case
    by (auto dest: struct_fields_size [where v = "JArr v" for v])
qed (auto)

declare dec_sql_value.simps [simp del]

section \<open>Values that arrive as they were\<close>

fun value_ok :: "texts \<Rightarrow> sql_value \<Rightarrow> bool" where
  "value_ok T (SqlFloat v) \<longleftrightarrow> (case v of None \<Rightarrow> True | Some r \<Rightarrow> f32_in T (f32_out T r) = r)"
| "value_ok T (SqlDouble v) \<longleftrightarrow> (case v of None \<Rightarrow> True | Some r \<Rightarrow> f64_in T r = r)"
| "value_ok T (SqlJson v) \<longleftrightarrow> v \<noteq> Some JNull"
| "value_ok T (SqlChronoDate v) \<longleftrightarrow> (case v of None \<Rightarrow> True | Some d \<Rightarrow> date_in T (date_out T d) = Some d)"
| "value_ok T (SqlUuid v) \<longleftrightarrow> (case v of None \<Rightarrow> True | Some u \<Rightarrow> uuid_in T (uuid_out T u) = Some u)"
| "value_ok T (SqlArray t v) \<longleftrightarrow> (case v of None \<Rightarrow> True | Some vs \<Rightarrow> list_all (value_ok T) vs)"
| "value_ok T v \<longleftrightarrow> True"

lemma struct_tagged: "struct_fields [''t'', ''v''] (tagged_value t v) = Some [Some (JStr t), Some v]"
  by (simp add: struct_fields_def tagged_value_def)

lemma dec_tagged: "t \<noteq> ''Array'' \<Longrightarrow> dec_sql_value T (tagged_value t v) = dec_scalar T t (Some v)"
  by (simp add: dec_sql_value.simps [of T "tagged_value t v"] struct_tagged)

lemma dec_values_enc:
  "(\<And>v. v \<in> set vs \<Longrightarrow> dec_sql_value T (enc_sql_value T v) = Some v) \<Longrightarrow>
     dec_sql_values T (map (enc_sql_value T) vs) = Some vs"
  by (induction vs) simp_all

lemma dec_value_enc: "value_ok T v \<Longrightarrow> dec_sql_value T (enc_sql_value T v) = Some v"
proof (induction v)
  case (SqlArray t v)
  show ?case
  proof (cases v)
    case None
    then show ?thesis
      by (simp add: dec_sql_value.simps [of T "tagged_value ''Array'' _"] struct_tagged codec_simps)
  next
    case (Some vs)
    then have "dec_sql_values T (map (enc_sql_value T) vs) = Some vs"
      using SqlArray by (intro dec_values_enc) (auto simp: list_all_iff)
    with Some show ?thesis
      by (simp add: dec_sql_value.simps [of T "tagged_value ''Array'' _"] struct_tagged codec_simps)
  qed
qed (auto simp: dec_tagged dec_scalar_def codec_simps split: option.splits)

interpretation value_codec: codec "enc_sql_value T" "dec_sql_value T" "value_ok T" for T
  by unfold_locales (rule dec_value_enc)

section \<open>Parameters and requests\<close>

definition enc_query_params :: "texts \<Rightarrow> query_params \<Rightarrow> json" where
  "enc_query_params T p =
     JObj [(''query'', JStr (query_text p)), (''variables'', JArr (map (enc_sql_value T) (query_variables p)))]"

text \<open>\<open>serde(default)\<close>: without variables the list is empty, in an array of one element too.\<close>

definition dec_query_params :: "texts \<Rightarrow> json \<Rightarrow> query_params option" where
  "dec_query_params T j =
     (let fields = (case j of JArr [q] \<Rightarrow> Some [Some q, None] | _ \<Rightarrow> struct_fields [''query'', ''variables''] j)
      in case fields of
           Some [q, vs] \<Rightarrow>
             (case (dec_string q, case vs of None \<Rightarrow> Some [] | Some (JArr xs) \<Rightarrow> dec_sql_values T xs | _ \<Rightarrow> None) of
                (Some q, Some vs) \<Rightarrow> Some \<lparr>query_text = q, query_variables = vs\<rparr>
              | _ \<Rightarrow> None)
         | _ \<Rightarrow> None)"

definition enc_login_params :: "login_params \<Rightarrow> json" where
  "enc_login_params p = JObj [(''username'', JStr (lp_username p)), (''password'', JStr (lp_password p))]"

definition dec_login_params :: "json \<Rightarrow> login_params option" where
  "dec_login_params j =
     (case struct_fields [''username'', ''password''] j of
        Some [u, p] \<Rightarrow>
          (case (dec_string u, dec_string p) of
             (Some u, Some p) \<Rightarrow> Some \<lparr>lp_username = u, lp_password = p\<rparr>
           | _ \<Rightarrow> None)
      | _ \<Rightarrow> None)"

fun action_name :: "transaction_action \<Rightarrow> string" where
  "action_name TxnBegin = ''begin''"
| "action_name TxnCommit = ''commit''"
| "action_name TxnRollback = ''rollback''"

definition dec_transaction_action :: "json \<Rightarrow> transaction_action option" where
  "dec_transaction_action j =
     Option.bind (variant_of j) (\<lambda>n. map_of [(''begin'', TxnBegin), (''commit'', TxnCommit),
       (''rollback'', TxnRollback)] n)"

definition enc_stream_params :: "texts \<Rightarrow> query_stream_params \<Rightarrow> json" where
  "enc_stream_params T p =
     JObj [(''id'', JStr (uuid_out T (qsp_id p))), (''params'', enc_query_params T (qsp_params p))]"

definition dec_stream_params :: "texts \<Rightarrow> json \<Rightarrow> query_stream_params option" where
  "dec_stream_params T j =
     (case struct_fields [''id'', ''params''] j of
        Some [i, Some p] \<Rightarrow>
          (case (Option.bind (dec_string i) (uuid_in T), dec_query_params T p) of
             (Some i, Some p) \<Rightarrow> Some \<lparr>qsp_id = i, qsp_params = p\<rparr>
           | _ \<Rightarrow> None)
      | _ \<Rightarrow> None)"

definition method_params :: "string \<Rightarrow> json \<Rightarrow> json" where
  "method_params m p = JObj [(''method'', JStr m), (''params'', p)]"

fun enc_request_data :: "texts \<Rightarrow> request_data \<Rightarrow> json" where
  "enc_request_data T (Query p) = method_params ''query'' (enc_query_params T p)"
| "enc_request_data T (Authenticate t) = method_params ''authenticate'' (JStr t)"
| "enc_request_data T (Login p) = method_params ''login'' (enc_login_params p)"
| "enc_request_data T (Transaction a) = method_params ''transaction'' (JStr (action_name a))"
| "enc_request_data T (QueryStream p) = method_params ''query_stream'' (enc_stream_params T p)"

definition dec_request_data :: "texts \<Rightarrow> json \<Rightarrow> request_data option" where
  "dec_request_data T j =
     (case struct_fields [''method'', ''params''] j of
        Some [Some (JStr m), Some p] \<Rightarrow>
          if m = ''query'' then map_option Query (dec_query_params T p)
          else if m = ''authenticate'' then map_option Authenticate (as_str p)
          else if m = ''login'' then map_option Login (dec_login_params p)
          else if m = ''transaction'' then map_option Transaction (dec_transaction_action p)
          else if m = ''query_stream'' then map_option QueryStream (dec_stream_params T p)
          else None
      | _ \<Rightarrow> None)"

definition enc_request :: "texts \<Rightarrow> request \<Rightarrow> json" where
  "enc_request T r = JObj [(''id'', JStr (req_id r)), (''data'', enc_request_data T (req_data r))]"

definition dec_request :: "texts \<Rightarrow> json \<Rightarrow> request option" where
  "dec_request T j =
     (case struct_fields [''id'', ''data''] j of
        Some [i, Some d] \<Rightarrow>
          (case (dec_string i, dec_request_data T d) of
             (Some i, Some d) \<Rightarrow> Some \<lparr>req_id = i, req_data = d\<rparr>
           | _ \<Rightarrow> None)
      | _ \<Rightarrow> None)"

definition params_ok :: "texts \<Rightarrow> query_params \<Rightarrow> bool" where
  "params_ok T p \<longleftrightarrow> list_all (value_ok T) (query_variables p)"

fun request_ok :: "texts \<Rightarrow> request_data \<Rightarrow> bool" where
  "request_ok T (Query p) \<longleftrightarrow> params_ok T p"
| "request_ok T (QueryStream p) \<longleftrightarrow> uuid_in T (uuid_out T (qsp_id p)) = Some (qsp_id p) \<and> params_ok T (qsp_params p)"
| "request_ok T d \<longleftrightarrow> True"

lemma dec_query_params_enc: "params_ok T p \<Longrightarrow> dec_query_params T (enc_query_params T p) = Some p"
  by (simp add: dec_query_params_def enc_query_params_def struct_fields_def codec_simps Let_def
      params_ok_def dec_values_enc dec_value_enc list_all_iff)

interpretation params_codec: codec "enc_query_params T" "dec_query_params T" "params_ok T" for T
  by unfold_locales (rule dec_query_params_enc)

interpretation login_codec: codec enc_login_params dec_login_params "\<lambda>_. True"
  by unfold_locales (simp add: dec_login_params_def enc_login_params_def struct_fields_def codec_simps)

lemma dec_action_name [codec_simps]: "dec_transaction_action (JStr (action_name a)) = Some a"
  by (cases a) (simp_all add: dec_transaction_action_def variant_of_def)

lemma struct_method: "struct_fields [''method'', ''params''] (method_params m p) = Some [Some (JStr m), Some p]"
  by (simp add: struct_fields_def method_params_def)

lemma struct_stream: "struct_fields [''id'', ''params''] (JObj [(''id'', i), (''params'', p)]) = Some [Some i, Some p]"
  by (simp add: struct_fields_def)

interpretation data_codec: codec "enc_request_data T" "dec_request_data T" "request_ok T" for T
proof
  fix d
  assume "request_ok T d"
  then show "dec_request_data T (enc_request_data T d) = Some d"
    by (cases d)
      (simp_all add: dec_request_data_def struct_method dec_query_params_enc login_codec.dec_enc codec_simps
        dec_stream_params_def enc_stream_params_def struct_stream)
qed

interpretation request_codec: codec "enc_request T" "dec_request T" "\<lambda>r. request_ok T (req_data r)" for T
  by unfold_locales
    (simp add: dec_request_def enc_request_def struct_fields_def codec_simps data_codec.dec_enc)

text \<open>C36: the server reads the request the client sent: method, id and every parameter value, nested
  arrays and typed nulls included, provided the third-party texts of the values are read back and no
  parameter is the JSON null.\<close>

theorem request_roundtrip:
  assumes "request_ok T (req_data r)"
  shows "dec_request T (enc_request T r) = Some r"
  using assms by (rule request_codec.dec_enc)

definition plain_texts :: texts where
  "plain_texts = \<lparr>uuid_out = (\<lambda>u. decimal (unat u)), uuid_in = (\<lambda>s. Some (of_nat (digits_value 0 s))),
     date_out = (\<lambda>d. decimal (nat d)), date_in = (\<lambda>s. Some (int (digits_value 0 s))),
     f32_out = (\<lambda>r. r), f32_in = (\<lambda>r. r), f64_in = (\<lambda>r. r)\<rparr>"

theorem request_roundtrip_witness:
  "dec_request plain_texts (enc_request plain_texts \<lparr>req_id = ''4'', req_data = QueryStream
      \<lparr>qsp_id = 9, qsp_params = \<lparr>query_text = ''q'', query_variables =
        [SqlArray ArrInt (Some [SqlInt (Some (- 1)), SqlInt None]), SqlUuid (Some 7), SqlDouble (Some (1 / 2))]\<rparr>\<rparr>\<rparr>) =
   Some \<lparr>req_id = ''4'', req_data = QueryStream
      \<lparr>qsp_id = 9, qsp_params = \<lparr>query_text = ''q'', query_variables =
        [SqlArray ArrInt (Some [SqlInt (Some (- 1)), SqlInt None]), SqlUuid (Some 7), SqlDouble (Some (1 / 2))]\<rparr>\<rparr>\<rparr>"
  by (rule request_roundtrip) (simp add: plain_texts_def params_ok_def digits_value_decimal)

text \<open>The one value that does not arrive: a parameter that is the JSON null becomes the SQL null.\<close>

theorem json_null_parameter_lost:
  "dec_sql_value T (enc_sql_value T (SqlJson (Some JNull))) = Some (SqlJson None)"
  by (simp add: dec_tagged dec_scalar_def enc_opt_def dec_opt_def)

section \<open>Texts on the socket\<close>

text \<open>\<open>from_str::<Request>(msg).ok()\<close> in \<open>handle_message\<close>, and the text \<open>Response::send\<close> queues.\<close>

definition request_of_text :: "(string \<Rightarrow> json option) \<Rightarrow> texts \<Rightarrow> string \<Rightarrow> request option" where
  "request_of_text parse_json T t = Option.bind (parse_json t) (dec_request T)"

definition response_text :: "(json \<Rightarrow> string) \<Rightarrow> response \<Rightarrow> string" where
  "response_text json_text r = json_text (enc_response r)"

end
