(* ===== verification/Socket.thy ===== *)
theory Socket
  imports Rpc
begin

text \<open>
  \<open>src/handler/rpc/connection.rs\<close>, the tasks of one WebSocket: \<open>serve\<close> and the three tasks it
  joins (\<open>ping\<close>, \<open>read\<close>, \<open>write\<close>), the task per message (\<open>handle_message\<close>), and
  what they share: the cancellation token, the bounded channel, the semaphore of requests and the
  registration in \<open>WEBSOCKETS\<close>.  The tasks interleave, so they are a step relation; every await
  point at which a task can be suspended is a phase of the task.  One poll of a \<open>select!\<close> is one
  step, and \<open>biased\<close> shows as the premises that the earlier branches are not ready.

  \<open>parse\<close> is \<open>serde_json::from_str::<Request>\<close>, \<open>reply_text\<close> the text of a response; what
  \<open>process_message\<close> answers is arbitrary here.
\<close>

section \<open>State\<close>

datatype ping_phase = PingIdle | PingSending | PingDone

datatype read_phase = Reading | ReplyingClose | Draining | ReadDone

datatype write_phase = Writing | WriteSending message | WriteDone

text \<open>The task of one message: waiting for a permit, holding one, sending the response; a finished or
  panicked task stays in the join set until it is joined.\<close>

datatype handler =
    Acquiring message
  | Holding message
  | Replying request message
  | Finished
  | Panicked

record socket =
  cancelled :: bool
  permits :: nat
  capacity :: nat
  queue :: "message list"
  chan_closed :: bool
  ping_at :: ping_phase
  read_at :: read_phase
  write_at :: write_phase
  handlers :: "handler multiset"
  registered :: bool
  sent :: "message list"
  received :: "message list"
  answered :: "request list"

text \<open>The last three fields record history: what was sent to the client, what requests were received,
  and which were answered.  A new connection: \<open>n\<close> is \<open>WEBSOCKET_MAX_CONCURRENT_REQUESTS\<close>, both the
  number of permits and the capacity of the channel.\<close>

definition socket_new :: "nat \<Rightarrow> socket" where
  "socket_new n = \<lparr>cancelled = False, permits = n, capacity = n, queue = [], chan_closed = False,
     ping_at = PingIdle, read_at = Reading, write_at = Writing, handlers = {#}, registered = True,
     sent = [], received = [], answered = []\<rparr>"

definition has_room :: "socket \<Rightarrow> bool" where
  "has_room s \<longleftrightarrow> \<not> chan_closed s \<and> length (queue s) < capacity s"

definition enqueue :: "message \<Rightarrow> socket \<Rightarrow> socket" where
  "enqueue m s = s\<lparr>queue := queue s @ [m]\<rparr>"

definition cancel :: "socket \<Rightarrow> socket" where
  "cancel s = s\<lparr>cancelled := True\<rparr>"

definition is_done :: "handler \<Rightarrow> bool" where
  "is_done h \<longleftrightarrow> h = Finished \<or> h = Panicked"

section \<open>Ping\<close>

inductive ping_step :: "socket \<Rightarrow> socket \<Rightarrow> bool" where
  ping_cancelled: "ping_step s (s\<lparr>ping_at := PingDone\<rparr>)"
    if "ping_at s = PingIdle" "cancelled s"
| ping_tick: "ping_step s (s\<lparr>ping_at := PingSending\<rparr>)"
    if "ping_at s = PingIdle" "\<not> cancelled s"
| ping_sent: "ping_step s (enqueue (PingMsg []) s\<lparr>ping_at := PingIdle\<rparr>)"
    if "ping_at s = PingSending" "has_room s"
| ping_refused: "ping_step s (cancel s\<lparr>ping_at := PingDone\<rparr>)"
    if "ping_at s = PingSending" "chan_closed s"

section \<open>Write\<close>

inductive write_step :: "socket \<Rightarrow> socket \<Rightarrow> bool" where
  write_cancelled: "write_step s (s\<lparr>write_at := WriteDone\<rparr>)"
    if "write_at s = Writing" "cancelled s"
| write_take: "write_step s (s\<lparr>write_at := WriteSending m, queue := q\<rparr>)"
    if "write_at s = Writing" "\<not> cancelled s" "queue s = m # q"
| write_sent: "write_step s (s\<lparr>write_at := Writing, sent := sent s @ [m]\<rparr>)"
    if "write_at s = WriteSending m"
| write_failed: "write_step s (cancel s\<lparr>write_at := WriteDone\<rparr>)"
    if "write_at s = WriteSending m"

section \<open>Read\<close>

definition is_request :: "message \<Rightarrow> bool" where
  "is_request m \<longleftrightarrow> (case m of TextMsg _ \<Rightarrow> True | BinaryMsg _ \<Rightarrow> True | _ \<Rightarrow> False)"

definition no_done :: "socket \<Rightarrow> bool" where
  "no_done s \<longleftrightarrow> (\<forall>h \<in># handlers s. \<not> is_done h)"

inductive read_step :: "socket \<Rightarrow> socket \<Rightarrow> bool" where
  read_cancelled: "read_step s (s\<lparr>read_at := Draining\<rparr>)"
    if "read_at s = Reading" "cancelled s"
| read_joined: "read_step s (s\<lparr>handlers := hs\<rparr>)"
    if "read_at s = Reading" "\<not> cancelled s" "handlers s = add_mset Finished hs"
| read_panicked: "read_step s (cancel s\<lparr>read_at := Draining, handlers := hs\<rparr>)"
    if "read_at s = Reading" "\<not> cancelled s" "handlers s = add_mset Panicked hs"
| read_request: "read_step s (s\<lparr>handlers := add_mset (Acquiring m) (handlers s), received := received s @ [m]\<rparr>)"
    if "read_at s = Reading" "\<not> cancelled s" "no_done s" "is_request m"
| read_close: "read_step s (s\<lparr>read_at := ReplyingClose\<rparr>)"
    if "read_at s = Reading" "\<not> cancelled s" "no_done s"
| read_ignored: "read_step s s"
    if "read_at s = Reading" "\<not> cancelled s" "no_done s"
| read_failed: "read_step s (cancel s\<lparr>read_at := Draining\<rparr>)"
    if "read_at s = Reading" "\<not> cancelled s" "no_done s"
| close_replied: "read_step s (cancel (enqueue CloseMsg s)\<lparr>read_at := Draining\<rparr>)"
    if "read_at s = ReplyingClose" "has_room s"
| close_refused: "read_step s (cancel s\<lparr>read_at := Draining\<rparr>)"
    if "read_at s = ReplyingClose" "chan_closed s"
| drain_joined: "read_step s (s\<lparr>handlers := hs\<rparr>)"
    if "read_at s = Draining" "handlers s = add_mset h hs" "is_done h"
| drain_done: "read_step s (s\<lparr>read_at := ReadDone\<rparr>)"
    if "read_at s = Draining" "handlers s = {#}"

section \<open>The task of a message\<close>

inductive handle_step ::
    "(string \<Rightarrow> request option) \<Rightarrow> (response \<Rightarrow> string) \<Rightarrow> socket \<Rightarrow> socket \<Rightarrow> bool"
  for parse reply_text where
  acquired: "handle_step parse reply_text s (s\<lparr>permits := permits s - 1, handlers := add_mset (Holding m) hs\<rparr>)"
    if "handlers s = add_mset (Acquiring m) hs" "0 < permits s"
| unreachable: "handle_step parse reply_text s (s\<lparr>permits := permits s + 1, handlers := add_mset Panicked hs\<rparr>)"
    if "handlers s = add_mset (Holding (BinaryMsg b)) hs"
| malformed: "handle_step parse reply_text s (s\<lparr>permits := permits s + 1, handlers := add_mset Finished hs\<rparr>)"
    if "handlers s = add_mset (Holding (TextMsg t)) hs" "parse t = None"
| processed: "handle_step parse reply_text s (s\<lparr>handlers := add_mset
      (Replying req (TextMsg (reply_text \<lparr>resp_id = req_id req, resp_result = res\<rparr>))) hs\<rparr>)"
    if "handlers s = add_mset (Holding (TextMsg t)) hs" "parse t = Some req"
| replied: "handle_step parse reply_text s (enqueue m s\<lparr>permits := permits s + 1,
      handlers := add_mset Finished hs, answered := answered s @ [req]\<rparr>)"
    if "handlers s = add_mset (Replying req m) hs" "has_room s"
| reply_refused: "handle_step parse reply_text s (s\<lparr>permits := permits s + 1, handlers := add_mset Finished hs\<rparr>)"
    if "handlers s = add_mset (Replying req m) hs" "chan_closed s"

section \<open>Serve, and the rest of the program\<close>

text \<open>\<open>serve\<close> waits for its three tasks, closes the channel and removes the socket from
  \<open>WEBSOCKETS\<close>.  Other tasks reach a registered socket: they queue messages (\<open>mod.rs\<close>) or
  cancel it (\<open>shutdown.rs\<close>).\<close>

inductive socket_step ::
    "(string \<Rightarrow> request option) \<Rightarrow> (response \<Rightarrow> string) \<Rightarrow> socket \<Rightarrow> socket \<Rightarrow> bool"
  for parse reply_text where
  by_ping: "ping_step s s' \<Longrightarrow> socket_step parse reply_text s s'"
| by_write: "write_step s s' \<Longrightarrow> socket_step parse reply_text s s'"
| by_read: "read_step s s' \<Longrightarrow> socket_step parse reply_text s s'"
| by_handler: "handle_step parse reply_text s s' \<Longrightarrow> socket_step parse reply_text s s'"
| served: "socket_step parse reply_text s (s\<lparr>chan_closed := True, registered := False\<rparr>)"
    if "ping_at s = PingDone" "read_at s = ReadDone" "write_at s = WriteDone" "registered s"
| pushed: "socket_step parse reply_text s (enqueue (TextMsg t) s)"
    if "registered s" "has_room s"
| shut_down: "socket_step parse reply_text s (cancel s)"
    if "registered s"

definition socket_reach ::
    "(string \<Rightarrow> request option) \<Rightarrow> (response \<Rightarrow> string) \<Rightarrow> socket \<Rightarrow> socket \<Rightarrow> bool" where
  "socket_reach parse reply_text = (socket_step parse reply_text)\<^sup>*\<^sup>*"

inductive_cases ping_stepE: "ping_step s s'"
inductive_cases write_stepE: "write_step s s'"
inductive_cases read_stepE: "read_step s s'"
inductive_cases handle_stepE: "handle_step parse reply_text s s'"
inductive_cases socket_stepE: "socket_step parse reply_text s s'"

lemmas socket_steps = ping_step.intros write_step.intros read_step.intros handle_step.intros
lemmas socket_edits = enqueue_def cancel_def has_room_def

end
