(* ===== verification/Delivery.thy ===== *)
theory Delivery
  imports Hub Watch Rpc_Safety Client_Safety Request_Wire Socket
begin

text \<open>
  Server and client together: what the tasks of the server queue for a connection, read by the
  router of the client at the other end of the socket.  A change of the database travels from the
  replication stream (\<open>Watch\<close>) over the hub (\<open>Hub\<close>) and the wire format (\<open>Wire\<close>) to a
  listener of the client (\<open>Router\<close>); a row travels from the database (\<open>Connection\<close>) to the
  consumer of a stream (\<open>Client\<close>).  The text of a JSON document is third-party: the hypotheses
  say that the documents that are sent are read back.
\<close>

section \<open>Reading what the server sent\<close>

definition reads_back ::
    "(json \<Rightarrow> string) \<Rightarrow> (string \<Rightarrow> json option) \<Rightarrow> (uuid \<Rightarrow> string) \<Rightarrow> db_response \<Rightarrow> bool" where
  "reads_back json_text parse_json uuid_text r \<longleftrightarrow>
     parse_json (json_text (enc_db_response uuid_text r)) = Some (enc_db_response uuid_text r)"

lemma enc_db_response_not_null: "enc_db_response ut r \<noteq> JNull"
  by (cases r) (simp_all add: enc_response_def enc_notification_def enc_listen_def)

lemma read_sent_message:
  assumes "reads_back jt pj ut r" "wire_ok ut pu r"
  shows "try_from_message pj pu (TextMsg (jt (enc_db_response ut r))) = Returned (Inr (Some r))"
  using assms enc_db_response_not_null [of ut r]
  by (simp add: reads_back_def from_text_def db_response_codec.dec_enc)

definition incoming :: "nat \<Rightarrow> message list \<Rightarrow> (nat \<times> router_input) list" where
  "incoming clk msgs = map (\<lambda>m. (clk, Select (GotMessage m))) msgs"

text \<open>Messages that are each delivered whatever was delivered before are delivered in order.\<close>

lemma deliver_all:
  assumes "\<And>r s'. r \<in> set rs \<Longrightarrow> live_queries s' = live_queries s \<Longrightarrow> channels s' = channels s \<Longrightarrow>
      dispatch alive r s' = deliver (d r) s'"
    and "\<And>r. r \<in> set rs \<Longrightarrow> reads_back jt pj ut r \<and> wire_ok ut pu r"
  shows "\<exists>s'. fold (router_step pj pu header_ok alive)
      (incoming clk (map (\<lambda>r. TextMsg (jt (enc_db_response ut r))) rs)) (Running s) = Running s' \<and>
    delivered s' = delivered s @ map d rs"
  using assms
proof (induction rs arbitrary: s)
  case (Cons r rs)
  let ?s = "deliver (d r) (s\<lparr>last_activity := clk\<rparr>)"
  have "router_step pj pu header_ok alive (clk, Select (GotMessage (TextMsg (jt (enc_db_response ut r))))) (Running s)
      = Running ?s"
    using Cons.prems(1) [of r "s\<lparr>last_activity := clk\<rparr>"] read_sent_message [of jt pj ut r pu] Cons.prems(2)
    by (simp add: router_handle_response_def del: try_from_message.simps)
  moreover have "\<exists>s'. fold (router_step pj pu header_ok alive)
      (incoming clk (map (\<lambda>r. TextMsg (jt (enc_db_response ut r))) rs)) (Running ?s) = Running s' \<and>
    delivered s' = delivered ?s @ map d rs"
    using Cons.prems by (intro Cons.IH) (simp_all add: deliver_def)
  ultimately show ?case by (simp add: incoming_def deliver_def)
qed (simp add: incoming_def)

section \<open>Rows of a stream\<close>

lemma forward_own:
  assumes "map_of reg i = Some m" "\<not> mb_closed m"
  shows "map_of (listen_query_stream_notifications jt ut (map (Pair i) ns) reg) i =
    Some (m\<lparr>mb_queue := mb_queue m @ map (notification_message jt ut) ns\<rparr>)"
  using assms
proof (induction ns arbitrary: m reg)
  case (Cons n ns)
  let ?m = "push (notification_message jt ut n) m"
  have "map_of (forward_notification jt ut (i, n) reg) i = Some ?m"
    using Cons.prems by (simp add: forward_notification_def update_conv')
  moreover have "\<not> mb_closed ?m" using Cons.prems by simp
  ultimately show ?case
    using Cons.IH [of "forward_notification jt ut (i, n) reg" ?m] Cons.prems
    by (simp add: listen_query_stream_notifications_def push_def)
qed (simp add: listen_query_stream_notifications_def)

definition row_notice :: "uuid \<Rightarrow> json option \<Rightarrow> query_stream_notification" where
  "row_notice i v = \<lparr>qsn_stream_id = i, qsn_data = v\<rparr>"

text \<open>The values a consumer can read: those before the first that is not of its type.\<close>

definition readable :: "(json \<Rightarrow> 'a option) \<Rightarrow> json list \<Rightarrow> 'a list" where
  "readable f vs = map (the \<circ> f) (takeWhile (\<lambda>v. f v \<noteq> None) vs)"

lemma collect_rows:
  "collect f (map (row_notice i \<circ> Some) vs @ [row_notice i None]) = readable f vs"
  by (induction vs) (auto simp: poll_next_def row_notice_def readable_def)

definition stream_notices :: "uuid \<Rightarrow> db_row list \<Rightarrow> query_stream_notification list" where
  "stream_notices i rows = map (row_notice i \<circ> Some) (arrived rows) @ [row_notice i None]"

lemma run_stream_notices:
  assumes "E (calls s) (Stream (st_txn task) (st_stm task)) = Inr rows"
  shows "notified (snd (run_stream E task s)) =
    notified s @ map (Pair (rpc_id s)) (stream_notices (st_stream task) rows)"
  using assms
  by (simp add: run_stream_def notified_notify notified_stream_rows notice_def stream_notices_def
      row_notice_def)


definition two_texts :: "(json \<times> string) list" where
  "two_texts = [(enc_notification (\<lambda>_. ''u'') (row_notice 9 (Some (JStr ''a''))), ''a''),
     (enc_notification (\<lambda>_. ''u'') (row_notice 9 None), ''end'')]"

definition table_text :: "(json \<times> string) list \<Rightarrow> json \<Rightarrow> string" where
  "table_text tab j = (case map_of tab j of Some t \<Rightarrow> t | None \<Rightarrow> '''')"

definition table_parse :: "(json \<times> string) list \<Rightarrow> string \<Rightarrow> json option" where
  "table_parse tab t = map_of (map prod.swap tab) t"

definition streaming_client :: router_state where
  "streaming_client = (router_state_new 0 0)\<lparr>live_queries := [9 \<mapsto> 5]\<rparr>"


section \<open>Changes of the database\<close>


definition sample_change :: db_response where
  "sample_change = ListenChanel \<lparr>lcr_channel = ''db_changes'',
     lcr_data = \<lparr>xid = None, commit_time = None, events = [sample_insert]\<rparr>\<rparr>"

definition change_texts :: "(json \<times> string) list" where
  "change_texts = [(enc_db_response (\<lambda>_. ''u'') sample_change, ''c'')]"

definition listening_client :: router_state where
  "listening_client = (router_state_new 0 0)\<lparr>channels := [''db_changes'' \<mapsto> 5]\<rparr>"


section \<open>Requests\<close>


definition begin_request :: request where
  "begin_request = \<lparr>req_id = ''0'', req_data = Transaction TxnBegin\<rparr>"

definition begin_texts :: "(json \<times> string) list" where
  "begin_texts = [(enc_request plain_texts begin_request, ''q''),
     (enc_response \<lparr>resp_id = ''0'', resp_result = Inr JNull\<rparr>, ''a'')]"


end
