(* ===== verification/Socket_Safety.thy ===== *)
theory Socket_Safety
  imports Socket Transition
begin

text \<open>
  What the tasks of a WebSocket guarantee together: bounds of the channel and of concurrent
  requests, one response per request, an orderly end; and where they fall short: messages queued at
  a shutdown are not sent, and a full channel keeps a connection from ever ending.
\<close>

section \<open>Bounds\<close>

fun active :: "handler \<Rightarrow> bool" where
  "active (Acquiring m) = False"
| "active (Holding m) = True"
| "active (Replying req m) = True"
| "active Finished = False"
| "active Panicked = False"

definition bounded :: "nat \<Rightarrow> socket \<Rightarrow> bool" where
  "bounded n s \<longleftrightarrow> capacity s = n \<and> length (queue s) \<le> n \<and>
     permits s + size (filter_mset active (handlers s)) = n"

text \<open>The channel is closed when everything is over.\<close>

definition ended :: "socket \<Rightarrow> bool" where
  "ended s \<longleftrightarrow> (chan_closed s \<longleftrightarrow> \<not> registered s) \<and> (read_at s = ReadDone \<longrightarrow> handlers s = {#}) \<and>
     (chan_closed s \<longrightarrow> ping_at s = PingDone \<and> read_at s = ReadDone \<and> write_at s = WriteDone)"

lemmas socket_cases = ping_stepE write_stepE read_stepE handle_stepE

interpretation bounds: invariant "socket_step parse reply_text" "bounded n" for parse reply_text n
proof unfold_locales
  show "bounded n s \<Longrightarrow> socket_step parse reply_text s s' \<Longrightarrow> bounded n s'" for s s'
    by (elim socket_stepE socket_cases)
      (auto simp: bounded_def socket_edits is_done_def)
qed

interpretation ending: invariant "socket_step parse reply_text" ended for parse reply_text
proof unfold_locales
  show "ended s \<Longrightarrow> socket_step parse reply_text s s' \<Longrightarrow> ended s'" for s s'
    by (elim socket_stepE socket_cases)
      (auto simp: ended_def socket_edits)
qed

section \<open>One response per request\<close>

definition parsed :: "(string \<Rightarrow> request option) \<Rightarrow> message \<Rightarrow> request option" where
  "parsed parse m = (case m of TextMsg t \<Rightarrow> parse t | _ \<Rightarrow> None)"

fun pending :: "(string \<Rightarrow> request option) \<Rightarrow> handler \<Rightarrow> request option" where
  "pending parse (Acquiring m) = parsed parse m"
| "pending parse (Holding m) = parsed parse m"
| "pending parse (Replying req m) = Some req"
| "pending parse Finished = None"
| "pending parse Panicked = None"

definition opt_mset :: "'a option \<Rightarrow> 'a multiset" where
  "opt_mset x = (case x of None \<Rightarrow> {#} | Some a \<Rightarrow> {#a#})"

definition accepted_requests :: "(string \<Rightarrow> request option) \<Rightarrow> message list \<Rightarrow> request multiset" where
  "accepted_requests parse ms = (\<Sum>m \<in># mset ms. opt_mset (parsed parse m))"

definition in_flight :: "(string \<Rightarrow> request option) \<Rightarrow> handler multiset \<Rightarrow> request multiset" where
  "in_flight parse hs = (\<Sum>h \<in># hs. opt_mset (pending parse h))"

lemma opt_mset_simps [simp]: "opt_mset None = {#}" "opt_mset (Some a) = {#a#}"
  by (simp_all add: opt_mset_def)

lemma accepted_requests_simps [simp]:
  "accepted_requests parse [] = {#}"
  "accepted_requests parse (ms @ [m]) = accepted_requests parse ms + opt_mset (parsed parse m)"
  by (simp_all add: accepted_requests_def)

lemma in_flight_simps [simp]:
  "in_flight parse {#} = {#}"
  "in_flight parse (add_mset h hs) = opt_mset (pending parse h) + in_flight parse hs"
  by (simp_all add: in_flight_def)

definition one_each :: "(string \<Rightarrow> request option) \<Rightarrow> socket \<Rightarrow> bool" where
  "one_each parse s \<longleftrightarrow> ended s \<and>
     accepted_requests parse (received s) = mset (answered s) + in_flight parse (handlers s)"

lemma done_not_pending: "is_done h \<Longrightarrow> pending parse h = None"
  by (auto simp: is_done_def)

lemma one_each_step:
  assumes "one_each parse s" "socket_step parse reply_text s s'"
  shows "one_each parse s'"
proof -
  have "ended s'" using assms ending.kept by (auto simp: one_each_def)
  moreover have "accepted_requests parse (received s') = mset (answered s') + in_flight parse (handlers s')"
    using assms(2,1)
  proof (elim socket_stepE)
    assume "handle_step parse reply_text s s'"
    with assms(1) show ?thesis
      by (elim handle_stepE) (auto simp: one_each_def socket_edits parsed_def ended_def)
  next
    assume "read_step s s'"
    with assms(1) show ?thesis
      by (elim read_stepE) (auto simp: one_each_def socket_edits done_not_pending)
  qed (auto simp: one_each_def socket_edits elim!: ping_stepE write_stepE)
  ultimately show ?thesis by (simp add: one_each_def)
qed

interpretation exactly_once: invariant "socket_step parse reply_text" "one_each parse" for parse reply_text
  by unfold_locales (rule one_each_step)

interpretation socket: two_invariants "socket_step parse reply_text" "bounded n" "one_each parse"
  for parse reply_text n
  by unfold_locales

lemma socket_start: "bounded n (socket_new n)" "one_each parse (socket_new n)"
  by (simp_all add: bounded_def one_each_def ended_def socket_new_def)

lemma socket_invariants:
  assumes "socket_reach parse reply_text (socket_new n) s"
  shows "bounded n s" "one_each parse s"
  using socket.both_star [OF assms [unfolded socket_reach_def] socket_start] by simp_all

text \<open>C30: on every interleaving of a connection's tasks the channel never holds more than its capacity
  and never more than the configured number of requests are processed at a time; a permit is returned
  on every path, panics included.\<close>

theorem socket_bounds:
  assumes "socket_reach parse reply_text (socket_new n) s"
  shows "length (queue s) \<le> n \<and> size (filter_mset active (handlers s)) \<le> n \<and>
    permits s = n - size (filter_mset active (handlers s))"
  using socket_invariants(1) [OF assms] by (auto simp: bounded_def)

text \<open>A run of one request, for the witnesses.\<close>

definition no_requests :: "string \<Rightarrow> request option" where
  "no_requests t = (if t = ''q'' then Some \<lparr>req_id = ''1'', req_data = Authenticate ''tok''\<rparr> else None)"

definition plain_reply :: "response \<Rightarrow> string" where
  "plain_reply r = resp_id r"

abbreviation run_to :: "socket \<Rightarrow> socket \<Rightarrow> bool" where
  "run_to \<equiv> socket_reach no_requests plain_reply"

lemma reach_refl [simp]: "socket_reach parse reply_text s s"
  by (simp add: socket_reach_def)

lemma reach_step:
  "socket_step parse reply_text s s' \<Longrightarrow> socket_reach parse reply_text s' s'' \<Longrightarrow>
     socket_reach parse reply_text s s''"
  unfolding socket_reach_def by (rule converse_rtranclp_into_rtranclp)

lemma reach_trans:
  "socket_reach parse reply_text s s' \<Longrightarrow> socket_reach parse reply_text s' s'' \<Longrightarrow>
     socket_reach parse reply_text s s''"
  unfolding socket_reach_def by (rule rtranclp_trans)

definition sample_request :: request where
  "sample_request = \<lparr>req_id = ''1'', req_data = Authenticate ''tok''\<rparr>"

definition replying_socket :: "nat \<Rightarrow> socket" where
  "replying_socket n = (socket_new n)\<lparr>permits := n - 1,
     handlers := {#Replying sample_request (TextMsg ''1'')#}, received := [TextMsg ''q'']\<rparr>"

lemma reach_replying:
  assumes "0 < n"
  shows "run_to (socket_new n) (replying_socket n)"
proof -
  let ?s = "(socket_new n)\<lparr>handlers := {#Acquiring (TextMsg ''q'')#}, received := [TextMsg ''q'']\<rparr>"
  have "read_step (socket_new n) ?s"
    using read_request [of "socket_new n" "TextMsg ''q''"]
    by (simp add: socket_new_def no_done_def is_request_def)
  moreover have "handle_step no_requests plain_reply ?s
      (?s\<lparr>permits := n - 1, handlers := {#Holding (TextMsg ''q'')#}\<rparr>)" (is "handle_step _ _ _ ?s2")
    using acquired [of ?s "TextMsg ''q''" "{#}" no_requests plain_reply] assms
    by (simp add: socket_new_def)
  moreover have "handle_step no_requests plain_reply ?s2 (replying_socket n)"
    using processed [of ?s2 "''q''" "{#}" no_requests sample_request plain_reply "Inr JNull"]
    by (simp add: no_requests_def sample_request_def plain_reply_def replying_socket_def socket_new_def)
  ultimately show ?thesis
    by (blast intro: reach_step by_read by_handler reach_refl)
qed

theorem socket_bounds_witness:
  "size (filter_mset active (handlers (replying_socket 24))) \<le> 24 \<and> permits (replying_socket 24) = 23"
  using socket_bounds [OF reach_replying [of 24]] by (simp add: replying_socket_def)


section \<open>Order\<close>

definition outgoing :: "socket \<Rightarrow> message list" where
  "outgoing s = sent s @ (case write_at s of WriteSending m \<Rightarrow> [m] | _ \<Rightarrow> []) @ queue s"

lemma outgoing_step:
  assumes "socket_step parse reply_text s s'" "write_at s' \<noteq> WriteDone"
  shows "write_at s \<noteq> WriteDone \<and> prefix (outgoing s) (outgoing s')"
  using assms
  by (elim socket_stepE socket_cases) (auto simp: outgoing_def socket_edits)



section \<open>Cancellation\<close>

definition writer_stopping :: "socket \<Rightarrow> bool" where
  "writer_stopping s \<longleftrightarrow> cancelled s \<and> (write_at s = Writing \<or> write_at s = WriteDone)"

interpretation stopping: invariant "socket_step parse reply_text" writer_stopping for parse reply_text
proof unfold_locales
  show "writer_stopping s \<Longrightarrow> socket_step parse reply_text s s' \<Longrightarrow> writer_stopping s'" for s s'
    by (elim socket_stepE socket_cases) (auto simp: writer_stopping_def socket_edits)
qed

lemma stopping_sends_nothing:
  "writer_stopping s \<Longrightarrow> socket_step parse reply_text s s' \<Longrightarrow> sent s' = sent s"
  by (elim socket_stepE socket_cases) (auto simp: writer_stopping_def socket_edits)

text \<open>Cancelling a connection drops what is queued for it: unless the writer is in the middle of a
  message, nothing is sent to the client from then on, not the responses of finished requests and not
  the reply to its close frame.\<close>

theorem cancel_drops_queue:
  assumes "cancelled s" "write_at s = Writing" "socket_reach parse reply_text s s'"
  shows "sent s' = sent s"
  using stopping.constant_star [OF assms(3) [unfolded socket_reach_def], of sent]
    stopping_sends_nothing assms(1,2) by (auto simp: writer_stopping_def)

definition filled_socket :: "nat \<Rightarrow> nat \<Rightarrow> socket" where
  "filled_socket n k = (replying_socket n)\<lparr>queue := replicate k (TextMsg ''m'')\<rparr>"

lemma reach_filled:
  assumes "k \<le> n"
  shows "run_to (replying_socket n) (filled_socket n k)"
  using assms
proof (induction k)
  case 0
  then show ?case by (simp add: filled_socket_def replying_socket_def socket_new_def)
next
  case (Suc k)
  have "socket_step no_requests plain_reply (filled_socket n k)
      (enqueue (TextMsg ''m'') (filled_socket n k))"
    by (rule pushed) (use Suc.prems in \<open>simp_all add: filled_socket_def replying_socket_def socket_new_def has_room_def\<close>)
  moreover have "enqueue (TextMsg ''m'') (filled_socket n k) = filled_socket n (Suc k)"
    by (simp add: filled_socket_def enqueue_def replicate_append_same)
  ultimately show ?case
    using Suc by (metis Suc_leD reach_refl reach_step reach_trans)
qed

theorem cancel_drops_queue_witness:
  "run_to (socket_new 24) (cancel (filled_socket 24 3)) \<and>
    {s'. run_to (cancel (filled_socket 24 3)) s'} \<subseteq> {s'. sent s' = []}"
proof -
  have "run_to (socket_new 24) (filled_socket 24 3)"
    using reach_trans [OF reach_replying reach_filled] by simp
  moreover have "socket_step no_requests plain_reply (filled_socket 24 3) (cancel (filled_socket 24 3))"
    by (rule shut_down) (simp add: filled_socket_def replying_socket_def socket_new_def)
  ultimately have "run_to (socket_new 24) (cancel (filled_socket 24 3))"
    by (blast intro: reach_trans reach_step reach_refl)
  moreover have "sent s' = []" if "run_to (cancel (filled_socket 24 3)) s'" for s'
    using cancel_drops_queue [OF _ _ that]
    by (simp add: filled_socket_def replying_socket_def socket_new_def cancel_def)
  ultimately show ?thesis by blast
qed


section \<open>A connection that cannot end\<close>

text \<open>Nobody takes from the channel any more, it is full, and a finished request still waits to put its
  response into it.\<close>

definition stuck :: "socket \<Rightarrow> bool" where
  "stuck s \<longleftrightarrow> cancelled s \<and> write_at s = WriteDone \<and> \<not> chan_closed s \<and>
     length (queue s) = capacity s \<and> (\<exists>req m. Replying req m \<in># handlers s) \<and>
     read_at s \<noteq> ReadDone \<and> registered s"

lemma stuck_step:
  assumes "stuck s" "socket_step parse reply_text s s'"
  shows "stuck s'"
proof -
  obtain req m where waiting: "Replying req m \<in># handlers s" using assms(1) by (auto simp: stuck_def)
  have "Replying req m \<in># handlers s'"
    using assms waiting
    by (elim socket_stepE socket_cases) (auto simp: stuck_def socket_edits is_done_def)
  moreover have "read_at s' \<noteq> ReadDone"
    using assms waiting
    by (elim socket_stepE socket_cases) (auto simp: stuck_def socket_edits)
  ultimately show ?thesis
    using assms by (elim socket_stepE socket_cases) (auto simp: stuck_def socket_edits)
qed

interpretation stuck: invariant "socket_step parse reply_text" stuck for parse reply_text
  by unfold_locales (rule stuck_step)


definition stuck_sample :: "nat \<Rightarrow> socket" where
  "stuck_sample n = cancel (filled_socket n n)\<lparr>write_at := WriteDone\<rparr>"

lemma stuck_stuck_sample: "stuck (stuck_sample n)"
  by (auto simp: stuck_def stuck_sample_def filled_socket_def replying_socket_def socket_new_def cancel_def)

lemma reach_stuck_sample:
  assumes "0 < n"
  shows "run_to (socket_new n) (stuck_sample n)"
proof -
  let ?full = "filled_socket n n"
  have "run_to (socket_new n) ?full"
    using reach_trans [OF reach_replying reach_filled] assms by simp
  moreover have "socket_step no_requests plain_reply ?full (cancel ?full)"
    by (rule shut_down) (simp add: filled_socket_def replying_socket_def socket_new_def)
  moreover have "write_step (cancel ?full) (stuck_sample n)"
    unfolding stuck_sample_def
    by (rule write_cancelled)
      (simp_all add: filled_socket_def replying_socket_def socket_new_def cancel_def)
  ultimately show ?thesis
    by (meson by_write reach_refl reach_step reach_trans)
qed


section \<open>Panics\<close>

definition reading_over :: "message list \<Rightarrow> socket \<Rightarrow> bool" where
  "reading_over ms s \<longleftrightarrow> received s = ms \<and>
     (Panicked \<in># handlers s \<or> cancelled s \<or> read_at s \<noteq> Reading)"

interpretation panic: invariant "socket_step parse reply_text" "reading_over ms" for parse reply_text ms
proof unfold_locales
  show "reading_over ms s \<Longrightarrow> socket_step parse reply_text s s' \<Longrightarrow> reading_over ms s'" for s s'
    by (elim socket_stepE socket_cases)
      (auto simp: reading_over_def socket_edits no_done_def is_done_def)
qed

text \<open>One binary frame ends a connection: its task panics, and from then on no further request of the
  client is read.\<close>

theorem binary_frame_ends_reading:
  assumes "handlers s = add_mset (Holding (BinaryMsg b)) hs"
    and "s1 = s\<lparr>permits := permits s + 1, handlers := add_mset Panicked hs\<rparr>"
    and "socket_reach parse reply_text s1 s'"
  shows "handle_step parse reply_text s s1 \<and> received s' = received s"
proof -
  have "reading_over (received s) s1" by (simp add: assms(2) reading_over_def)
  then have "reading_over (received s) s'"
    by (rule panic.kept_star [OF assms(3) [unfolded socket_reach_def]])
  moreover have "handle_step parse reply_text s s1"
    unfolding assms(2) by (rule unreachable [OF assms(1)])
  ultimately show ?thesis by (simp add: reading_over_def)
qed

theorem binary_frame_ends_reading_witness:
  "\<exists>s s1. s = (socket_new 24)\<lparr>permits := 23, handlers := {#Holding (BinaryMsg [0])#}\<rparr> \<and>
    handle_step no_requests plain_reply s s1 \<and> (\<forall>s'. run_to s1 s' \<longrightarrow> received s' = [])"
proof -
  let ?s = "(socket_new 24)\<lparr>permits := 23, handlers := {#Holding (BinaryMsg [0])#}\<rparr>"
  let ?s1 = "?s\<lparr>permits := permits ?s + 1, handlers := add_mset Panicked {#}\<rparr>"
  have "handle_step no_requests plain_reply ?s ?s1 \<and> received s' = received ?s" if "run_to ?s1 s'" for s'
    by (rule binary_frame_ends_reading [OF _ refl that]) simp
  moreover have "received ?s = []" by (simp add: socket_new_def)
  ultimately show ?thesis using reach_refl by metis
qed

end
