(* ===== verification/Socket_Close.thy ===== *)
theory Socket_Close
  imports Socket_Safety
begin

text \<open>
  When a connection can end.  \<open>Socket_Safety\<close> shows a cancelled connection that never does; this
  theory gives the condition under which one can: the channel has room for what its tasks still want
  to send, since after the cancellation nobody takes anything out of it.
\<close>

section \<open>The tasks of requests hold requests\<close>

definition handles_requests :: "socket \<Rightarrow> bool" where
  "handles_requests s \<longleftrightarrow> (\<forall>h \<in># handlers s. \<forall>m. h = Acquiring m \<or> h = Holding m \<longrightarrow> is_request m)"

interpretation requests: invariant "socket_step parse reply_text" handles_requests for parse reply_text
proof unfold_locales
  show "handles_requests s \<Longrightarrow> socket_step parse reply_text s s' \<Longrightarrow> handles_requests s'" for s s'
    by (elim socket_stepE socket_cases) (auto simp: handles_requests_def socket_edits)
qed

section \<open>Room for what is still to be sent\<close>

fun sends :: "handler \<Rightarrow> nat" where
  "sends (Acquiring m) = 1"
| "sends (Holding m) = 1"
| "sends (Replying req m) = 1"
| "sends Finished = 0"
| "sends Panicked = 0"

definition to_send :: "socket \<Rightarrow> nat" where
  "to_send s = (if ping_at s = PingSending then 1 else 0) + (if read_at s = ReplyingClose then 1 else 0) +
     (\<Sum>h \<in># handlers s. sends h)"

definition closable :: "nat \<Rightarrow> socket \<Rightarrow> bool" where
  "closable n s \<longleftrightarrow> 0 < n \<and> bounded n s \<and> ended s \<and> handles_requests s \<and> cancelled s \<and>
     (registered s \<longrightarrow> length (queue s) + to_send s \<le> n)"

fun handler_work :: "handler \<Rightarrow> nat" where
  "handler_work (Acquiring m) = 4"
| "handler_work (Holding m) = 3"
| "handler_work (Replying req m) = 2"
| "handler_work Finished = 1"
| "handler_work Panicked = 1"

definition close_distance :: "socket \<Rightarrow> nat" where
  "close_distance s =
     (case ping_at s of PingIdle \<Rightarrow> 1 | PingSending \<Rightarrow> 2 | PingDone \<Rightarrow> 0) +
     (case read_at s of Reading \<Rightarrow> 3 | ReplyingClose \<Rightarrow> 3 | Draining \<Rightarrow> 1 | ReadDone \<Rightarrow> 0) +
     (case write_at s of Writing \<Rightarrow> 1 | WriteSending m \<Rightarrow> 2 | WriteDone \<Rightarrow> 0) +
     (\<Sum>h \<in># handlers s. handler_work h) + (if registered s then 1 else 0)"

text \<open>The steps that bring a connection to its end: what a client that sends nothing more and a server
  that pushes nothing more leave to its tasks.\<close>

definition closing_step ::
    "(string \<Rightarrow> request option) \<Rightarrow> (response \<Rightarrow> string) \<Rightarrow> socket \<Rightarrow> socket \<Rightarrow> bool" where
  "closing_step parse reply_text s s' \<longleftrightarrow>
     socket_step parse reply_text s s' \<and> close_distance s' < close_distance s"

lemma send_needed: "h \<in># hs \<Longrightarrow> 0 < sends h \<Longrightarrow> 0 < (\<Sum>h \<in># hs. sends h)"
  by (auto dest!: multi_member_split)

lemma closing_room:
  assumes "closing_step parse reply_text s s'" "registered s'" "cancelled s"
    "length (queue s) + to_send s \<le> n"
  shows "length (queue s') + to_send s' \<le> n"
  using assms unfolding closing_step_def
  by (elim conjE socket_stepE socket_cases)
    (auto simp: to_send_def close_distance_def socket_edits split: if_splits)

lemma closing_kept: "closable n s \<Longrightarrow> closing_step parse reply_text s s' \<Longrightarrow> closable n s'"
proof -
  assume s: "closable n s" and step: "closing_step parse reply_text s s'"
  then have one: "socket_step parse reply_text s s'" by (simp add: closing_step_def)
  have "cancelled s'" "registered s' \<Longrightarrow> registered s"
    using one s by (elim socket_stepE socket_cases; auto simp: closable_def socket_edits)+
  then show "closable n s'"
    using s step bounds.kept [OF _ one] ending.kept [OF _ one] requests.kept [OF _ one] closing_room [OF step]
    by (auto simp: closable_def)
qed

section \<open>Some task can always make such a step\<close>

lemma closing_intro:
  "socket_step parse reply_text s s' \<Longrightarrow> close_distance s' < close_distance s \<Longrightarrow>
     \<exists>s'. closing_step parse reply_text s s'"
  by (auto simp: closing_step_def)

lemma open_channel: "closable n s \<Longrightarrow> registered s \<Longrightarrow> \<not> chan_closed s"
  by (simp add: closable_def ended_def)

lemma room_to_send:
  assumes "closable n s" "registered s" "0 < to_send s"
  shows "has_room s"
  using assms open_channel [OF assms(1,2)] by (auto simp: closable_def has_room_def bounded_def)

lemma ping_closes:
  assumes "closable n s" "registered s" "ping_at s \<noteq> PingDone"
  shows "\<exists>s'. closing_step parse reply_text s s'"
proof (cases "ping_at s")
  case PingIdle
  with assms(1) show ?thesis
    by (intro closing_intro [OF by_ping [OF ping_cancelled]]) (auto simp: closable_def close_distance_def)
next
  case PingSending
  then have "has_room s" using room_to_send [OF assms(1,2)] by (simp add: to_send_def)
  with PingSending show ?thesis
    by (intro closing_intro [OF by_ping [OF ping_sent]]) (auto simp: close_distance_def enqueue_def)
qed (use assms(3) in simp)

lemma write_closes:
  assumes "closable n s" "write_at s \<noteq> WriteDone"
  shows "\<exists>s'. closing_step parse reply_text s s'"
proof (cases "write_at s")
  case Writing
  with assms(1) show ?thesis
    by (intro closing_intro [OF by_write [OF write_cancelled]]) (auto simp: closable_def close_distance_def)
next
  case (WriteSending m)
  then show ?thesis
    by (intro closing_intro [OF by_write [OF write_sent]]) (auto simp: close_distance_def)
qed (use assms(2) in simp)

lemma reading_closes:
  assumes "closable n s" "registered s" "read_at s = Reading \<or> read_at s = ReplyingClose"
  shows "\<exists>s'. closing_step parse reply_text s s'"
proof (cases "read_at s = Reading")
  case True
  with assms(1) show ?thesis
    by (intro closing_intro [OF by_read [OF read_cancelled]]) (auto simp: closable_def close_distance_def)
next
  case False
  then have at: "read_at s = ReplyingClose" using assms(3) by simp
  then have "has_room s" using room_to_send [OF assms(1,2)] by (simp add: to_send_def)
  with at show ?thesis
    by (intro closing_intro [OF by_read [OF close_replied]])
      (auto simp: close_distance_def cancel_def enqueue_def)
qed

lemma holding_closes:
  assumes "closable n s" "handlers s = add_mset (Holding m) hs"
  shows "\<exists>s'. closing_step parse reply_text s s'"
proof -
  have "is_request m" using assms by (simp add: closable_def handles_requests_def)
  then consider (text_msg) t where "m = TextMsg t" | (binary) b where "m = BinaryMsg b"
    by (cases m) (simp_all add: is_request_def)
  then show ?thesis
  proof cases
    case (text_msg t)
    show ?thesis
    proof (cases "parse t")
      case None
      with text_msg assms(2) show ?thesis
        by (intro closing_intro [OF by_handler [OF malformed]]) (auto simp: close_distance_def)
    next
      case (Some req)
      with text_msg assms(2) show ?thesis
        by (intro closing_intro [OF by_handler [OF processed [where res = "Inr JNull"]]])
          (auto simp: close_distance_def)
    qed
  next
    case (binary b)
    with assms(2) show ?thesis
      by (intro closing_intro [OF by_handler [OF unreachable]]) (auto simp: close_distance_def)
  qed
qed

lemma replying_closes:
  assumes "closable n s" "registered s" "handlers s = add_mset (Replying req m) hs"
  shows "\<exists>s'. closing_step parse reply_text s s'"
proof -
  have "has_room s" using room_to_send [OF assms(1,2)] assms(3) by (simp add: to_send_def)
  with assms(3) show ?thesis
    by (intro closing_intro [OF by_handler [OF replied]]) (auto simp: close_distance_def enqueue_def)
qed

lemma active_closes:
  assumes "closable n s" "registered s" "h \<in># handlers s" "active h"
  shows "\<exists>s'. closing_step parse reply_text s s'"
proof -
  obtain hs where "handlers s = add_mset h hs" using assms(3) by (meson multi_member_split)
  with assms(1,2,4) show ?thesis
    by (cases h) (auto intro: holding_closes replying_closes)
qed

lemma acquiring_closes:
  assumes "closable n s" "registered s" "Acquiring m \<in># handlers s"
  shows "\<exists>s'. closing_step parse reply_text s s'"
proof (cases "permits s")
  case 0
  then have "size (filter_mset active (handlers s)) \<noteq> 0"
    using assms(1) by (simp add: closable_def bounded_def)
  then have "filter_mset active (handlers s) \<noteq> {#}" by (simp only: size_eq_0_iff_empty not_False_eq_True)
  then obtain h where "h \<in># filter_mset active (handlers s)" by (rule multiset_nonemptyE)
  then have "h \<in># handlers s" "active h" by simp_all
  with assms(1,2) show ?thesis by (rule active_closes)
next
  case (Suc p)
  obtain hs where "handlers s = add_mset (Acquiring m) hs" using assms(3) by (meson multi_member_split)
  with Suc show ?thesis
    by (intro closing_intro [OF by_handler [OF acquired]]) (auto simp: close_distance_def)
qed

lemma drain_closes:
  assumes "closable n s" "registered s" "read_at s = Draining"
  shows "\<exists>s'. closing_step parse reply_text s s'"
proof (cases "handlers s = {#}")
  case True
  with assms(3) show ?thesis
    by (intro closing_intro [OF by_read [OF drain_done]]) (auto simp: close_distance_def)
next
  case False
  then obtain h where h: "h \<in># handlers s" by (meson multiset_nonemptyE)
  then obtain hs where hs: "handlers s = add_mset h hs" by (meson multi_member_split)
  show ?thesis
  proof (cases h)
    case (Acquiring m)
    with h show ?thesis using acquiring_closes [OF assms(1,2)] by simp
  next
    case (Holding m)
    with h show ?thesis using active_closes [OF assms(1,2)] by simp
  next
    case (Replying req m)
    with h show ?thesis using active_closes [OF assms(1,2)] by simp
  qed (use hs assms(3) in \<open>auto intro!: closing_intro [OF by_read [OF drain_joined [of _ h hs]]]
      simp: close_distance_def is_done_def\<close>)
qed

lemma closing_enabled:
  assumes "closable n s" "registered s"
  shows "\<exists>s'. closing_step parse reply_text s s'"
proof -
  consider "ping_at s \<noteq> PingDone" | "write_at s \<noteq> WriteDone"
    | "read_at s = Reading \<or> read_at s = ReplyingClose" | "read_at s = Draining"
    | (over) "ping_at s = PingDone" "read_at s = ReadDone" "write_at s = WriteDone"
    by (cases "read_at s") auto
  then show ?thesis
  proof cases
    case over
    with assms show ?thesis
      by (intro closing_intro [OF served]) (auto simp: close_distance_def)
  qed (use assms in \<open>blast intro: ping_closes write_closes reading_closes drain_closes\<close>)+
qed

interpretation closing: terminating "closing_step parse reply_text" "closable n" close_distance
    "\<lambda>s. \<not> registered s" for parse reply_text n
proof unfold_locales
  show "closable n s \<Longrightarrow> closing_step parse reply_text s s' \<Longrightarrow> closable n s'" for s s'
    by (rule closing_kept)
  show "closing_step parse reply_text s s' \<Longrightarrow> close_distance s' < close_distance s" for s s'
    by (simp add: closing_step_def)
  show "closable n s \<Longrightarrow> \<not> \<not> registered s \<Longrightarrow> \<exists>s'. closing_step parse reply_text s s'" for s
    using closing_enabled by blast
qed



end
