(* ===== verification/Shutdown.thy ===== *)
theory Shutdown
  imports Socket_Safety
begin

text \<open>
  \<open>src/shutdown.rs\<close>: the signals, and the two ways the server goes down.  The graceful way waits
  for the HTTP connections, then cancels every registered socket and polls until the registry is
  empty; a second signal empties the registry at once, if nobody holds its lock.  The HTTP handle is
  \<open>axum_server\<close>'s: it appears as its connection count.
\<close>

section \<open>Signals\<close>

datatype unix_signal = SigHup | SigInt | SigQuit | SigTerm

fun unix_signal_name :: "unix_signal \<Rightarrow> string" where
  "unix_signal_name SigHup = ''SIGHUP''"
| "unix_signal_name SigInt = ''SIGINT''"
| "unix_signal_name SigQuit = ''SIGQUIT''"
| "unix_signal_name SigTerm = ''SIGTERM''"

datatype windows_signal = CtrlC | CtrlBreak | CtrlClose | CtrlShutdown

fun windows_signal_name :: "windows_signal \<Rightarrow> string" where
  "windows_signal_name CtrlC = ''CTRL-C''"
| "windows_signal_name CtrlBreak = ''CTRL-BREAK''"
| "windows_signal_name CtrlClose = ''CTRL-CLOSE''"
| "windows_signal_name CtrlShutdown = ''CTRL-SHUTDOWN''"

lemma signal_names_inject:
  "unix_signal_name a = unix_signal_name b \<longleftrightarrow> a = b"
  "windows_signal_name c = windows_signal_name d \<longleftrightarrow> c = d"
  by (cases a; cases b; simp) (cases c; cases d; simp)

section \<open>Going down\<close>

datatype shutdown_phase = AwaitSignal | HttpDraining | SocketsDraining | Stopped

record shutdown_state =
  phase :: shutdown_phase
  http_connections :: nat
  registry_locked :: bool
  sockets :: "socket list"
  ct_cancelled :: bool

text \<open>\<open>for (_, rpc) in WEBSOCKETS { rpc.canceller.cancel() }\<close>\<close>

definition cancel_all :: "socket list \<Rightarrow> socket list" where
  "cancel_all ss = map cancel ss"

text \<open>\<open>rpc_shutdown\<close>: the registry is drained unless its lock is taken.\<close>

definition rpc_shutdown :: "shutdown_state \<Rightarrow> shutdown_state" where
  "rpc_shutdown s = (if registry_locked s then s else s\<lparr>sockets := []\<rparr>)"

inductive shutdown_step ::
    "(string \<Rightarrow> request option) \<Rightarrow> (response \<Rightarrow> string) \<Rightarrow> shutdown_state \<Rightarrow> shutdown_state \<Rightarrow> bool"
  for parse reply_text where
  signalled: "shutdown_step parse reply_text s (s\<lparr>phase := HttpDraining\<rparr>)"
    if "phase s = AwaitSignal"
| http_drained: "shutdown_step parse reply_text s (s\<lparr>phase := SocketsDraining, sockets := cancel_all (sockets s)\<rparr>)"
    if "phase s = HttpDraining" "http_connections s = 0"
| sockets_drained: "shutdown_step parse reply_text s (s\<lparr>phase := Stopped, ct_cancelled := True\<rparr>)"
    if "phase s = SocketsDraining" "sockets s = []"
| http_closed: "shutdown_step parse reply_text s (s\<lparr>http_connections := http_connections s - 1\<rparr>)"
| locked: "shutdown_step parse reply_text s (s\<lparr>registry_locked := b\<rparr>)"
| socket_runs: "shutdown_step parse reply_text s (s\<lparr>sockets := (sockets s)[i := k]\<rparr>)"
    if "i < length (sockets s)" "socket_step parse reply_text (sockets s ! i) k"
| socket_removed: "shutdown_step parse reply_text s (s\<lparr>sockets := take i (sockets s) @ drop (Suc i) (sockets s)\<rparr>)"
    if "i < length (sockets s)" "\<not> registered (sockets s ! i)"

text \<open>The second signal.\<close>

definition force_stop :: "shutdown_state \<Rightarrow> shutdown_state" where
  "force_stop s = (rpc_shutdown s)\<lparr>phase := Stopped, ct_cancelled := True\<rparr>"

section \<open>What a shutdown achieves\<close>

definition waits_for_stuck :: "shutdown_state \<Rightarrow> bool" where
  "waits_for_stuck s \<longleftrightarrow> phase s = SocketsDraining \<and> (\<exists>k \<in> set (sockets s). stuck k)"

lemma waits_for_stuck_step:
  assumes "waits_for_stuck s" "shutdown_step parse reply_text s s'"
  shows "waits_for_stuck s'"
proof -
  obtain j where j: "j < length (sockets s)" "stuck (sockets s ! j)"
    using assms(1) by (auto simp: waits_for_stuck_def in_set_conv_nth)
  from assms(2) show ?thesis
  proof cases
    case (socket_runs i k)
    have "stuck ((sockets s)[i := k] ! j)"
      using socket_runs j stuck_step by (cases "i = j") auto
    moreover have "(sockets s)[i := k] ! j \<in> set ((sockets s)[i := k])"
      using j(1) by (intro nth_mem) simp
    ultimately show ?thesis
      using socket_runs(1) assms(1) by (auto simp: waits_for_stuck_def)
  next
    case (socket_removed i)
    have "sockets s ! j \<noteq> sockets s ! i" using socket_removed(3) j(2) by (auto simp: stuck_def)
    moreover have "set (sockets s) = insert (sockets s ! i) (set (take i (sockets s) @ drop (Suc i) (sockets s)))"
      using arg_cong [OF id_take_nth_drop [OF socket_removed(2)], of set] by simp
    ultimately have "sockets s ! j \<in> set (take i (sockets s) @ drop (Suc i) (sockets s))"
      using nth_mem [OF j(1)] by auto
    then show ?thesis
      using socket_removed(1) j(2) assms(1) by (auto simp: waits_for_stuck_def)
  qed (use assms(1) in \<open>auto simp: waits_for_stuck_def\<close>)
qed

interpretation graceful: invariant "shutdown_step parse reply_text" waits_for_stuck for parse reply_text
  by unfold_locales (rule waits_for_stuck_step)

text \<open>One connection that cannot end keeps the server from going down gracefully: while the shutdown
  waits for the sockets and one of them is stuck, no schedule reaches the end without a second signal.\<close>

theorem stuck_socket_blocks_shutdown:
  assumes "phase s = SocketsDraining" "k \<in> set (sockets s)" "stuck k"
    and "(shutdown_step parse reply_text)\<^sup>*\<^sup>* s s'"
  shows "phase s' = SocketsDraining \<and> sockets s' \<noteq> []"
proof -
  have "waits_for_stuck s" using assms(1-3) by (auto simp: waits_for_stuck_def)
  then have "waits_for_stuck s'" by (rule graceful.kept_star [OF assms(4)])
  then show ?thesis by (auto simp: waits_for_stuck_def)
qed

theorem stuck_socket_blocks_shutdown_witness:
  "{s'. (shutdown_step no_requests plain_reply)\<^sup>*\<^sup>* \<lparr>phase = SocketsDraining, http_connections = 0,
      registry_locked = False, sockets = [stuck_sample 24], ct_cancelled = False\<rparr> s'} \<subseteq>
    {s'. sockets s' \<noteq> []}"
proof
  fix s'
  assume "s' \<in> {s'. (shutdown_step no_requests plain_reply)\<^sup>*\<^sup>* \<lparr>phase = SocketsDraining, http_connections = 0,
      registry_locked = False, sockets = [stuck_sample 24], ct_cancelled = False\<rparr> s'}"
  then have run: "(shutdown_step no_requests plain_reply)\<^sup>*\<^sup>* \<lparr>phase = SocketsDraining, http_connections = 0,
      registry_locked = False, sockets = [stuck_sample 24], ct_cancelled = False\<rparr> s'"
    by (rule CollectD)
  from stuck_socket_blocks_shutdown [OF _ _ stuck_stuck_sample run] show "s' \<in> {s'. sockets s' \<noteq> []}"
    by simp
qed

definition stopped_clean :: "shutdown_state \<Rightarrow> bool" where
  "stopped_clean s \<longleftrightarrow> (phase s = Stopped \<or> ct_cancelled s \<longrightarrow> phase s = Stopped \<and> sockets s = [])"

interpretation clean: invariant "shutdown_step parse reply_text" stopped_clean for parse reply_text
proof unfold_locales
  show "stopped_clean s \<Longrightarrow> shutdown_step parse reply_text s s' \<Longrightarrow> stopped_clean s'" for s s'
    by (elim shutdown_step.cases) (auto simp: stopped_clean_def)
qed

text \<open>A graceful stop is complete: when the server's token is cancelled without a second signal, no
  socket is registered any more.\<close>

theorem graceful_stop_is_complete:
  assumes "(shutdown_step parse reply_text)\<^sup>*\<^sup>* s s'" "phase s = AwaitSignal" "\<not> ct_cancelled s"
    and "ct_cancelled s'"
  shows "sockets s' = []"
proof -
  have "stopped_clean s" using assms(2,3) by (simp add: stopped_clean_def)
  then have "stopped_clean s'" by (rule clean.kept_star [OF assms(1)])
  with assms(4) show ?thesis by (simp add: stopped_clean_def)
qed

theorem graceful_stop_is_complete_witness:
  "sockets \<lparr>phase = Stopped, http_connections = 0, registry_locked = False, sockets = [],
     ct_cancelled = True\<rparr> = []"
proof -
  let ?mk = "\<lambda>p c. \<lparr>phase = p, http_connections = 0, registry_locked = False, sockets = [],
     ct_cancelled = c\<rparr>"
  have "shutdown_step no_requests plain_reply (?mk AwaitSignal False) (?mk HttpDraining False)"
    using signalled [of "?mk AwaitSignal False" no_requests plain_reply] by simp
  moreover have "shutdown_step no_requests plain_reply (?mk HttpDraining False) (?mk SocketsDraining False)"
    using http_drained [of "?mk HttpDraining False" no_requests plain_reply] by (simp add: cancel_all_def)
  moreover have "shutdown_step no_requests plain_reply (?mk SocketsDraining False) (?mk Stopped True)"
    using sockets_drained [of "?mk SocketsDraining False" no_requests plain_reply] by simp
  ultimately have "(shutdown_step no_requests plain_reply)\<^sup>*\<^sup>* (?mk AwaitSignal False) (?mk Stopped True)"
    by (meson converse_rtranclp_into_rtranclp rtranclp.rtrancl_refl)
  then show ?thesis by (rule graceful_stop_is_complete) simp_all
qed

end
