(* ===== verification/Server.thy ===== *)
theory Server
  imports Shutdown
begin

text \<open>
  \<open>src/handler/rpc/constants.rs\<close>: the limits of a socket, read from the environment; and
  \<open>src/server.rs\<close>, \<open>serve\<close>: the HTTP server beside the task that shuts it down.  Of
  \<open>axum_server\<close> the model uses that, after a graceful shutdown without a deadline, \<open>serve\<close>
  returns when no HTTP connection is left; a connection that was upgraded to a WebSocket is none.
\<close>

section \<open>Limits\<close>

text \<open>\<open>str::parse::<usize>\<close> on a 64-bit machine: digits after an optional plus sign.\<close>

definition parse_usize :: "string \<Rightarrow> nat option" where
  "parse_usize s =
     (let ds = (case s of c # cs \<Rightarrow> if c = CHR ''+'' then cs else s | [] \<Rightarrow> s);
          n = digits_value 0 ds
      in if ds \<noteq> [] \<and> list_all (\<lambda>c. to_digit c \<noteq> None) ds \<and> n < 2 ^ 64 then Some n else None)"

text \<open>\<open>lazy_env_parse!\<close>: \<open>var\<close> is the variable, if it is set and is Unicode.\<close>

definition env_parse :: "nat \<Rightarrow> string option \<Rightarrow> nat" where
  "env_parse dflt var =
     (case var of
        None \<Rightarrow> dflt
      | Some s \<Rightarrow> (case parse_usize s of None \<Rightarrow> dflt | Some n \<Rightarrow> n))"

definition WEBSOCKET_MAX_CONCURRENT_REQUESTS :: "(string \<Rightarrow> string option) \<Rightarrow> nat" where
  "WEBSOCKET_MAX_CONCURRENT_REQUESTS env = env_parse 24 (env ''TENANT_WEBSOCKET_MAX_CONCURRENT_REQUESTS'')"

definition WEBSOCKET_PING_FREQUENCY :: nat where
  "WEBSOCKET_PING_FREQUENCY = 5"

definition WEBSOCKET_MAX_FRAME_SIZE :: "(string \<Rightarrow> string option) \<Rightarrow> nat" where
  "WEBSOCKET_MAX_FRAME_SIZE env = env_parse (push_bit 20 16) (env ''TENANT_WEBSOCKET_MAX_FRAME_SIZE'')"

definition WEBSOCKET_MAX_MESSAGE_SIZE :: "(string \<Rightarrow> string option) \<Rightarrow> nat" where
  "WEBSOCKET_MAX_MESSAGE_SIZE env = env_parse (push_bit 20 128) (env ''TENANT_WEBSOCKET_MAX_MESSAGE_SIZE'')"

definition PROTOCOLS :: "string list" where
  "PROTOCOLS = [''json'', ''cbor'', ''msgpack'', ''bincode'', ''revision'']"

lemma decimal_digits: "list_all (\<lambda>c. to_digit c \<noteq> None) (decimal n)"
proof (induction n rule: decimal.induct)
  case (1 n)
  then show ?case by (cases "n < 10") (simp_all add: decimal.simps [of n])
qed

lemma decimal_not_Nil: "decimal n \<noteq> []"
  by (subst decimal.simps) simp

lemma parse_usize_decimal:
  assumes "n < 2 ^ 64"
  shows "parse_usize (decimal n) = Some n"
proof (cases "decimal n")
  case (Cons c cs)
  then have "to_digit c \<noteq> None" using decimal_digits [of n] by simp
  then have "c \<noteq> CHR ''+''" by (auto simp: to_digit_def)
  with Cons assms show ?thesis
    using decimal_digits [of n] digits_value_decimal [of n] by (simp add: parse_usize_def Let_def)
qed (simp add: decimal_not_Nil)

text \<open>A limit written in decimal is the limit that is used; without a variable it is 24.\<close>

theorem limit_from_environment:
  "WEBSOCKET_MAX_CONCURRENT_REQUESTS (\<lambda>_. None) = 24 \<and>
   WEBSOCKET_MAX_CONCURRENT_REQUESTS (\<lambda>_. Some (decimal (n mod 2 ^ 64))) = n mod 2 ^ 64"
  by (simp add: WEBSOCKET_MAX_CONCURRENT_REQUESTS_def env_parse_def parse_usize_decimal)

section \<open>Serving\<close>

text \<open>The process runs \<open>serve\<close> and the shutdown task side by side; when \<open>serve\<close> has returned,
  \<open>main\<close> returns, and with it every task ends where it is.  The first component says whether the
  process has ended.\<close>

inductive serve_step ::
    "(string \<Rightarrow> request option) \<Rightarrow> (response \<Rightarrow> string) \<Rightarrow> bool \<times> shutdown_state \<Rightarrow> bool \<times> shutdown_state \<Rightarrow> bool"
  for parse reply_text where
  runs: "shutdown_step parse reply_text s s' \<Longrightarrow> serve_step parse reply_text (False, s) (False, s')"
| returns: "serve_step parse reply_text (False, s) (True, s)"
    if "phase s \<noteq> AwaitSignal" "http_connections s = 0"

inductive_cases serve_overE: "serve_step parse reply_text (True, s) p"

lemma over_stays: "(serve_step parse reply_text)\<^sup>*\<^sup>* (True, s) p \<Longrightarrow> p = (True, s)"
  by (induction rule: rtranclp_induct) (auto elim: serve_overE)



section \<open>Routes\<close>

datatype http_method = HttpGet | HttpPost

datatype route_handler = OrganizationInit | RpcGet | RpcPost | StatusHello

text \<open>The table \<open>router\<close> builds, and the one \<open>serve\<close> merges it into; what a path pattern matches
  is axum's.\<close>

definition api_routes :: "(string \<times> http_method \<times> route_handler) list" where
  "api_routes = [(''/org-init'', HttpPost, OrganizationInit),
     (''/:organization/rpc'', HttpGet, RpcGet), (''/:organization/rpc'', HttpPost, RpcPost)]"

definition app_routes :: "(string \<times> http_method \<times> route_handler) list" where
  "app_routes = (''/status'', HttpGet, StatusHello) # api_routes"

text \<open>No two handlers share a path and a method, which axum would answer with a panic at the start.\<close>

theorem routes_do_not_overlap: "distinct (map (\<lambda>(path, m, h). (path, m)) app_routes)"
  by (simp add: app_routes_def api_routes_def)

end
