(* ===== verification/Rpc_Lock.thy ===== *)
theory Rpc_Lock
  imports Rpc Transition
begin

text \<open>
  The lock of a connection.  Every task of \<open>connection.rs\<close> reaches the connection through an
  \<open>RwLock\<close>, and every message's task needs one of the semaphore's permits.  A guard lives to the
  end of the statement it is taken in, so the first statement of \<open>handle_message\<close>,
  \<open>rpc.read().await.limiter.clone().acquire_owned().await\<close>, waits for a permit while it holds the
  lock for reading.  The lock is tokio's: first come, first served, a reader queues behind a waiting
  writer.  This theory is the interleaving of these acquisitions; what the methods compute is in
  \<open>Connection\<close>.
\<close>

section \<open>What a method acquires\<close>

datatype lock_op = Shared | Exclusive

text \<open>The guards each method takes, in order, each held to the end of its statement.\<close>

fun lock_script :: "request_data \<Rightarrow> lock_op list" where
  "lock_script (Query p) = [Shared, Shared, Shared]"
| "lock_script (Login p) = [Shared, Shared, Exclusive]"
| "lock_script (Authenticate token) = [Shared, Exclusive]"
| "lock_script (Transaction TxnBegin) = [Shared, Exclusive]"
| "lock_script (Transaction TxnCommit) = [Exclusive]"
| "lock_script (Transaction TxnRollback) = [Exclusive]"
| "lock_script (QueryStream p) = [Shared, Shared]"

section \<open>Tasks and the lock\<close>

text \<open>\<open>Entering\<close> waits for the first read guard, \<open>Admitting\<close> holds it and waits for a permit;
  with a permit a task is between two guards, waits for one or holds one.  The request of a message
  that does not parse is \<open>None\<close>.\<close>

datatype lock_task =
    Entering "request_data option"
  | Admitting "request_data option"
  | Between "lock_op list"
  | Waiting lock_op "lock_op list"
  | Guarding lock_op "lock_op list"
  | Over

record lock_state =
  free_permits :: nat
  waitq :: "(nat \<times> lock_op) list"
  tasks :: "lock_task list"

definition reads :: "lock_task \<Rightarrow> bool" where
  "reads t \<longleftrightarrow> (case t of Admitting d \<Rightarrow> True | Guarding op r \<Rightarrow> op = Shared | _ \<Rightarrow> False)"

definition writes :: "lock_task \<Rightarrow> bool" where
  "writes t \<longleftrightarrow> (case t of Guarding op r \<Rightarrow> op = Exclusive | _ \<Rightarrow> False)"

definition grantable :: "lock_op \<Rightarrow> lock_task list \<Rightarrow> bool" where
  "grantable op ts \<longleftrightarrow> (case op of
     Shared \<Rightarrow> \<not> list_ex writes ts
   | Exclusive \<Rightarrow> \<not> list_ex writes ts \<and> \<not> list_ex reads ts)"

fun granted :: "lock_task \<Rightarrow> lock_task" where
  "granted (Entering d) = Admitting d"
| "granted (Waiting op rest) = Guarding op rest"
| "granted t = t"

definition script_of :: "request_data option \<Rightarrow> lock_op list" where
  "script_of d = (case d of None \<Rightarrow> [] | Some r \<Rightarrow> lock_script r)"

text \<open>An error returned with \<open>?\<close> may end a task between any two guards.\<close>

inductive lock_step :: "lock_state \<Rightarrow> lock_state \<Rightarrow> bool" where
  arrive: "lock_step s (s\<lparr>waitq := waitq s @ [(length (tasks s), Shared)], tasks := tasks s @ [Entering d]\<rparr>)"
| grant: "lock_step s (s\<lparr>waitq := q, tasks := (tasks s)[i := granted (tasks s ! i)]\<rparr>)"
    if "waitq s = (i, op) # q" "grantable op (tasks s)"
| admit: "lock_step s (s\<lparr>free_permits := free_permits s - 1, tasks := (tasks s)[i := Between (script_of d)]\<rparr>)"
    if "i < length (tasks s)" "tasks s ! i = Admitting d" "0 < free_permits s"
| request_guard: "lock_step s (s\<lparr>waitq := waitq s @ [(i, op)], tasks := (tasks s)[i := Waiting op rest]\<rparr>)"
    if "i < length (tasks s)" "tasks s ! i = Between (op # rest)"
| release_guard: "lock_step s (s\<lparr>tasks := (tasks s)[i := Between rest]\<rparr>)"
    if "i < length (tasks s)" "tasks s ! i = Guarding op rest"
| complete: "lock_step s (s\<lparr>free_permits := free_permits s + 1, tasks := (tasks s)[i := Over]\<rparr>)"
    if "i < length (tasks s)" "tasks s ! i = Between rest"

inductive_cases lock_stepE: "lock_step s s'"

definition lock_new :: "nat \<Rightarrow> lock_state" where
  "lock_new n = \<lparr>free_permits = n, waitq = [], tasks = []\<rparr>"

section \<open>Mutual exclusion\<close>

fun admitted :: "lock_task \<Rightarrow> bool" where
  "admitted (Between r) = True"
| "admitted (Waiting op r) = True"
| "admitted (Guarding op r) = True"
| "admitted _ = False"

definition waits_in :: "lock_task \<Rightarrow> lock_op \<Rightarrow> bool" where
  "waits_in t op \<longleftrightarrow> (case t of Entering d \<Rightarrow> op = Shared | Waiting op' r \<Rightarrow> op' = op | _ \<Rightarrow> False)"

definition exclusive :: "lock_task list \<Rightarrow> bool" where
  "exclusive ts \<longleftrightarrow> (\<forall>i < length ts. \<forall>j < length ts. writes (ts ! i) \<longrightarrow> (writes (ts ! j) \<or> reads (ts ! j)) \<longrightarrow> i = j)"

lemma length_filter_update:
  "i < length xs \<Longrightarrow> length (filter P (xs[i := x])) + (if P (xs ! i) then 1 else 0) =
     length (filter P xs) + (if P x then 1 else 0)"
proof (induction xs arbitrary: i)
  case (Cons y ys)
  then show ?case by (cases i) auto
qed simp

lemma admitted_grant: "admitted (granted t) = admitted t"
  by (cases t) simp_all

text \<open>Replacing a task by one that holds no guard keeps the exclusion.\<close>

lemma nth_update_if: "j < length xs \<Longrightarrow> xs[i := x] ! j = (if i = j then x else xs ! j)"
  by (simp add: nth_list_update)

lemma exclusive_update:
  assumes "exclusive ts" "\<not> writes t" "\<not> reads t"
  shows "exclusive (ts[i := t])"
  using assms unfolding exclusive_def by (auto simp: nth_update_if split: if_splits)

lemma exclusive_append:
  assumes "exclusive ts" "\<not> writes t" "\<not> reads t"
  shows "exclusive (ts @ [t])"
  using assms unfolding exclusive_def by (auto simp: nth_append less_Suc_eq)

lemma exclusive_grant:
  assumes "exclusive ts" "grantable op ts" "waits_in (ts ! i) op"
  shows "exclusive (ts[i := granted (ts ! i)])"
proof (cases op)
  case Shared
  with assms have "\<not> writes (granted (ts ! i))" "\<not> list_ex writes ts"
    by (cases "ts ! i"; simp add: grantable_def waits_in_def writes_def)+
  then show ?thesis
    unfolding exclusive_def by (auto simp: nth_update_if list_ex_length split: if_splits)
next
  case Exclusive
  with assms have "\<not> list_ex writes ts" "\<not> list_ex reads ts"
    by (simp_all add: grantable_def)
  then show ?thesis
    unfolding exclusive_def by (auto simp: nth_update_if list_ex_length split: if_splits)
qed

lemma holds_nothing [simp]:
  "\<not> writes (Between r)" "\<not> reads (Between r)" "\<not> writes (Waiting op r)" "\<not> reads (Waiting op r)"
  "\<not> writes Over" "\<not> reads Over" "\<not> writes (Entering d)" "\<not> reads (Entering d)"
  by (simp_all add: writes_def reads_def)

lemma waits_in_simps [simp]:
  "waits_in (Entering d) op \<longleftrightarrow> op = Shared" "waits_in (Waiting op' r) op \<longleftrightarrow> op' = op"
  "\<not> waits_in (Between r) op" "\<not> waits_in (Admitting d) op" "\<not> waits_in (Guarding op' r) op"
  "\<not> waits_in Over op"
  by (simp_all add: waits_in_def)

definition queue_ok :: "lock_task list \<Rightarrow> (nat \<times> lock_op) list \<Rightarrow> bool" where
  "queue_ok ts q \<longleftrightarrow> distinct (map fst q) \<and>
     (\<forall>(i, op) \<in> set q. i < length ts \<and> waits_in (ts ! i) op)"

lemma queue_okD: "queue_ok ts q \<Longrightarrow> (i, op) \<in> set q \<Longrightarrow> i < length ts \<and> waits_in (ts ! i) op"
  by (auto simp: queue_ok_def)

lemma queue_ok_update:
  assumes "queue_ok ts q" "i \<notin> fst ` set q"
  shows "queue_ok (ts[i := t]) q"
proof -
  have "k < length ts \<and> waits_in (ts[i := t] ! k) op" if "(k, op) \<in> set q" for k op
  proof -
    from that assms(2) have "k \<noteq> i" by force
    with queue_okD [OF assms(1) that] show ?thesis by simp
  qed
  with assms(1) show ?thesis by (auto simp: queue_ok_def)
qed

lemma queue_ok_append:
  assumes "queue_ok ts q" "i < length ts" "i \<notin> fst ` set q"
  shows "queue_ok (ts[i := Waiting op r]) (q @ [(i, op)])"
  using queue_ok_update [OF assms(1,3)] assms(2,3) by (auto simp: queue_ok_def)

lemma queue_ok_arrive:
  assumes "queue_ok ts q"
  shows "queue_ok (ts @ [Entering d]) (q @ [(length ts, Shared)])"
proof -
  have "k < length ts" if "(k, op) \<in> set q" for k op
    using queue_okD [OF assms that] by simp
  then have "length ts \<notin> fst ` set q" by force
  with assms show ?thesis by (auto simp: queue_ok_def nth_append)
qed

lemma not_queued:
  "queue_ok ts q \<Longrightarrow> (\<And>op. \<not> waits_in (ts ! i) op) \<Longrightarrow> i \<notin> fst ` set q"
  by (force dest: queue_okD)

lemma queue_ok_step:
  assumes "queue_ok (tasks s) (waitq s)" "lock_step s s'"
  shows "queue_ok (tasks s') (waitq s')"
  using assms(2)
proof cases
  case (grant i op q)
  then have "queue_ok (tasks s) q" "i \<notin> fst ` set q"
    using assms(1) by (auto simp: queue_ok_def)
  with grant show ?thesis by (simp add: queue_ok_update)
next
  case (arrive d)
  then show ?thesis using queue_ok_arrive [OF assms(1)] by simp
next
  case (admit i d)
  then have "i \<notin> fst ` set (waitq s)" by (intro not_queued [OF assms(1)]) simp
  with admit show ?thesis using queue_ok_update [OF assms(1)] by simp
next
  case (request_guard i op rest)
  then have "i \<notin> fst ` set (waitq s)" by (intro not_queued [OF assms(1)]) simp
  with request_guard show ?thesis using queue_ok_append [OF assms(1)] by simp
next
  case (release_guard i op rest)
  then have "i \<notin> fst ` set (waitq s)" by (intro not_queued [OF assms(1)]) simp
  with release_guard show ?thesis using queue_ok_update [OF assms(1)] by simp
next
  case (complete i rest)
  then have "i \<notin> fst ` set (waitq s)" by (intro not_queued [OF assms(1)]) simp
  with complete show ?thesis using queue_ok_update [OF assms(1)] by simp
qed

definition lock_inv :: "nat \<Rightarrow> lock_state \<Rightarrow> bool" where
  "lock_inv n s \<longleftrightarrow> free_permits s + length (filter admitted (tasks s)) = n \<and> exclusive (tasks s) \<and>
     queue_ok (tasks s) (waitq s)"

lemma lock_inv_step:
  assumes "lock_inv n s" "lock_step s s'"
  shows "lock_inv n s'"
proof -
  have old: "queue_ok (tasks s) (waitq s)" "exclusive (tasks s)"
    "free_permits s + length (filter admitted (tasks s)) = n"
    using assms(1) by (simp_all add: lock_inv_def)
  from assms(2) have "exclusive (tasks s') \<and> free_permits s' + length (filter admitted (tasks s')) = n"
  proof cases
    case (arrive d)
    then show ?thesis using old by (simp add: exclusive_append)
  next
    case (grant i op q)
    then have "i < length (tasks s)" "waits_in (tasks s ! i) op"
      using old(1) by (simp_all add: queue_ok_def)
    then show ?thesis
      using grant old exclusive_grant [OF old(2) grant(3)]
        length_filter_update [of i "tasks s" admitted "granted (tasks s ! i)"]
      by (simp add: admitted_grant)
  next
    case (admit i d)
    then show ?thesis
      using old exclusive_update [OF old(2)]
        length_filter_update [of i "tasks s" admitted "Between (script_of d)"] by simp
  next
    case (request_guard i op rest)
    then show ?thesis
      using old exclusive_update [OF old(2)]
        length_filter_update [of i "tasks s" admitted "Waiting op rest"] by simp
  next
    case (release_guard i op rest)
    then show ?thesis
      using old exclusive_update [OF old(2)]
        length_filter_update [of i "tasks s" admitted "Between rest"] by simp
  next
    case (complete i rest)
    then show ?thesis
      using old exclusive_update [OF old(2)]
        length_filter_update [of i "tasks s" admitted Over] by simp
  qed
  with queue_ok_step [OF old(1) assms(2)] show ?thesis by (simp add: lock_inv_def)
qed

interpretation lock: invariant lock_step "lock_inv n" for n
  by unfold_locales (rule lock_inv_step)

text \<open>However the tasks of a connection interleave, at most the configured number of them is
  admitted, and a task that changes the session has the connection to itself: no other task holds a
  guard of either kind.\<close>

theorem session_writes_are_exclusive:
  assumes "lock_step\<^sup>*\<^sup>* (lock_new n) s" "i < length (tasks s)" "j < length (tasks s)"
    and "tasks s ! i = Guarding Exclusive rest" "writes (tasks s ! j) \<or> reads (tasks s ! j)"
  shows "i = j \<and> length (filter admitted (tasks s)) \<le> n"
proof -
  have "lock_inv n (lock_new n)" by (simp add: lock_inv_def lock_new_def exclusive_def queue_ok_def)
  then have "lock_inv n s" using lock.kept_star [OF assms(1)] by blast
  with assms(2-5) show ?thesis by (auto simp: lock_inv_def exclusive_def writes_def)
qed


theorem session_writes_are_exclusive_witness:
  "length (filter admitted (tasks \<lparr>free_permits = 0, waitq = [], tasks = [Guarding Exclusive []]\<rparr>)) \<le> 1"
proof -
  let ?d = "Some (Transaction TxnCommit)"
  let ?mk = "\<lambda>f q ts. \<lparr>free_permits = f, waitq = q, tasks = ts\<rparr>"
  have "lock_step (lock_new 1) (?mk 1 [(0, Shared)] [Entering ?d])"
    using arrive [of "lock_new 1" ?d] by (simp add: lock_new_def)
  moreover have "lock_step (?mk 1 [(0, Shared)] [Entering ?d]) (?mk 1 [] [Admitting ?d])"
    using grant [of "?mk 1 [(0, Shared)] [Entering ?d]" 0 Shared "[]"] by (simp add: grantable_def)
  moreover have "lock_step (?mk 1 [] [Admitting ?d]) (?mk 0 [] [Between [Exclusive]])"
    using admit [of 0 "?mk 1 [] [Admitting ?d]" ?d] by (simp add: script_of_def)
  moreover have "lock_step (?mk 0 [] [Between [Exclusive]]) (?mk 0 [(0, Exclusive)] [Waiting Exclusive []])"
    using request_guard [of 0 "?mk 0 [] [Between [Exclusive]]" Exclusive "[]"] by simp
  moreover have "lock_step (?mk 0 [(0, Exclusive)] [Waiting Exclusive []]) (?mk 0 [] [Guarding Exclusive []])"
    using grant [of "?mk 0 [(0, Exclusive)] [Waiting Exclusive []]" 0 Exclusive "[]"]
    by (simp add: grantable_def)
  ultimately have "lock_step\<^sup>*\<^sup>* (lock_new 1) (?mk 0 [] [Guarding Exclusive []])"
    by (meson converse_rtranclp_into_rtranclp rtranclp.rtrancl_refl)
  from session_writes_are_exclusive [OF this, of 0 0 "[]"] show ?thesis
    by (simp add: writes_def)
qed

section \<open>Deadlock\<close>

text \<open>All permits are taken by tasks that wait for the lock; the head of the queue wants it
  exclusively; and a task that waits for a permit holds it.\<close>

definition blocked_task :: "lock_task \<Rightarrow> bool" where
  "blocked_task t \<longleftrightarrow> (case t of Between r \<Rightarrow> False | Guarding op r \<Rightarrow> False | _ \<Rightarrow> True)"

definition deadlocked :: "lock_task list \<Rightarrow> lock_state \<Rightarrow> bool" where
  "deadlocked ts s \<longleftrightarrow> free_permits s = 0 \<and> (\<exists>i q. waitq s = (i, Exclusive) # q) \<and>
     list_ex reads ts \<and> list_all blocked_task (tasks s) \<and> prefix ts (tasks s)"

lemma not_blocked [simp]: "\<not> blocked_task (Between r)" "\<not> blocked_task (Guarding op r)"
  by (simp_all add: blocked_task_def)

lemma deadlocked_blocked: "deadlocked ts s \<Longrightarrow> i < length (tasks s) \<Longrightarrow> blocked_task (tasks s ! i)"
  by (simp add: deadlocked_def list_all_iff)

lemma deadlocked_step:
  assumes "deadlocked ts s" "lock_step s s'"
  shows "deadlocked ts s'"
  using assms(2)
proof cases
  case (arrive d)
  with assms(1) show ?thesis by (auto simp: deadlocked_def blocked_task_def)
next
  case (grant i op q)
  with assms(1) have "op = Exclusive" "list_ex reads (tasks s)"
    by (auto simp: deadlocked_def prefix_def)
  with grant show ?thesis by (simp add: grantable_def)
next
  case (admit i d)
  with assms(1) show ?thesis by (simp add: deadlocked_def)
next
  case (request_guard i op rest)
  with assms(1) have "blocked_task (tasks s ! i)" by (intro deadlocked_blocked)
  with request_guard show ?thesis by simp
next
  case (release_guard i op rest)
  with assms(1) have "blocked_task (tasks s ! i)" by (intro deadlocked_blocked)
  with release_guard show ?thesis by simp
next
  case (complete i rest)
  with assms(1) have "blocked_task (tasks s ! i)" by (intro deadlocked_blocked)
  with complete show ?thesis by simp
qed

interpretation deadlock: invariant lock_step "deadlocked ts" for ts
  by unfold_locales (rule deadlocked_step)

definition commits_admitted :: "nat \<Rightarrow> nat \<Rightarrow> lock_state" where
  "commits_admitted n k = \<lparr>free_permits = n - k, waitq = [], tasks = replicate k (Between [Exclusive])\<rparr>"

definition commits_waiting :: "nat \<Rightarrow> nat \<Rightarrow> lock_state" where
  "commits_waiting n j = \<lparr>free_permits = 0, waitq = map (\<lambda>i. (i, Exclusive)) [0..<j],
     tasks = replicate j (Waiting Exclusive []) @ replicate (n - j) (Between [Exclusive]) @
       [Admitting (Some (Transaction TxnCommit))]\<rparr>"

lemma update_last: "length xs = k \<Longrightarrow> (xs @ [x])[k := y] = xs @ [y]"
  by auto

lemma commit_enters:
  assumes "\<not> list_ex writes ts"
  shows "lock_step\<^sup>*\<^sup>* \<lparr>free_permits = f, waitq = [], tasks = ts\<rparr>
    \<lparr>free_permits = f, waitq = [], tasks = ts @ [Admitting (Some (Transaction TxnCommit))]\<rparr>"
    (is "lock_step\<^sup>*\<^sup>* ?s ?s2")
proof -
  let ?d = "Some (Transaction TxnCommit)"
  let ?s1 = "\<lparr>free_permits = f, waitq = [(length ts, Shared)], tasks = ts @ [Entering ?d]\<rparr>"
  have "lock_step ?s ?s1" using arrive [of ?s ?d] by simp
  moreover have "lock_step ?s1 ?s2"
    using grant [of ?s1 "length ts" Shared "[]"] assms
    by (simp add: grantable_def)
  ultimately show ?thesis by (meson converse_rtranclp_into_rtranclp rtranclp.rtrancl_refl)
qed

lemma commits_admitted_reach:
  "k \<le> n \<Longrightarrow> lock_step\<^sup>*\<^sup>* (lock_new n) (commits_admitted n k)"
proof (induction k)
  case 0
  then show ?case by (simp add: commits_admitted_def lock_new_def)
next
  case (Suc k)
  let ?d = "Some (Transaction TxnCommit)"
  let ?ts = "replicate k (Between [Exclusive])"
  let ?s2 = "\<lparr>free_permits = n - k, waitq = [], tasks = ?ts @ [Admitting ?d]\<rparr>"
  have "lock_step\<^sup>*\<^sup>* (commits_admitted n k) ?s2"
    unfolding commits_admitted_def by (rule commit_enters) (simp add: list_ex_iff)
  moreover have "lock_step ?s2 (commits_admitted n (Suc k))"
    using admit [of k ?s2 ?d] Suc.prems
    by (simp add: commits_admitted_def script_of_def nth_append update_last replicate_append_same)
  ultimately show ?case using Suc by (meson Suc_leD rtranclp.rtrancl_into_rtrancl rtranclp_trans)
qed

lemma commits_waiting_reach:
  "j \<le> n \<Longrightarrow> lock_step\<^sup>*\<^sup>* (lock_new n) (commits_waiting n j)"
proof (induction j)
  case 0
  have "lock_step\<^sup>*\<^sup>* (commits_admitted n n) (commits_waiting n 0)"
    unfolding commits_admitted_def commits_waiting_def
    using commit_enters [of "replicate n (Between [Exclusive])" 0] by (simp add: list_ex_iff)
  with commits_admitted_reach [of n n] show ?case by (meson order_refl rtranclp_trans)
next
  case (Suc j)
  then have n: "n - j = Suc (n - Suc j)" by simp
  have "lock_step (commits_waiting n j) (commits_waiting n (Suc j))"
    using request_guard [of j "commits_waiting n j" Exclusive "[]"] Suc.prems n
    by (simp add: commits_waiting_def nth_append list_update_append replicate_app_Cons_same)
  with Suc show ?case by (meson Suc_leD rtranclp.rtrancl_into_rtrancl)
qed

text \<open>C16: a client can lock its own connection for good.  With \<open>n\<close> permits, there is an interleaving
  of \<open>n + 1\<close> concurrent commits after which no schedule ever completes any of them: the last one
  holds the lock for reading while it waits for a permit, and the others hold all the permits while
  they wait for the lock.\<close>

theorem concurrent_commits_deadlock:
  assumes "0 < n"
  shows "\<exists>s. lock_step\<^sup>*\<^sup>* (lock_new n) s \<and> length (tasks s) = n + 1 \<and>
    (\<forall>s'. lock_step\<^sup>*\<^sup>* s s' \<longrightarrow> (\<forall>t \<in> set (take (n + 1) (tasks s')). t \<noteq> Over) \<and> free_permits s' = 0)"
proof (intro exI conjI allI impI)
  let ?s = "commits_waiting n n"
  let ?ts = "tasks ?s"
  show "lock_step\<^sup>*\<^sup>* (lock_new n) ?s" by (rule commits_waiting_reach) simp
  show len: "length ?ts = n + 1" by (simp add: commits_waiting_def)
  fix s'
  assume run: "lock_step\<^sup>*\<^sup>* ?s s'"
  have "deadlocked ?ts ?s"
    using assms
    by (auto simp: deadlocked_def commits_waiting_def blocked_task_def reads_def upt_conv_Cons list_all_iff)
  then have "deadlocked ?ts s'" by (rule deadlock.kept_star [OF run])
  then have "prefix ?ts (tasks s')" "free_permits s' = 0" by (simp_all add: deadlocked_def)
  then have "take (n + 1) (tasks s') = ?ts" using len by (auto simp: prefix_def)
  then show "\<forall>t \<in> set (take (n + 1) (tasks s')). t \<noteq> Over"
    by (auto simp: commits_waiting_def)
  show "free_permits s' = 0" by fact
qed

theorem concurrent_commits_deadlock_witness:
  "\<exists>s. lock_step\<^sup>*\<^sup>* (lock_new 24) s \<and> length (tasks s) = 25 \<and>
    {s'. lock_step\<^sup>*\<^sup>* s s'} \<subseteq> {s'. Over \<notin> set (take 25 (tasks s'))}"
  using concurrent_commits_deadlock [of 24] by fastforce

end
