(* ===== verification/Rw_Lock.thy ===== *)
theory Rw_Lock
  imports Rpc_Lock
begin

text \<open>
  tokio's \<open>RwLock\<close> as its documentation describes it, for any kind of task: many readers or one
  writer, first come, first served, so a reader queues behind a waiting writer even when readers hold
  the lock.  A task may hold several read guards.  \<open>Rpc_Lock\<close> follows one connection's lock through
  its own tasks; here the lock is a value, for the tasks that hold several locks at once.
\<close>

section \<open>Operations\<close>

record 'a rw =
  held :: "('a \<times> lock_op) list"
  waiting :: "('a \<times> lock_op) list"

definition rw_free :: "'a rw" where
  "rw_free = \<lparr>held = [], waiting = []\<rparr>"

definition rw_request :: "'a \<Rightarrow> lock_op \<Rightarrow> 'a rw \<Rightarrow> 'a rw" where
  "rw_request a op l = l\<lparr>waiting := waiting l @ [(a, op)]\<rparr>"

definition rw_grantable :: "lock_op \<Rightarrow> 'a rw \<Rightarrow> bool" where
  "rw_grantable op l \<longleftrightarrow> (case op of
     Shared \<Rightarrow> Exclusive \<notin> snd ` set (held l)
   | Exclusive \<Rightarrow> held l = [])"

definition rw_grant :: "'a rw \<Rightarrow> 'a rw" where
  "rw_grant l = (case waiting l of
     [] \<Rightarrow> l
   | (a, op) # q \<Rightarrow> if rw_grantable op l then \<lparr>held = (a, op) # held l, waiting = q\<rparr> else l)"

definition rw_release :: "'a \<Rightarrow> lock_op \<Rightarrow> 'a rw \<Rightarrow> 'a rw" where
  "rw_release a op l = l\<lparr>held := remove1 (a, op) (held l)\<rparr>"

definition guards :: "'a \<Rightarrow> 'a rw \<Rightarrow> nat" where
  "guards a l = length (filter (\<lambda>h. h = (a, Shared)) (held l))"

section \<open>Exclusion\<close>

definition rw_ok :: "'a rw \<Rightarrow> bool" where
  "rw_ok l \<longleftrightarrow> (Exclusive \<in> snd ` set (held l) \<longrightarrow> length (held l) = 1)"

lemma rw_ok_free [simp]: "rw_ok rw_free"
  by (simp add: rw_ok_def rw_free_def)

lemma rw_ok_request [simp]: "rw_ok (rw_request a op l) = rw_ok l"
  by (simp add: rw_ok_def rw_request_def)

lemma rw_ok_grant [simp]: "rw_ok l \<Longrightarrow> rw_ok (rw_grant l)"
  by (auto simp: rw_ok_def rw_grant_def rw_grantable_def split: list.split lock_op.splits)

lemma rw_ok_release [simp]:
  assumes "rw_ok l"
  shows "rw_ok (rw_release a op l)"
proof (cases "Exclusive \<in> snd ` set (remove1 (a, op) (held l))")
  case True
  then have "Exclusive \<in> snd ` set (held l)" using set_remove1_subset [of "(a, op)" "held l"] by blast
  with assms have "length (held l) = 1" by (simp add: rw_ok_def)
  then obtain h where "held l = [h]" by (auto simp: length_Suc_conv)
  with True show ?thesis by (auto simp: rw_ok_def rw_release_def split: if_splits)
qed (simp add: rw_ok_def rw_release_def)

lemma rw_ok_excl:
  assumes "rw_ok l" "(a, Exclusive) \<in> set (held l)" "(b, op) \<in> set (held l)"
  shows "b = a \<and> op = Exclusive"
proof -
  have "length (held l) = 1" using assms(1,2) by (force simp: rw_ok_def)
  then obtain h where "held l = [h]" by (auto simp: length_Suc_conv)
  with assms(2,3) show ?thesis by auto
qed

lemma guards_held: "0 < guards a l \<longleftrightarrow> (a, Shared) \<in> set (held l)"
  by (auto simp: guards_def filter_empty_conv)

section \<open>What the others do to a task's guards\<close>

lemma guards_request [simp]: "guards a (rw_request b op l) = guards a l"
  by (simp add: guards_def rw_request_def)

lemma filter_remove1: "filter P (remove1 x xs) = (if P x then remove1 x (filter P xs) else filter P xs)"
  by (induction xs) auto

lemma guards_release:
  "guards a (rw_release b op l) =
     (if b = a \<and> op = Shared then guards a l - 1 else guards a l)"
proof -
  let ?P = "\<lambda>h. h = (a, Shared)"
  have "remove1 (a, Shared) (filter ?P xs) = drop 1 (filter ?P xs)" for xs :: "('a \<times> lock_op) list"
    by (induction xs) auto
  then show ?thesis by (simp add: guards_def rw_release_def filter_remove1)
qed

lemma guards_grant:
  "guards a (rw_grant l) = guards a l +
     (case waiting l of (b, Shared) # q \<Rightarrow> if b = a \<and> rw_grantable Shared l then 1 else 0 | _ \<Rightarrow> 0)"
  by (auto simp: guards_def rw_grant_def split: list.split lock_op.split)

lemma guards_grant_mono: "guards a l \<le> guards a (rw_grant l)"
  by (simp add: guards_grant)

lemma waiting_edits [simp]:
  "waiting (rw_request a op l) = waiting l @ [(a, op)]" "waiting (rw_release a op l) = waiting l"
  "held (rw_request a op l) = held l"
  by (simp_all add: rw_request_def rw_release_def)

lemma waiting_grant: "waiting (rw_grant l) = waiting l \<or> waiting (rw_grant l) = tl (waiting l)"
  by (auto simp: rw_grant_def split: list.split)

text \<open>A waiting writer at the head of the queue and a reader that holds the lock: nothing is granted.\<close>

lemma rw_grant_blocked:
  "waiting l = (b, Exclusive) # q \<Longrightarrow> 0 < guards a l \<Longrightarrow> rw_grant l = l"
  by (auto simp: rw_grant_def rw_grantable_def guards_held)

section \<open>Guards asked for\<close>

definition asked :: "'a \<Rightarrow> 'a rw \<Rightarrow> nat" where
  "asked a l = length (filter (\<lambda>h. h = (a, Shared)) (waiting l))"

lemma asked_edits [simp]:
  "asked a (rw_request b op l) = asked a l + (if b = a \<and> op = Shared then 1 else 0)"
  "asked a (rw_release b op l) = asked a l"
  by (simp_all add: asked_def)

lemma free_counts [simp]: "guards a rw_free = 0" "asked a rw_free = 0"
  by (simp_all add: guards_def asked_def rw_free_def)

text \<open>A grant turns a guard that is asked for into one that is held.\<close>

lemma asked_grant: "guards a (rw_grant l) + asked a (rw_grant l) = guards a l + asked a l"
  by (auto simp: guards_def asked_def rw_grant_def split: list.split)

lemma rw_grant_effect:
  "rw_grant l \<noteq> l \<longleftrightarrow> (case waiting l of [] \<Rightarrow> False | (b, op) # q \<Rightarrow> rw_grantable op l)"
  by (cases l) (auto simp: rw_grant_def split: list.split)

text \<open>A lock used by one task for reading only.\<close>

definition only_reads :: "'a \<Rightarrow> 'a rw \<Rightarrow> bool" where
  "only_reads a l \<longleftrightarrow> set (held l) \<union> set (waiting l) \<subseteq> {(a, Shared)}"

lemma only_reads_edits [simp]:
  "only_reads a rw_free" "only_reads a l \<Longrightarrow> only_reads a (rw_request a Shared l)"
  "only_reads a l \<Longrightarrow> only_reads a (rw_release b op l)" "only_reads a l \<Longrightarrow> only_reads a (rw_grant l)"
  using set_remove1_subset
  by (force simp: only_reads_def rw_free_def rw_request_def rw_release_def rw_grant_def split: list.split)+

lemma only_reads_grants:
  assumes "only_reads a l" "0 < asked a l"
  shows "rw_grant l \<noteq> l" "asked a (rw_grant l) < asked a l"
proof -
  obtain q where q: "waiting l = (a, Shared) # q"
    using assms by (cases "waiting l") (auto simp: only_reads_def asked_def)
  moreover have grantable: "rw_grantable Shared l" using assms(1) by (force simp: rw_grantable_def only_reads_def)
  ultimately show "rw_grant l \<noteq> l" by (simp add: rw_grant_effect)
  from q grantable show "asked a (rw_grant l) < asked a l" by (simp add: rw_grant_def asked_def)
qed

end
