(* ===== verification/Hub_Lock.thy ===== *)
theory Hub_Lock
  imports Hub Rw_Lock
begin

text \<open>
  The locks of \<open>src/handler/rpc/mod.rs\<close>.  \<open>Hub\<close> says what the change task queues; this theory
  says when it can.  The loop of \<open>start_db_change_stream\<close> holds the read guard of \<open>WEBSOCKETS\<close>
  for its whole length, because the guard is a temporary of the iterated expression.  In a round it
  takes the read guard of the connection and keeps it, as \<open>session\<close> borrows from it; for a
  connection that sees the changes it takes a second read guard of the same lock, and waits for room
  in the channel with all three.  The other tasks are arbitrary: they take guards, change the session
  and the registry when they hold the right one, queue messages, take them out and close channels.
\<close>

section \<open>State\<close>

datatype agent = HubTask | Task nat

text \<open>Where the change task is: \<open>RoundEntering\<close> waits for the registry; in the loop it is between
  two connections, waits for the first guard, holds it, waits for the second, or holds both and
  sends.  The ids are those of the connections still to be visited.\<close>

datatype hub_phase =
    HubIdle
  | RoundEntering message
  | Looping message "uuid list"
  | WaitFirst message uuid "uuid list"
  | HasFirst message uuid "uuid list"
  | WaitSecond message uuid "uuid list"
  | Sending message uuid "uuid list"

record hub_state =
  hub_reg :: registry
  hub_cap :: nat
  reg_lock :: "agent rw"
  conn_lock :: "uuid \<Rightarrow> agent rw"
  hub_at :: hub_phase
  hub_rx :: "transaction list"

definition on_conn :: "uuid \<Rightarrow> (agent rw \<Rightarrow> agent rw) \<Rightarrow> hub_state \<Rightarrow> hub_state" where
  "on_conn i f s = s\<lparr>conn_lock := (conn_lock s)(i := f (conn_lock s i))\<rparr>"

definition on_reg :: "(agent rw \<Rightarrow> agent rw) \<Rightarrow> hub_state \<Rightarrow> hub_state" where
  "on_reg f s = s\<lparr>reg_lock := f (reg_lock s)\<rparr>"

definition on_member :: "uuid \<Rightarrow> (member \<Rightarrow> member) \<Rightarrow> hub_state \<Rightarrow> hub_state" where
  "on_member i f s = s\<lparr>hub_reg := edit_entry i f (hub_reg s)\<rparr>"

text \<open>\<open>send(..).await\<close> ends when the channel has room or is closed.\<close>

definition can_send :: "nat \<Rightarrow> member \<Rightarrow> bool" where
  "can_send cap m \<longleftrightarrow> mb_closed m \<or> length (mb_queue m) < cap"

section \<open>The change task\<close>

inductive hub_move :: "(json \<Rightarrow> string) \<Rightarrow> string \<Rightarrow> hub_state \<Rightarrow> hub_state \<Rightarrow> bool"
  for json_text db_name where
  hub_recv: "hub_move json_text db_name s (on_reg (rw_request HubTask Shared)
      (s\<lparr>hub_rx := rx, hub_at := RoundEntering (change_message json_text txn)\<rparr>))"
    if "hub_at s = HubIdle" "hub_rx s = txn # rx"
| hub_enter: "hub_move json_text db_name s (s\<lparr>hub_at := Looping msg (map fst (hub_reg s))\<rparr>)"
    if "hub_at s = RoundEntering msg" "0 < guards HubTask (reg_lock s)"
| hub_visit: "hub_move json_text db_name s (on_conn i (rw_request HubTask Shared)
      (s\<lparr>hub_at := WaitFirst msg i is\<rparr>))"
    if "hub_at s = Looping msg (i # is)"
| hub_first: "hub_move json_text db_name s (s\<lparr>hub_at := HasFirst msg i is\<rparr>)"
    if "hub_at s = WaitFirst msg i is" "guards HubTask (conn_lock s i) = 1"
| hub_skip: "hub_move json_text db_name s (on_conn i (rw_release HubTask Shared)
      (s\<lparr>hub_at := Looping msg is\<rparr>))"
    if "hub_at s = HasFirst msg i is" "map_of (hub_reg s) i = Some m"
      "\<not> sees_changes db_name (mb_session m)"
| hub_again: "hub_move json_text db_name s (on_conn i (rw_request HubTask Shared)
      (s\<lparr>hub_at := WaitSecond msg i is\<rparr>))"
    if "hub_at s = HasFirst msg i is" "map_of (hub_reg s) i = Some m"
      "sees_changes db_name (mb_session m)"
| hub_second: "hub_move json_text db_name s (s\<lparr>hub_at := Sending msg i is\<rparr>)"
    if "hub_at s = WaitSecond msg i is" "guards HubTask (conn_lock s i) = 2"
| hub_sent: "hub_move json_text db_name s (on_conn i (rw_release HubTask Shared \<circ> rw_release HubTask Shared)
      (on_member i (push msg) (s\<lparr>hub_at := Looping msg is\<rparr>)))"
    if "hub_at s = Sending msg i is" "map_of (hub_reg s) i = Some m" "can_send (hub_cap s) m"
| hub_round_done: "hub_move json_text db_name s (on_reg (rw_release HubTask Shared) (s\<lparr>hub_at := HubIdle\<rparr>))"
    if "hub_at s = Looping msg []"

section \<open>The locks and the other tasks\<close>

inductive lock_move :: "hub_state \<Rightarrow> hub_state \<Rightarrow> bool" where
  grant_reg: "lock_move s (on_reg rw_grant s)"
    if "rw_grant (reg_lock s) \<noteq> reg_lock s"
| grant_conn: "lock_move s (on_conn i rw_grant s)"
    if "rw_grant (conn_lock s i) \<noteq> conn_lock s i"

text \<open>\<open>sees_changes\<close> may only change under the exclusive guard of the connection, and the registry
  under its own: \<open>serve\<close> inserts and removes.\<close>

inductive task_move :: "hub_state \<Rightarrow> hub_state \<Rightarrow> bool" where
  ask_reg: "task_move s (on_reg (rw_request (Task k) op) s)"
| ask_conn: "task_move s (on_conn i (rw_request (Task k) op) s)"
| leave_reg: "task_move s (on_reg (rw_release (Task k) op) s)"
| leave_conn: "task_move s (on_conn i (rw_release (Task k) op) s)"
| new_session: "task_move s (on_member i (\<lambda>m. m\<lparr>mb_session := session\<rparr>) s)"
    if "(Task k, Exclusive) \<in> set (held (conn_lock s i))"
| joins: "task_move s (s\<lparr>hub_reg := register i (member_new session) (hub_reg s)\<rparr>)"
    if "(Task k, Exclusive) \<in> set (held (reg_lock s))" "i \<notin> fst ` set (hub_reg s)"
| leaves: "task_move s (s\<lparr>hub_reg := unregister i (hub_reg s)\<rparr>)"
    if "(Task k, Exclusive) \<in> set (held (reg_lock s))"
| queues: "task_move s (on_member i (push msg) s)"
    if "map_of (hub_reg s) i = Some m" "can_send (hub_cap s) m"
| takes: "task_move s (on_member i (\<lambda>m. m\<lparr>mb_queue := tl (mb_queue m)\<rparr>) s)"
| closes: "task_move s (on_member i (\<lambda>m. m\<lparr>mb_closed := True\<rparr>) s)"
| change_arrives: "task_move s (s\<lparr>hub_rx := hub_rx s @ [txn]\<rparr>)"

inductive hub_step :: "(json \<Rightarrow> string) \<Rightarrow> string \<Rightarrow> hub_state \<Rightarrow> hub_state \<Rightarrow> bool"
  for json_text db_name where
  by_hub: "hub_move json_text db_name s s' \<Longrightarrow> hub_step json_text db_name s s'"
| by_lock: "lock_move s s' \<Longrightarrow> hub_step json_text db_name s s'"
| by_task: "task_move s s' \<Longrightarrow> hub_step json_text db_name s s'"

inductive_cases hub_moveE: "hub_move json_text db_name s s'"
inductive_cases lock_moveE: "lock_move s s'"
inductive_cases task_moveE: "task_move s s'"
inductive_cases hub_stepE: "hub_step json_text db_name s s'"

lemmas hub_cases = hub_moveE lock_moveE task_moveE

definition hub_new :: "nat \<Rightarrow> registry \<Rightarrow> transaction list \<Rightarrow> hub_state" where
  "hub_new cap reg rx = \<lparr>hub_reg = reg, hub_cap = cap, reg_lock = rw_free, conn_lock = (\<lambda>i. rw_free),
     hub_at = HubIdle, hub_rx = rx\<rparr>"

lemma edits_simps [simp]:
  "hub_reg (on_conn i f s) = hub_reg s" "hub_at (on_conn i f s) = hub_at s"
  "hub_cap (on_conn i f s) = hub_cap s" "hub_rx (on_conn i f s) = hub_rx s"
  "reg_lock (on_conn i f s) = reg_lock s"
  "conn_lock (on_conn i f s) k = (if k = i then f (conn_lock s i) else conn_lock s k)"
  "hub_reg (on_reg f s) = hub_reg s" "hub_at (on_reg f s) = hub_at s"
  "hub_cap (on_reg f s) = hub_cap s" "hub_rx (on_reg f s) = hub_rx s"
  "reg_lock (on_reg f s) = f (reg_lock s)" "conn_lock (on_reg f s) k = conn_lock s k"
  "hub_at (on_member i g s) = hub_at s" "hub_cap (on_member i g s) = hub_cap s"
  "hub_rx (on_member i g s) = hub_rx s" "reg_lock (on_member i g s) = reg_lock s"
  "conn_lock (on_member i g s) k = conn_lock s k"
  by (simp_all add: on_conn_def on_reg_def on_member_def)

lemma on_member_keys [simp]: "map fst (hub_reg (on_member i g s)) = map fst (hub_reg s)"
  by (simp add: on_member_def)

lemma on_member_map_of [simp]:
  "map_of (hub_reg (on_member i g s)) k =
     (if k = i then map_option g (map_of (hub_reg s) k) else map_of (hub_reg s) k)"
  by (simp add: on_member_def)

lemma hub_new_simps [simp]:
  "hub_reg (hub_new cap reg rx) = reg" "hub_cap (hub_new cap reg rx) = cap"
  "reg_lock (hub_new cap reg rx) = rw_free" "conn_lock (hub_new cap reg rx) i = rw_free"
  "hub_at (hub_new cap reg rx) = HubIdle" "hub_rx (hub_new cap reg rx) = rx"
  by (simp_all add: hub_new_def)

end
