(* ===== verification/Hub_Safety.thy ===== *)
theory Hub_Safety
  imports Hub_Lock
begin

text \<open>
  What the locks of the change task guarantee, and what they cost: the changes go to connections
  whose claims say so at the moment of sending; a writer of a connection between the two read guards
  of the change task blocks the registry for ever; and so does, as long as it lasts, a client that
  does not read.
\<close>

section \<open>No guard is granted beside a writer\<close>

definition locks_ok :: "hub_state \<Rightarrow> bool" where
  "locks_ok s \<longleftrightarrow> rw_ok (reg_lock s) \<and> (\<forall>i. rw_ok (conn_lock s i))"

lemma locks_ok_step: "locks_ok s \<Longrightarrow> hub_step json_text db_name s s' \<Longrightarrow> locks_ok s'"
  by (elim hub_stepE hub_cases) (auto simp: locks_ok_def)

interpretation hub_locks: invariant "hub_step json_text db_name" locks_ok for json_text db_name
  by unfold_locales (rule locks_ok_step)

lemma no_writer_beside_reader:
  assumes "rw_ok l" "0 < guards a l"
  shows "(b, Exclusive) \<notin> set (held l)"
  using assms rw_ok_excl [of l b a Shared] by (auto simp: guards_held)

section \<open>The registry is fixed while the change task reads it\<close>

lemma keys_register: "i \<notin> fst ` set reg \<Longrightarrow> map fst (register i m reg) = map fst reg @ [i]"
  by (simp add: register_def update_keys)

lemma reads_registry_step:
  assumes "locks_ok s" "0 < guards HubTask (reg_lock s)" "hub_step json_text db_name s s'"
    and "\<forall>msg. hub_at s \<noteq> Looping msg []"
  shows "0 < guards HubTask (reg_lock s') \<and> map fst (hub_reg s') = map fst (hub_reg s)"
proof -
  have "(b, Exclusive) \<notin> set (held (reg_lock s))" for b
    using assms(1,2) by (simp add: locks_ok_def no_writer_beside_reader)
  with assms(2-4) guards_grant_mono [of HubTask "reg_lock s"] show ?thesis
    by (elim hub_stepE hub_cases) (auto simp: guards_release)
qed

section \<open>A writer between the two guards\<close>

definition hub_stuck :: "uuid list \<Rightarrow> message \<Rightarrow> uuid \<Rightarrow> uuid list \<Rightarrow> hub_state \<Rightarrow> bool" where
  "hub_stuck keys msg i is s \<longleftrightarrow> locks_ok s \<and> hub_at s = WaitSecond msg i is \<and>
     guards HubTask (conn_lock s i) = 1 \<and> (\<exists>k q. waiting (conn_lock s i) = (Task k, Exclusive) # q) \<and>
     0 < guards HubTask (reg_lock s) \<and> map fst (hub_reg s) = keys"

lemma stuck_conn_step:
  assumes "guards HubTask l = 1" "\<exists>k q. waiting l = (Task k, Exclusive) # q"
  shows "rw_grant l = l" "\<exists>k q. waiting (rw_request b op l) = (Task k, Exclusive) # q"
    "\<exists>k q. waiting (rw_release b op l) = (Task k, Exclusive) # q"
  using assms rw_grant_blocked [of l _ _ HubTask] by (auto simp: rw_request_def rw_release_def)

lemma hub_stuck_step:
  assumes "hub_stuck keys msg i is s" "hub_step json_text db_name s s'"
  shows "hub_stuck keys msg i is s'"
proof -
  have at: "hub_at s = WaitSecond msg i is" and ok: "locks_ok s"
    and conn: "guards HubTask (conn_lock s i) = 1" "\<exists>k q. waiting (conn_lock s i) = (Task k, Exclusive) # q"
    and reg: "0 < guards HubTask (reg_lock s)" "map fst (hub_reg s) = keys"
    using assms(1) by (auto simp: hub_stuck_def)
  have "0 < guards HubTask (reg_lock s') \<and> map fst (hub_reg s') = keys"
    using reads_registry_step [OF ok reg(1) assms(2)] at reg(2) by simp
  moreover have "hub_at s' = WaitSecond msg i is \<and> guards HubTask (conn_lock s' i) = 1 \<and>
      (\<exists>k q. waiting (conn_lock s' i) = (Task k, Exclusive) # q)"
    using assms(2) at conn stuck_conn_step [OF conn]
    by (elim hub_stepE hub_cases) (auto simp: guards_release)
  ultimately show ?thesis
    using locks_ok_step [OF ok assms(2)] by (simp add: hub_stuck_def)
qed

interpretation stuck_hub: invariant "hub_step json_text db_name" "hub_stuck keys msg i is"
  for json_text db_name keys msg i "is"
  by unfold_locales (rule hub_stuck_step)

text \<open>Changes pile up in front of it.\<close>

lemma stuck_rx:
  assumes "(hub_step json_text db_name)\<^sup>*\<^sup>* s s'" "hub_stuck keys msg i is s"
  shows "prefix (hub_rx s) (hub_rx s')"
  using assms
proof (induction rule: rtranclp_induct)
  case (step s1 s2)
  then have "hub_stuck keys msg i is s1" using stuck_hub.kept_star by blast
  then have "hub_at s1 = WaitSecond msg i is" by (simp add: hub_stuck_def)
  with step.hyps(2) have "prefix (hub_rx s1) (hub_rx s2)"
    by (elim hub_stepE hub_cases) auto
  with step.IH [OF step.prems] show ?case by (rule prefix_order.trans)
qed simp

text \<open>The schedule: a task of the connection asks for the exclusive guard (it begins, commits, logs in
  or authenticates) after the change task took its first guard and before it asks for the second.\<close>

lemma hub_takes_first:
  assumes "reg = (i, m) # rest"
  shows "\<exists>s. (hub_step json_text db_name)\<^sup>*\<^sup>* (hub_new cap reg (txn # rx)) s \<and> locks_ok s \<and>
    hub_at s = HasFirst (change_message json_text txn) i (map fst rest) \<and> hub_reg s = reg \<and> hub_rx s = rx \<and>
    hub_cap s = cap \<and>
    guards HubTask (reg_lock s) = 1 \<and> guards HubTask (conn_lock s i) = 1 \<and> waiting (conn_lock s i) = []"
proof -
  let ?msg = "change_message json_text txn"
  let ?s0 = "hub_new cap reg (txn # rx)"
  let ?s1 = "on_reg (rw_request HubTask Shared) (?s0\<lparr>hub_rx := rx, hub_at := RoundEntering ?msg\<rparr>)"
  let ?s2 = "on_reg rw_grant ?s1"
  let ?s3 = "?s2\<lparr>hub_at := Looping ?msg (map fst (hub_reg ?s2))\<rparr>"
  let ?s4 = "on_conn i (rw_request HubTask Shared) (?s3\<lparr>hub_at := WaitFirst ?msg i (map fst rest)\<rparr>)"
  let ?s5 = "on_conn i rw_grant ?s4"
  let ?s6 = "?s5\<lparr>hub_at := HasFirst ?msg i (map fst rest)\<rparr>"

  have one: "guards HubTask (rw_grant (rw_request HubTask Shared rw_free)) = 1"
    "waiting (rw_grant (rw_request HubTask Shared rw_free)) = []"
    "rw_grant (rw_request HubTask Shared rw_free) \<noteq> rw_request HubTask Shared rw_free"
    by (simp_all add: guards_def rw_grant_def rw_grantable_def rw_request_def rw_free_def)
  have "hub_step json_text db_name ?s0 ?s1" by (intro by_hub hub_recv) simp_all
  moreover have "hub_step json_text db_name ?s1 ?s2" by (intro by_lock grant_reg) (simp add: one)
  moreover have "hub_step json_text db_name ?s2 ?s3" by (intro by_hub hub_enter) (simp_all add: one)
  moreover have "hub_step json_text db_name ?s3 ?s4" by (intro by_hub hub_visit) (simp add: hub_new_def assms)
  moreover have "hub_step json_text db_name ?s4 ?s5" by (intro by_lock grant_conn) (simp add: one)
  moreover have "hub_step json_text db_name ?s5 ?s6" by (intro by_hub hub_first) (simp_all add: one)
  ultimately have run: "(hub_step json_text db_name)\<^sup>*\<^sup>* ?s0 ?s6"
    by (meson converse_rtranclp_into_rtranclp rtranclp.rtrancl_refl)
  have "locks_ok ?s0" by (simp add: locks_ok_def hub_new_def)
  then have "locks_ok ?s6" by (rule hub_locks.kept_star [OF run])
  with run show ?thesis by (intro exI [of _ ?s6]) (simp add: one)
qed

text \<open>C19: the change task can lock up the server.  When a change of the database is to be forwarded
  and a connection that sees the changes is registered, there is a schedule in which one request of
  that connection that needs the exclusive guard makes the change task wait for ever for its second
  read guard: from then on, whatever any task does, no connection is registered or unregistered, no
  further change is taken from the stream and the one in hand reaches nobody further.\<close>

theorem change_stream_deadlocks:
  assumes "reg = (i, m) # rest" "sees_changes db_name (mb_session m)"
  shows "\<exists>s. (hub_step json_text db_name)\<^sup>*\<^sup>* (hub_new cap reg (txn # rx)) s \<and>
    (\<forall>s'. (hub_step json_text db_name)\<^sup>*\<^sup>* s s' \<longrightarrow>
       map fst (hub_reg s') = map fst reg \<and> prefix rx (hub_rx s') \<and>
       hub_at s' = WaitSecond (change_message json_text txn) i (map fst rest))"
proof -
  let ?at = "WaitSecond (change_message json_text txn) i (map fst rest)"
  obtain s where run: "(hub_step json_text db_name)\<^sup>*\<^sup>* (hub_new cap reg (txn # rx)) s"
    and s: "locks_ok s" "hub_at s = HasFirst (change_message json_text txn) i (map fst rest)"
      "hub_reg s = reg" "hub_rx s = rx" "guards HubTask (reg_lock s) = 1"
      "guards HubTask (conn_lock s i) = 1" "waiting (conn_lock s i) = []"
    using hub_takes_first [OF assms(1)] by blast
  let ?s1 = "on_conn i (rw_request (Task 0) Exclusive) s"
  let ?s2 = "on_conn i (rw_request HubTask Shared) (?s1\<lparr>hub_at := ?at\<rparr>)"
  have steps: "hub_step json_text db_name s ?s1" "hub_step json_text db_name ?s1 ?s2"
    using s assms by (auto intro!: by_task [OF ask_conn] by_hub [OF hub_again])
  have "locks_ok ?s2" using s(1) steps locks_ok_step by blast
  then have stuck: "hub_stuck (map fst reg) (change_message json_text txn) i (map fst rest) ?s2"
    using s by (simp add: hub_stuck_def)
  have "hub_stuck (map fst reg) (change_message json_text txn) i (map fst rest) s' \<and> prefix rx (hub_rx s')"
    if "(hub_step json_text db_name)\<^sup>*\<^sup>* ?s2 s'" for s'
    using stuck_rx [OF that stuck] stuck_hub.kept_star [OF that stuck] s(4) by simp
  moreover have "(hub_step json_text db_name)\<^sup>*\<^sup>* (hub_new cap reg (txn # rx)) ?s2"
    using run steps by (meson rtranclp.rtrancl_into_rtrancl)
  ultimately show ?thesis unfolding hub_stuck_def by blast
qed

theorem change_stream_deadlocks_witness:
  "\<exists>s. (hub_step (\<lambda>_. ''j'') ''acme'')\<^sup>*\<^sup>*
      (hub_new 24 [(1, member_new (pos_session ''acme''))] [fresh_transaction]) s \<and>
    {s'. (hub_step (\<lambda>_. ''j'') ''acme'')\<^sup>*\<^sup>* s s'} \<subseteq> {s'. map fst (hub_reg s') = [1]}"
proof -
  let ?m = "member_new (pos_session ''acme'')"
  have "sees_changes ''acme'' (mb_session ?m)" by (simp add: sees_changes_def member_new_def)
  from change_stream_deadlocks [OF refl this, where i = 1 and rest = "[]" and json_text = "\<lambda>_. ''j''"
      and cap = 24 and txn = fresh_transaction and rx = "[]"]
  show ?thesis by auto
qed

section \<open>The guards of the change task\<close>

text \<open>How many guards of connection \<open>k\<close> the task has or has asked for, and how many it has at
  least, in every phase; the same for the registry.\<close>

fun conn_wants :: "hub_phase \<Rightarrow> uuid \<Rightarrow> nat" where
  "conn_wants (WaitFirst msg i is) k = (if k = i then 1 else 0)"
| "conn_wants (HasFirst msg i is) k = (if k = i then 1 else 0)"
| "conn_wants (WaitSecond msg i is) k = (if k = i then 2 else 0)"
| "conn_wants (Sending msg i is) k = (if k = i then 2 else 0)"
| "conn_wants _ k = 0"

fun conn_has :: "hub_phase \<Rightarrow> uuid \<Rightarrow> nat" where
  "conn_has (HasFirst msg i is) k = (if k = i then 1 else 0)"
| "conn_has (WaitSecond msg i is) k = (if k = i then 1 else 0)"
| "conn_has (Sending msg i is) k = (if k = i then 2 else 0)"
| "conn_has _ k = 0"

fun reg_wants :: "hub_phase \<Rightarrow> nat" where
  "reg_wants HubIdle = 0"
| "reg_wants _ = 1"

fun reg_has :: "hub_phase \<Rightarrow> nat" where
  "reg_has HubIdle = 0"
| "reg_has (RoundEntering msg) = 0"
| "reg_has _ = 1"

definition guards_ok :: "hub_state \<Rightarrow> bool" where
  "guards_ok s \<longleftrightarrow>
     guards HubTask (reg_lock s) + asked HubTask (reg_lock s) = reg_wants (hub_at s) \<and>
     reg_has (hub_at s) \<le> guards HubTask (reg_lock s) \<and>
     (\<forall>k. guards HubTask (conn_lock s k) + asked HubTask (conn_lock s k) = conn_wants (hub_at s) k \<and>
        conn_has (hub_at s) k \<le> guards HubTask (conn_lock s k))"

lemma guards_ok_hub: "guards_ok s \<Longrightarrow> hub_move json_text db_name s s' \<Longrightarrow> guards_ok s'"
  by (elim hub_moveE; simp add: guards_ok_def guards_release; fastforce split: if_splits)

lemma guards_ok_grant: "guards_ok s \<Longrightarrow> lock_move s s' \<Longrightarrow> guards_ok s'"
  using guards_grant_mono [of HubTask] asked_grant [of HubTask]
  by (elim lock_moveE) (auto simp: guards_ok_def intro: le_trans)

lemma guards_ok_task: "guards_ok s \<Longrightarrow> task_move s s' \<Longrightarrow> guards_ok s'"
  by (elim task_moveE) (auto simp: guards_ok_def guards_release)

interpretation hub_guards: invariant "hub_step json_text db_name" guards_ok for json_text db_name
proof unfold_locales
  show "guards_ok s \<Longrightarrow> hub_step json_text db_name s s' \<Longrightarrow> guards_ok s'" for s s'
    by (elim hub_stepE) (auto intro: guards_ok_hub guards_ok_grant guards_ok_task)
qed

interpretation hub_lock: two_invariants "hub_step json_text db_name" locks_ok guards_ok
  for json_text db_name ..

lemma hub_new_ok [simp]: "locks_ok (hub_new cap reg rx)" "guards_ok (hub_new cap reg rx)"
  by (simp_all add: locks_ok_def guards_ok_def hub_new_def)

section \<open>A client that does not read\<close>

definition channel_at :: "hub_state \<Rightarrow> uuid \<Rightarrow> (bool \<times> message list) option" where
  "channel_at s i = map_option (\<lambda>m. (mb_closed m, mb_queue m)) (map_of (hub_reg s) i)"

text \<open>Steps during which nothing happens to the channel of \<open>i\<close>: its writer waits for the client.\<close>

definition stalled_step :: "(json \<Rightarrow> string) \<Rightarrow> string \<Rightarrow> uuid \<Rightarrow> hub_state \<Rightarrow> hub_state \<Rightarrow> bool" where
  "stalled_step json_text db_name i s s' \<longleftrightarrow>
     hub_step json_text db_name s s' \<and> channel_at s' i = channel_at s i"

definition waits_for_room :: "uuid list \<Rightarrow> nat \<Rightarrow> message \<Rightarrow> uuid \<Rightarrow> uuid list \<Rightarrow> hub_state \<Rightarrow> bool" where
  "waits_for_room keys cap msg i is s \<longleftrightarrow> locks_ok s \<and> guards_ok s \<and> hub_at s = Sending msg i is \<and>
     map fst (hub_reg s) = keys \<and> hub_cap s = cap \<and>
     (\<exists>q. channel_at s i = Some (False, q) \<and> cap \<le> length q)"

lemma waits_for_room_step:
  assumes "waits_for_room keys cap msg i is s" "stalled_step json_text db_name i s s'"
  shows "waits_for_room keys cap msg i is s'"
proof -
  have step: "hub_step json_text db_name s s'" and chan: "channel_at s' i = channel_at s i"
    using assms(2) by (simp_all add: stalled_step_def)
  have at: "hub_at s = Sending msg i is" "locks_ok s" "guards_ok s" "hub_cap s = cap"
    and full: "\<exists>q. channel_at s i = Some (False, q) \<and> cap \<le> length q"
    using assms(1) by (auto simp: waits_for_room_def)
  have "0 < guards HubTask (reg_lock s)" using at by (auto simp: guards_ok_def)
  then have "map fst (hub_reg s') = keys"
    using reads_registry_step [OF at(2) _ step] at(1) assms(1) by (simp add: waits_for_room_def)
  moreover have "hub_at s' = Sending msg i is \<and> hub_cap s' = cap"
    using step at full by (elim hub_stepE hub_cases) (auto simp: can_send_def channel_at_def)
  ultimately show ?thesis
    using hub_lock.both.kept [OF _ step] at full chan by (simp add: waits_for_room_def)
qed

interpretation waiting_hub: invariant "stalled_step json_text db_name i" "waits_for_room keys cap msg i is"
  for json_text db_name i keys cap msg "is"
  by unfold_locales (rule waits_for_room_step)

lemma hub_takes_second:
  assumes "reg = (i, m) # rest" "sees_changes db_name (mb_session m)"
  shows "\<exists>s. (hub_step json_text db_name)\<^sup>*\<^sup>* (hub_new cap reg (txn # rx)) s \<and> hub_reg s = reg \<and>
    hub_cap s = cap \<and> hub_at s = Sending (change_message json_text txn) i (map fst rest)"
proof -
  let ?msg = "change_message json_text txn"
  obtain s where run: "(hub_step json_text db_name)\<^sup>*\<^sup>* (hub_new cap reg (txn # rx)) s"
    and s: "locks_ok s" "hub_at s = HasFirst ?msg i (map fst rest)" "hub_reg s = reg" "hub_cap s = cap"
      "guards HubTask (conn_lock s i) = 1" "waiting (conn_lock s i) = []"
    using hub_takes_first [OF assms(1)] by blast
  let ?s1 = "on_conn i (rw_request HubTask Shared) (s\<lparr>hub_at := WaitSecond ?msg i (map fst rest)\<rparr>)"
  let ?s2 = "on_conn i rw_grant ?s1"
  let ?s3 = "?s2\<lparr>hub_at := Sending ?msg i (map fst rest)\<rparr>"
  have "(b, Exclusive) \<notin> set (held (conn_lock s i))" for b
    using s(1,5) by (simp add: locks_ok_def no_writer_beside_reader [of _ HubTask])
  then have "rw_grantable Shared (rw_request HubTask Shared (conn_lock s i))"
    by (force simp: rw_grantable_def)
  then have granted: "rw_grant (rw_request HubTask Shared (conn_lock s i)) \<noteq> rw_request HubTask Shared (conn_lock s i)"
    "guards HubTask (rw_grant (rw_request HubTask Shared (conn_lock s i))) = 2"
    using s(5,6) by (simp_all add: rw_grant_effect guards_grant)
  have "hub_step json_text db_name s ?s1"
    using s assms by (auto intro!: by_hub [OF hub_again])
  moreover have "hub_step json_text db_name ?s1 ?s2"
    using granted(1) by (intro by_lock grant_conn) simp
  moreover have "hub_step json_text db_name ?s2 ?s3"
    using granted(2) by (intro by_hub hub_second) simp_all
  ultimately have "(hub_step json_text db_name)\<^sup>*\<^sup>* (hub_new cap reg (txn # rx)) ?s3"
    using run by (meson rtranclp.rtrancl_into_rtrancl)
  with s show ?thesis by (intro exI [of _ ?s3]) simp
qed

text \<open>C22: one client that does not read blocks the others.  Whatever happened before, while the change task
  waits for room in the channel of a connection that its writer does not empty, no connection is
  registered and none is unregistered, and the task sends nothing to anybody else.\<close>

theorem slow_client_blocks_registry:
  assumes "(hub_step json_text db_name)\<^sup>*\<^sup>* (hub_new cap reg rx) s"
    and "hub_at s = Sending msg i is" "channel_at s i = Some (False, q)" "hub_cap s \<le> length q"
    and "(stalled_step json_text db_name i)\<^sup>*\<^sup>* s s'"
  shows "map fst (hub_reg s') = map fst (hub_reg s) \<and> hub_at s' = Sending msg i is"
proof -
  have "locks_ok s \<and> guards_ok s" using hub_lock.both_star [OF assms(1)] by simp
  with assms(2-4) have "waits_for_room (map fst (hub_reg s)) (hub_cap s) msg i is s"
    by (simp add: waits_for_room_def)
  then have "waits_for_room (map fst (hub_reg s)) (hub_cap s) msg i is s'"
    by (rule waiting_hub.kept_star [OF assms(5)])
  then show ?thesis by (simp add: waits_for_room_def)
qed

theorem slow_client_blocks_registry_witness:
  "\<exists>s. hub_at s = Sending (TextMsg ''j'') 1 [] \<and>
    {s'. (stalled_step (\<lambda>_. ''j'') ''acme'' 1)\<^sup>*\<^sup>* s s'} \<subseteq> {s'. map fst (hub_reg s') = [1]}"
proof -
  let ?m = "(member_new (pos_session ''acme''))\<lparr>mb_queue := [PingMsg []]\<rparr>"
  have sees: "sees_changes ''acme'' (mb_session ?m)" by (simp add: sees_changes_def member_new_def)
  obtain s where run: "(hub_step (\<lambda>_. ''j'') ''acme'')\<^sup>*\<^sup>* (hub_new 1 [(1, ?m)] [fresh_transaction]) s"
    and s: "hub_reg s = [(1, ?m)]" "hub_cap s = 1" "hub_at s = Sending (TextMsg ''j'') 1 []"
    using hub_takes_second [OF refl sees, where i = 1 and rest = "[]" and cap = 1 and rx = "[]"
        and txn = fresh_transaction and json_text = "\<lambda>_. ''j''"] by (auto simp: change_message_def)
  have "map fst (hub_reg s') = [1]" if "(stalled_step (\<lambda>_. ''j'') ''acme'' 1)\<^sup>*\<^sup>* s s'" for s'
    using slow_client_blocks_registry [OF run s(3) _ _ that] s by (simp add: channel_at_def member_new_def)
  with s(3) show ?thesis by auto
qed

section \<open>Whom the changes reach\<close>

text \<open>The connections still to be visited are registered, and the one that waits for the change sees
  the changes: its session cannot change while the task holds a guard of it.\<close>

fun phase_ids :: "hub_phase \<Rightarrow> uuid list" where
  "phase_ids (Looping msg is) = is"
| "phase_ids (WaitFirst msg i is) = i # is"
| "phase_ids (HasFirst msg i is) = i # is"
| "phase_ids (WaitSecond msg i is) = i # is"
| "phase_ids (Sending msg i is) = i # is"
| "phase_ids _ = []"

fun phase_target :: "hub_phase \<Rightarrow> uuid option" where
  "phase_target (WaitSecond msg i is) = Some i"
| "phase_target (Sending msg i is) = Some i"
| "phase_target _ = None"

definition targets_ok :: "string \<Rightarrow> hub_state \<Rightarrow> bool" where
  "targets_ok db_name s \<longleftrightarrow> set (phase_ids (hub_at s)) \<subseteq> fst ` set (hub_reg s) \<and>
     (\<forall>i m. phase_target (hub_at s) = Some i \<longrightarrow> map_of (hub_reg s) i = Some m \<longrightarrow>
        sees_changes db_name (mb_session m))"

lemma phase_reads_registry: "phase_ids p \<noteq> [] \<or> phase_target p \<noteq> None \<Longrightarrow> reg_has p = 1 \<and> (\<forall>msg. p \<noteq> Looping msg [])"
  by (cases p) auto

lemma phase_holds_target: "phase_target p = Some i \<Longrightarrow> 0 < conn_has p i"
  by (cases p) auto

lemma keys_image: "map fst xs = map fst ys \<Longrightarrow> fst ` set xs = fst ` set ys"
  by (metis list.set_map)

lemma targets_ok_task:
  assumes "targets_ok db_name s" "locks_ok s" "guards_ok s" "task_move s s'"
  shows "targets_ok db_name s'"
proof (cases "phase_ids (hub_at s) \<noteq> [] \<or> phase_target (hub_at s) \<noteq> None")
  case True
  have at: "hub_at s' = hub_at s" using assms(4) by (elim task_moveE) simp_all
  have "0 < guards HubTask (reg_lock s)"
    using assms(3) phase_reads_registry [OF True] by (auto simp: guards_ok_def)
  then have keys: "map fst (hub_reg s') = map fst (hub_reg s)"
    using reads_registry_step [OF assms(2) _ by_task [OF assms(4)]] phase_reads_registry [OF True] by blast
  have "sees_changes db_name (mb_session m')"
    if i: "phase_target (hub_at s) = Some i" "map_of (hub_reg s') i = Some m'" for i m'
  proof -
    have "0 < guards HubTask (conn_lock s i)"
      using assms(3) phase_holds_target [OF i(1)] by (auto simp: guards_ok_def intro: less_le_trans)
    then have "(b, Exclusive) \<notin> set (held (conn_lock s i))" "(b, Exclusive) \<notin> set (held (reg_lock s))" for b
      using assms(2) \<open>0 < guards HubTask (reg_lock s)\<close>
      by (auto simp: locks_ok_def dest: no_writer_beside_reader)
    then have "\<exists>m. map_of (hub_reg s) i = Some m \<and> mb_session m' = mb_session m"
      using assms(4) i(2) by (elim task_moveE) (auto split: if_splits)
    then show ?thesis using assms(1) i(1) by (auto simp: targets_ok_def)
  qed
  with assms(1) at keys_image [OF keys] show ?thesis by (simp add: targets_ok_def)
next
  case False
  have "hub_at s' = hub_at s" using assms(4) by (elim task_moveE) simp_all
  with False show ?thesis by (simp add: targets_ok_def)
qed

lemma targets_ok_hub:
  assumes "targets_ok db_name s" "hub_move json_text db_name s s'"
  shows "targets_ok db_name s'"
  using assms(2,1)
proof cases
  case (hub_sent msg i "is" m)
  then have "fst ` set (hub_reg s') = fst ` set (hub_reg s)"
    using keys_image [OF on_member_keys] by simp
  with hub_sent assms(1) show ?thesis by (auto simp: targets_ok_def)
qed (auto simp: targets_ok_def)

definition hub_inv :: "string \<Rightarrow> hub_state \<Rightarrow> bool" where
  "hub_inv db_name s \<longleftrightarrow> locks_ok s \<and> guards_ok s \<and> targets_ok db_name s"

lemma hub_inv_step:
  assumes "hub_inv db_name s" "hub_step json_text db_name s s'"
  shows "hub_inv db_name s'"
proof -
  have "lock_move s s' \<Longrightarrow> targets_ok db_name s \<Longrightarrow> targets_ok db_name s'"
    by (elim lock_moveE) (simp_all add: targets_ok_def)
  then have "targets_ok db_name s'"
    using assms targets_ok_hub targets_ok_task unfolding hub_inv_def by (blast elim: hub_stepE)
  with assms hub_lock.both.kept [OF _ assms(2)] show ?thesis by (simp add: hub_inv_def)
qed

interpretation hub: invariant "hub_step json_text db_name" "hub_inv db_name" for json_text db_name
  by unfold_locales (rule hub_inv_step)

lemma hub_new_inv: "hub_inv db_name (hub_new cap reg rx)"
  by (simp add: hub_inv_def targets_ok_def)

text \<open>C21: the change task sends only where it may, at the moment it sends.  However the tasks of the
  connections log in, log out and come and go meanwhile, when the change task queues a message for a
  connection, that connection belongs to the organization of the database and its claims at that
  moment say \<open>PosServer\<close>.\<close>

theorem changes_sent_under_current_claims:
  assumes "(hub_step json_text db_name)\<^sup>*\<^sup>* (hub_new cap reg rx) s" "hub_move json_text db_name s s'"
    and "map_of (hub_reg s) i = Some m" "map_of (hub_reg s') i = Some m'" "mb_queue m' \<noteq> mb_queue m"
  shows "sess_org (mb_session m) = db_name \<and> claim_type (mb_session m) = Some PosServer \<and>
    mb_session m' = mb_session m \<and> (\<exists>msg. mb_queue m' = mb_queue m @ [msg])"
proof -
  have "targets_ok db_name s"
    using hub.kept_star [OF assms(1) hub_new_inv] by (simp add: hub_inv_def)
  with assms(2-5) show ?thesis
    by (elim hub_moveE) (auto simp: targets_ok_def sees_changes_def split: if_splits)
qed

theorem changes_sent_under_current_claims_witness:
  "\<exists>s s' m'. hub_move (\<lambda>_. ''j'') ''acme'' s s' \<and> map_of (hub_reg s') 1 = Some m' \<and>
    mb_queue m' = [TextMsg ''j''] \<and> sess_org (mb_session m') = ''acme'' \<and>
    claim_type (mb_session m') = Some PosServer"
proof -
  let ?m = "member_new (pos_session ''acme'')"
  have sees: "sees_changes ''acme'' (mb_session ?m)" by (simp add: sees_changes_def member_new_def)
  obtain s where run: "(hub_step (\<lambda>_. ''j'') ''acme'')\<^sup>*\<^sup>* (hub_new 24 [(1, ?m)] [fresh_transaction]) s"
    and s: "hub_reg s = [(1, ?m)]" "hub_cap s = 24" "hub_at s = Sending (TextMsg ''j'') 1 []"
    using hub_takes_second [OF refl sees, where i = 1 and rest = "[]" and cap = 24 and rx = "[]"
        and txn = fresh_transaction and json_text = "\<lambda>_. ''j''"] by (auto simp: change_message_def)
  let ?s' = "on_conn 1 (rw_release HubTask Shared \<circ> rw_release HubTask Shared)
      (on_member 1 (push (TextMsg ''j'')) (s\<lparr>hub_at := Looping (TextMsg ''j'') []\<rparr>))"
  have move: "hub_move (\<lambda>_. ''j'') ''acme'' s ?s'"
    using s by (intro hub_sent [where m = ?m]) (simp_all add: can_send_def member_new_def)
  have m: "map_of (hub_reg s) 1 = Some ?m" "map_of (hub_reg ?s') 1 = Some (push (TextMsg ''j'') ?m)"
    using s by simp_all
  have "mb_queue (push (TextMsg ''j'') ?m) = [TextMsg ''j'']" by (simp add: member_new_def)
  moreover have "mb_queue (push (TextMsg ''j'') ?m) \<noteq> mb_queue ?m" by (simp add: member_new_def)
  note changes_sent_under_current_claims [OF run move m this]
  ultimately show ?thesis
    using move m(2) by (intro exI [of _ s] exI [of _ ?s'] exI [of _ "push (TextMsg ''j'') ?m"]) simp
qed

end
