(* ===== verification/Hub_Round.thy ===== *)
theory Hub_Round
  imports Hub_Safety
begin

text \<open>
  The change task implements its description in \<open>Hub\<close>: left alone, with room in the channels, it
  takes every change of the stream through all its rounds, and the registry it leaves is the one that
  \<open>start_db_change_stream\<close> computes.
\<close>

section \<open>What is left of a round\<close>

definition sends_to :: "string \<Rightarrow> message \<Rightarrow> uuid list \<Rightarrow> registry \<Rightarrow> registry" where
  "sends_to db_name msg is reg =
     map (\<lambda>(k, m). (k, if k \<in> set is \<and> sees_changes db_name (mb_session m) then push msg m else m)) reg"

fun round_left :: "string \<Rightarrow> hub_phase \<Rightarrow> registry \<Rightarrow> registry" where
  "round_left db_name HubIdle reg = reg"
| "round_left db_name (RoundEntering msg) reg = sends_to db_name msg (map fst reg) reg"
| "round_left db_name (Looping msg is) reg = sends_to db_name msg is reg"
| "round_left db_name (WaitFirst msg i is) reg = sends_to db_name msg (i # is) reg"
| "round_left db_name (HasFirst msg i is) reg = sends_to db_name msg (i # is) reg"
| "round_left db_name (WaitSecond msg i is) reg = sends_to db_name msg (i # is) reg"
| "round_left db_name (Sending msg i is) reg = sends_to db_name msg (i # is) reg"

lemma sends_to_all: "sends_to db_name (change_message json_text txn) (map fst reg) reg = broadcast json_text db_name txn reg"
  by (auto simp: sends_to_def broadcast_def intro!: map_cong) (force)+

lemma sends_to_none [simp]: "sends_to db_name msg [] reg = reg"
  by (simp add: sends_to_def case_prod_beta)

lemma sends_to_keys [simp]: "map fst (sends_to db_name msg is reg) = map fst reg"
  by (simp add: sends_to_def case_prod_beta comp_def)

lemma map_of_entry: "distinct (map fst xs) \<Longrightarrow> (k, v) \<in> set xs \<Longrightarrow> map_of xs k = Some v"
  by simp

lemma sends_to_skip:
  assumes "distinct (map fst reg)" "map_of reg i = Some m" "\<not> sees_changes db_name (mb_session m)"
  shows "sends_to db_name msg (i # is) reg = sends_to db_name msg is reg"
  using assms(2,3) map_of_entry [OF assms(1)] unfolding sends_to_def by (force intro!: map_cong)

lemma sends_to_sent:
  assumes "distinct (map fst reg)" "i \<notin> set is" "map_of reg i = Some m" "sees_changes db_name (mb_session m)"
  shows "sends_to db_name msg is (map (\<lambda>(k, m). (k, if k = i then push msg m else m)) reg) =
    sends_to db_name msg (i # is) reg"
proof -
  have "(if k \<in> set is \<and> sees_changes db_name (mb_session (if k = i then push msg v else v))
      then push msg (if k = i then push msg v else v) else if k = i then push msg v else v) =
    (if k \<in> set (i # is) \<and> sees_changes db_name (mb_session v) then push msg v else v)"
    if "(k, v) \<in> set reg" for k v
    using map_of_entry [OF assms(1) that] assms(2-4) by auto
  then show ?thesis unfolding sends_to_def by (auto simp: case_prod_beta intro!: map_cong)
qed

section \<open>The task alone\<close>

definition quiet_step :: "(json \<Rightarrow> string) \<Rightarrow> string \<Rightarrow> hub_state \<Rightarrow> hub_state \<Rightarrow> bool" where
  "quiet_step json_text db_name s s' \<longleftrightarrow> hub_move json_text db_name s s' \<or> lock_move s s'"

definition quiet_locks :: "hub_state \<Rightarrow> bool" where
  "quiet_locks s \<longleftrightarrow> only_reads HubTask (reg_lock s) \<and> (\<forall>i. only_reads HubTask (conn_lock s i))"

lemma quiet_locks_step: "quiet_locks s \<Longrightarrow> quiet_step json_text db_name s s' \<Longrightarrow> quiet_locks s'"
  unfolding quiet_step_def by (elim disjE hub_moveE lock_moveE) (auto simp: quiet_locks_def)

text \<open>What the task still has to do leads to the registry \<open>goal\<close>, in which no queue is over its
  capacity.\<close>

definition towards :: "(json \<Rightarrow> string) \<Rightarrow> string \<Rightarrow> registry \<Rightarrow> hub_state \<Rightarrow> bool" where
  "towards json_text db_name goal s \<longleftrightarrow>
     start_db_change_stream json_text db_name (hub_rx s) (round_left db_name (hub_at s) (hub_reg s)) = goal \<and>
     distinct (map fst (hub_reg s)) \<and> distinct (phase_ids (hub_at s)) \<and>
     (\<forall>i m. map_of goal i = Some m \<longrightarrow> length (mb_queue m) \<le> hub_cap s)"

lemma towards_step:
  assumes "towards json_text db_name goal s" "targets_ok db_name s" "quiet_step json_text db_name s s'"
  shows "towards json_text db_name goal s'"
proof -
  from assms(3) consider "hub_move json_text db_name s s'" | "lock_move s s'"
    by (auto simp: quiet_step_def)
  then show ?thesis
  proof cases
    case 1
    then show ?thesis
    proof cases
      case (hub_recv txn rx)
      with assms(1) show ?thesis
        by (simp add: towards_def sends_to_all start_db_change_stream_def)
    next
      case (hub_skip msg i "is" m)
      with assms(1) have "sends_to db_name msg is (hub_reg s) = sends_to db_name msg (i # is) (hub_reg s)"
        by (simp add: towards_def sends_to_skip)
      with hub_skip assms(1) show ?thesis by (simp add: towards_def)
    next
      case (hub_sent msg i "is" m)
      with assms(2) have "sees_changes db_name (mb_session m)" by (simp add: targets_ok_def)
      with hub_sent assms(1) have "sends_to db_name msg is (hub_reg s') = sends_to db_name msg (i # is) (hub_reg s)"
        by (simp add: towards_def on_conn_def on_member_def edit_entry_def sends_to_sent)
      with hub_sent assms(1) show ?thesis by (simp add: towards_def)
    qed (use assms(1) in \<open>auto simp: towards_def\<close>)
  next
    case 2
    with assms(1) show ?thesis by (elim lock_moveE) (auto simp: towards_def)
  qed
qed

section \<open>It ends\<close>

fun phase_rank :: "nat \<Rightarrow> hub_phase \<Rightarrow> nat" where
  "phase_rank n HubIdle = 0"
| "phase_rank n (RoundEntering msg) = 8 * n + 4"
| "phase_rank n (Looping msg is) = 8 * length is + 2"
| "phase_rank n (WaitFirst msg i is) = 8 * length is + 8"
| "phase_rank n (HasFirst msg i is) = 8 * length is + 7"
| "phase_rank n (WaitSecond msg i is) = 8 * length is + 5"
| "phase_rank n (Sending msg i is) = 8 * length is + 4"

fun visited :: "hub_phase \<Rightarrow> uuid option" where
  "visited (WaitFirst msg i is) = Some i"
| "visited (HasFirst msg i is) = Some i"
| "visited (WaitSecond msg i is) = Some i"
| "visited (Sending msg i is) = Some i"
| "visited _ = None"

definition hub_distance :: "hub_state \<Rightarrow> nat" where
  "hub_distance s = length (hub_rx s) * (8 * length (hub_reg s) + 8) +
     phase_rank (length (hub_reg s)) (hub_at s) + asked HubTask (reg_lock s) +
     (case visited (hub_at s) of None \<Rightarrow> 0 | Some i \<Rightarrow> asked HubTask (conn_lock s i))"

lemma on_member_length [simp]: "length (hub_reg (on_member i f s)) = length (hub_reg s)"
  by (simp add: on_member_def edit_entry_def)

lemma visited_wants: "conn_wants p k \<noteq> 0 \<Longrightarrow> visited p = Some k"
  by (cases p) (auto split: if_splits)

lemma hub_distance_move:
  assumes "guards_ok s" "hub_move json_text db_name s s'"
  shows "hub_distance s' < hub_distance s"
  using assms(2)
proof cases
  case (hub_visit msg i "is")
  then have "asked HubTask (conn_lock s i) = 0" using assms(1) by (auto simp: guards_ok_def)
  with hub_visit show ?thesis by (simp add: hub_distance_def split: option.split)
qed (auto simp: hub_distance_def split: option.split)

lemma hub_distance_grant:
  assumes "guards_ok s" "quiet_locks s" "lock_move s s'"
  shows "hub_distance s' < hub_distance s"
proof -
  have asks: "0 < asked HubTask l" if "only_reads HubTask l" "rw_grant l \<noteq> l" for l
    using that by (auto simp: rw_grant_effect asked_def only_reads_def split: list.splits)
  from assms(3) show ?thesis
  proof cases
    case grant_reg
    with assms(2) asks have "asked HubTask (rw_grant (reg_lock s)) < asked HubTask (reg_lock s)"
      by (simp add: quiet_locks_def only_reads_grants)
    with grant_reg show ?thesis by (simp add: hub_distance_def split: option.split)
  next
    case (grant_conn i)
    with assms(2) asks have pos: "0 < asked HubTask (conn_lock s i)" and
      less: "asked HubTask (rw_grant (conn_lock s i)) < asked HubTask (conn_lock s i)"
      by (simp_all add: quiet_locks_def only_reads_grants)
    have "guards HubTask (conn_lock s i) + asked HubTask (conn_lock s i) = conn_wants (hub_at s) i"
      using assms(1) by (simp add: guards_ok_def)
    with pos have "conn_wants (hub_at s) i \<noteq> 0" by linarith
    then have "visited (hub_at s) = Some i" by (rule visited_wants)
    with grant_conn less show ?thesis by (simp add: hub_distance_def split: option.split)
  qed
qed

definition hub_finished :: "hub_state \<Rightarrow> bool" where
  "hub_finished s \<longleftrightarrow> hub_at s = HubIdle \<and> hub_rx s = []"

definition quiet_inv :: "(json \<Rightarrow> string) \<Rightarrow> string \<Rightarrow> registry \<Rightarrow> hub_state \<Rightarrow> bool" where
  "quiet_inv json_text db_name goal s \<longleftrightarrow>
     hub_inv db_name s \<and> quiet_locks s \<and> towards json_text db_name goal s"

lemma sending_has_room:
  assumes "towards json_text db_name goal s" "hub_at s = Sending msg i is" "map_of (hub_reg s) i = Some m"
    and "sees_changes db_name (mb_session m)"
  shows "can_send (hub_cap s) m"
proof (cases "mb_closed m")
  case False
  have "map_of (sends_to db_name msg (i # is) reg) i =
      map_option (\<lambda>m. if sees_changes db_name (mb_session m) then push msg m else m) (map_of reg i)" for reg
    by (induction reg) (auto simp: sends_to_def)
  then have "map_of (sends_to db_name msg (i # is) (hub_reg s)) i = Some (push msg m)"
    using assms(3,4) by simp
  from map_of_change_stream [OF this, of json_text db_name "hub_rx s"] assms(1,2)
  obtain m' where "map_of goal i = Some m'" "length (mb_queue m) < length (mb_queue m')"
    using False by (auto simp: towards_def)
  with assms(1) show ?thesis by (fastforce simp: towards_def can_send_def)
qed (simp add: can_send_def)

lemma quiet_enabled:
  assumes "quiet_inv json_text db_name goal s" "\<not> hub_finished s"
  shows "\<exists>s'. quiet_step json_text db_name s s'"
proof -
  have inv: "guards_ok s" "targets_ok db_name s" "quiet_locks s" "towards json_text db_name goal s"
    using assms(1) by (simp_all add: quiet_inv_def hub_inv_def)
  have reg: "\<exists>s'. quiet_step json_text db_name s s'" if "0 < asked HubTask (reg_lock s)"
  proof -
    have "only_reads HubTask (reg_lock s)" using inv(3) by (simp add: quiet_locks_def)
    from grant_reg [OF only_reads_grants(1) [OF this that]] show ?thesis by (auto simp: quiet_step_def)
  qed
  have conn: "\<exists>s'. quiet_step json_text db_name s s'" if "0 < asked HubTask (conn_lock s i)" for i
  proof -
    have "only_reads HubTask (conn_lock s i)" using inv(3) by (simp add: quiet_locks_def)
    from grant_conn [OF only_reads_grants(1) [OF this that]] show ?thesis by (auto simp: quiet_step_def)
  qed
  have move: "\<exists>s'. quiet_step json_text db_name s s'" if "hub_move json_text db_name s s'" for s'
    using that by (auto simp: quiet_step_def)
  have known: "\<exists>m. map_of (hub_reg s) i = Some m" if "i \<in> set (phase_ids (hub_at s))" for i
  proof -
    from that inv(2) have "i \<in> dom (map_of (hub_reg s))" by (auto simp: targets_ok_def dom_map_of_conv_image_fst)
    then show ?thesis by blast
  qed
  show ?thesis
  proof (cases "hub_at s")
    case HubIdle
    with assms(2) obtain txn rx where "hub_rx s = txn # rx" by (cases "hub_rx s") (auto simp: hub_finished_def)
    with HubIdle move [OF hub_recv] show ?thesis by blast
  next
    case (RoundEntering msg)
    with inv(1) have "guards HubTask (reg_lock s) + asked HubTask (reg_lock s) = 1" by (simp add: guards_ok_def)
    with RoundEntering reg move [OF hub_enter] show ?thesis by (cases "guards HubTask (reg_lock s)") auto
  next
    case (Looping msg "is")
    then show ?thesis by (cases "is") (auto intro: move hub_round_done hub_visit)
  next
    case (WaitFirst msg i "is")
    with inv(1) have "guards HubTask (conn_lock s i) + asked HubTask (conn_lock s i) = 1"
      by (simp add: guards_ok_def)
    with WaitFirst conn [of i] move [OF hub_first] show ?thesis by (cases "guards HubTask (conn_lock s i)") auto
  next
    case (HasFirst msg i "is")
    with known obtain m where "map_of (hub_reg s) i = Some m" by auto
    with HasFirst move [OF hub_skip] move [OF hub_again] show ?thesis by blast
  next
    case (WaitSecond msg i "is")
    with inv(1) have "guards HubTask (conn_lock s i) + asked HubTask (conn_lock s i) = 2"
      by (simp add: guards_ok_def)
    with WaitSecond conn [of i] move [OF hub_second] show ?thesis
      by (cases "asked HubTask (conn_lock s i)") auto
  next
    case (Sending msg i "is")
    with known obtain m where m: "map_of (hub_reg s) i = Some m" by auto
    with Sending inv(2) have "sees_changes db_name (mb_session m)" by (simp add: targets_ok_def)
    with Sending m sending_has_room [OF inv(4)] move [OF hub_sent] show ?thesis by blast
  qed
qed

interpretation quiet: terminating "quiet_step json_text db_name" "quiet_inv json_text db_name goal"
    hub_distance hub_finished for json_text db_name goal
proof unfold_locales
  fix s s'
  assume inv: "quiet_inv json_text db_name goal s" and step: "quiet_step json_text db_name s s'"
  have parts: "hub_inv db_name s" "quiet_locks s" "towards json_text db_name goal s"
    "guards_ok s" "targets_ok db_name s"
    using inv by (simp_all add: quiet_inv_def hub_inv_def)
  have "hub_step json_text db_name s s'" using step by (auto simp: quiet_step_def intro: by_hub by_lock)
  with parts(1) have "hub_inv db_name s'" by (rule hub_inv_step)
  with quiet_locks_step [OF parts(2) step] towards_step [OF parts(3,5) step]
  show "quiet_inv json_text db_name goal s'" by (simp add: quiet_inv_def)
  show "hub_distance s' < hub_distance s"
    using step hub_distance_move [OF parts(4)] hub_distance_grant [OF parts(4,2)]
    unfolding quiet_step_def by blast
next
  show "quiet_inv json_text db_name goal s \<Longrightarrow> \<not> hub_finished s \<Longrightarrow> \<exists>s'. quiet_step json_text db_name s s'" for s
    by (rule quiet_enabled)
qed

lemma quiet_start:
  assumes "distinct (map fst reg)" "goal = start_db_change_stream json_text db_name rx reg"
    and "\<forall>m \<in> snd ` set goal. length (mb_queue m) \<le> cap"
  shows "quiet_inv json_text db_name goal (hub_new cap reg rx)"
  using assms map_of_SomeD [of goal] hub_new_inv
  by (fastforce simp: quiet_inv_def quiet_locks_def towards_def)

text \<open>C20: the change task refines its description.  Left alone with a registry whose channels can take
  what the stream holds, the task cannot run for ever, and however its waiting and its guards are
  scheduled it stops only after every change, with the registry that
  \<open>start_db_change_stream\<close> computes: each change in each channel that may have it, in order.\<close>

theorem change_task_refines_broadcast:
  assumes "distinct (map fst reg)" "goal = start_db_change_stream json_text db_name rx reg"
    and "\<forall>m \<in> snd ` set goal. length (mb_queue m) \<le> cap"
  shows "(\<forall>f. f 0 = hub_new cap reg rx \<longrightarrow> (\<exists>n. \<not> quiet_step json_text db_name (f n) (f (Suc n)))) \<and>
    (\<forall>s. (quiet_step json_text db_name)\<^sup>*\<^sup>* (hub_new cap reg rx) s \<and> (\<nexists>s'. quiet_step json_text db_name s s') \<longrightarrow>
       hub_reg s = goal \<and> hub_at s = HubIdle \<and> hub_rx s = [])"
proof -
  have start: "quiet_inv json_text db_name goal (hub_new cap reg rx)" using assms by (rule quiet_start)
  have "hub_reg s = goal \<and> hub_at s = HubIdle \<and> hub_rx s = []"
    if "(quiet_step json_text db_name)\<^sup>*\<^sup>* (hub_new cap reg rx) s" "\<nexists>s'. quiet_step json_text db_name s s'" for s
  proof -
    have "hub_finished s" by (rule quiet.ends_final [OF that(1) start that(2)])
    moreover have "quiet_inv json_text db_name goal s" by (rule quiet.kept_star [OF that(1) start])
    ultimately show ?thesis
      by (simp add: quiet_inv_def towards_def hub_finished_def start_db_change_stream_def)
  qed
  with quiet.stops [of json_text db_name goal] start show ?thesis by metis
qed

theorem change_task_refines_broadcast_witness:
  "\<exists>s. (quiet_step (\<lambda>_. ''j'') ''acme'')\<^sup>*\<^sup>* (hub_new 24 [(1, member_new (pos_session ''acme''))]
      [fresh_transaction, fresh_transaction]) s \<and>
    hub_reg s = [(1, (member_new (pos_session ''acme''))\<lparr>mb_queue := [TextMsg ''j'', TextMsg ''j'']\<rparr>)]"
proof -
  let ?m = "member_new (pos_session ''acme'')" and ?rx = "[fresh_transaction, fresh_transaction]"
  let ?start = "hub_new 24 [(1, ?m)] ?rx" and ?quiet = "quiet_step (\<lambda>_. ''j'') ''acme''"
  let ?goal = "[(1, ?m\<lparr>mb_queue := [TextMsg ''j'', TextMsg ''j'']\<rparr>)]"
  have goal: "?goal = start_db_change_stream (\<lambda>_. ''j'') ''acme'' ?rx [(1, ?m)]"
    by (simp add: start_db_change_stream_def broadcast_def sees_changes_def member_new_def push_def
        change_message_def)
  have room: "\<forall>m \<in> snd ` set ?goal. length (mb_queue m) \<le> 24" by (simp add: member_new_def)
  have "quiet_inv (\<lambda>_. ''j'') ''acme'' ?goal ?start" using quiet_start [OF _ goal room] by simp
  then obtain s where "?quiet\<^sup>*\<^sup>* ?start s" "\<nexists>s'. ?quiet s s'" using quiet.reaches_end by blast
  moreover from this have "hub_reg s = ?goal"
    using change_task_refines_broadcast [OF _ goal room] by simp
  ultimately show ?thesis by blast
qed

end
