(* ===== verification/Notifier.thy ===== *)
theory Notifier
  imports Delivery Hub_Lock
begin

text \<open>
  The notifications of streaming queries between their await points.  Every task of a streaming query
  sends to one channel of bound 100 (\<open>init_query_stream_notifier\<close>), whatever connection it belongs
  to.  One task takes them out, and in the block of its \<open>if let\<close> it holds the read guard of
  \<open>WEBSOCKETS\<close> while it waits for the lock and the room of the connection's own channel
  (\<open>listen_query_stream_notifications\<close>).  So nobody is registered or unregistered in between.
\<close>

section \<open>State and steps\<close>

definition NOTIFIER_BOUND :: nat where
  "NOTIFIER_BOUND = 100"

text \<open>A notification on its way carries the number of the task that sent it, which the code does not
  send.  The task waits for the next one, has one in hand and waits for the registry, or holds the
  registry and delivers.  The last two fields are history: what
  each task was to send, and what became of each notification, \<open>True\<close> if it was queued.\<close>

type_synonym note_in_flight = "nat \<times> uuid \<times> query_stream_notification"

datatype notifier_phase =
    NtIdle
  | NtEntering note_in_flight
  | NtDelivering note_in_flight

fun in_hand :: "notifier_phase \<Rightarrow> note_in_flight list" where
  "in_hand NtIdle = []"
| "in_hand (NtEntering x) = [x]"
| "in_hand (NtDelivering x) = [x]"

definition holds_registry :: "notifier_phase \<Rightarrow> bool" where
  "holds_registry p \<longleftrightarrow> (case p of NtDelivering x \<Rightarrow> True | _ \<Rightarrow> False)"

lemma holds_registry_simps [simp]:
  "\<not> holds_registry NtIdle" "\<not> holds_registry (NtEntering x)" "holds_registry (NtDelivering x)"
  by (simp_all add: holds_registry_def)

record notify_state =
  nt_reg :: registry
  nt_cap :: nat
  nt_chan :: "note_in_flight list"
  nt_at :: notifier_phase
  nt_streams :: "(uuid \<times> query_stream_notification) list list"
  nt_spawned :: "(uuid \<times> query_stream_notification) list list"
  nt_done :: "(note_in_flight \<times> bool) list"

definition notify_new :: "nat \<Rightarrow> registry \<Rightarrow> notify_state" where
  "notify_new cap reg = \<lparr>nt_reg = reg, nt_cap = cap, nt_chan = [], nt_at = NtIdle, nt_streams = [],
     nt_spawned = [], nt_done = []\<rparr>"

definition edit_member :: "uuid \<Rightarrow> (member \<Rightarrow> member) \<Rightarrow> notify_state \<Rightarrow> notify_state" where
  "edit_member i f s = s\<lparr>nt_reg := edit_entry i f (nt_reg s)\<rparr>"

definition stream_notes :: "uuid \<Rightarrow> uuid \<Rightarrow> db_row list \<Rightarrow> (uuid \<times> query_stream_notification) list" where
  "stream_notes socket_id stream_id rows = map (Pair socket_id) (stream_notices stream_id rows)"

inductive notify_step ::
    "(json \<Rightarrow> string) \<Rightarrow> (uuid \<Rightarrow> string) \<Rightarrow> notify_state \<Rightarrow> notify_state \<Rightarrow> bool"
  for json_text uuid_text where
  nt_spawn: "notify_step json_text uuid_text s (s\<lparr>nt_streams := nt_streams s @ [stream_notes i sid rows],
      nt_spawned := nt_spawned s @ [stream_notes i sid rows]\<rparr>)"
| nt_send: "notify_step json_text uuid_text s (s\<lparr>nt_chan := nt_chan s @ [(k, x)],
      nt_streams := (nt_streams s)[k := xs]\<rparr>)"
    if "k < length (nt_streams s)" "nt_streams s ! k = x # xs" "length (nt_chan s) < NOTIFIER_BOUND"
| nt_take: "notify_step json_text uuid_text s (s\<lparr>nt_chan := xs, nt_at := NtEntering x\<rparr>)"
    if "nt_at s = NtIdle" "nt_chan s = x # xs"
| nt_find: "notify_step json_text uuid_text s (s\<lparr>nt_at := NtDelivering (k, i, n)\<rparr>)"
    if "nt_at s = NtEntering (k, i, n)" "map_of (nt_reg s) i \<noteq> None"
| nt_skip: "notify_step json_text uuid_text s (s\<lparr>nt_at := NtIdle, nt_done := nt_done s @ [((k, i, n), False)]\<rparr>)"
    if "nt_at s = NtEntering (k, i, n)" "map_of (nt_reg s) i = None"
| nt_deliver: "notify_step json_text uuid_text s (edit_member i (push (notification_message json_text uuid_text n))
      (s\<lparr>nt_at := NtIdle, nt_done := nt_done s @ [((k, i, n), True)]\<rparr>))"
    if "nt_at s = NtDelivering (k, i, n)" "map_of (nt_reg s) i = Some m" "can_send (nt_cap s) m"
| nt_join: "notify_step json_text uuid_text s (s\<lparr>nt_reg := register i (member_new session) (nt_reg s)\<rparr>)"
    if "\<not> holds_registry (nt_at s)" "i \<notin> fst ` set (nt_reg s)"
| nt_leave: "notify_step json_text uuid_text s (s\<lparr>nt_reg := unregister i (nt_reg s)\<rparr>)"
    if "\<not> holds_registry (nt_at s)"
| nt_queue: "notify_step json_text uuid_text s (edit_member i (push msg) s)"
    if "map_of (nt_reg s) i = Some m" "can_send (nt_cap s) m"
| nt_write: "notify_step json_text uuid_text s (edit_member i (\<lambda>m. m\<lparr>mb_queue := tl (mb_queue m)\<rparr>) s)"
| nt_close: "notify_step json_text uuid_text s (edit_member i (\<lambda>m. m\<lparr>mb_closed := True\<rparr>) s)"
| nt_session: "notify_step json_text uuid_text s (edit_member i (\<lambda>m. m\<lparr>mb_session := session\<rparr>) s)"

inductive_cases notify_stepE: "notify_step json_text uuid_text s s'"

lemma edit_member_simps [simp]:
  "nt_cap (edit_member i f s) = nt_cap s" "nt_chan (edit_member i f s) = nt_chan s"
  "nt_at (edit_member i f s) = nt_at s" "nt_streams (edit_member i f s) = nt_streams s"
  "nt_spawned (edit_member i f s) = nt_spawned s" "nt_done (edit_member i f s) = nt_done s"
  "map fst (nt_reg (edit_member i f s)) = map fst (nt_reg s)"
  "map_of (nt_reg (edit_member i f s)) j = (if j = i then map_option f (map_of (nt_reg s) j) else map_of (nt_reg s) j)"
  by (simp_all add: edit_member_def)

section \<open>Nothing is lost or overtaken before it is delivered\<close>

text \<open>All notifications that have been sent, the oldest first.\<close>

definition on_the_way :: "notify_state \<Rightarrow> note_in_flight list" where
  "on_the_way s = map fst (nt_done s) @ in_hand (nt_at s) @ nt_chan s"

definition of_stream :: "nat \<Rightarrow> note_in_flight list \<Rightarrow> (uuid \<times> query_stream_notification) list" where
  "of_stream k xs = map snd (filter (\<lambda>x. fst x = k) xs)"

lemma of_stream_simps [simp]:
  "of_stream k [] = []" "of_stream k (xs @ ys) = of_stream k xs @ of_stream k ys"
  "of_stream k ((j, x) # xs) = (if j = k then x # of_stream k xs else of_stream k xs)"
  by (simp_all add: of_stream_def)

definition conserved :: "notify_state \<Rightarrow> bool" where
  "conserved s \<longleftrightarrow> length (nt_streams s) = length (nt_spawned s) \<and> length (nt_chan s) \<le> NOTIFIER_BOUND \<and>
     (\<forall>k < length (nt_spawned s). of_stream k (on_the_way s) @ nt_streams s ! k = nt_spawned s ! k) \<and>
     fst ` set (on_the_way s) \<subseteq> {..<length (nt_spawned s)}"

lemma on_the_way_simps [simp]:
  "on_the_way (edit_member i f s) = on_the_way s" "on_the_way (s\<lparr>nt_reg := r\<rparr>) = on_the_way s"
  by (simp_all add: on_the_way_def)

lemma no_strays: "fst ` set xs \<subseteq> {..<n} \<Longrightarrow> of_stream n xs = []"
  by (auto simp: of_stream_def filter_empty_conv)

lemma conservedD:
  assumes "conserved s" "k < length (nt_spawned s)"
  shows "of_stream k (on_the_way s) @ nt_streams s ! k = nt_spawned s ! k"
  using assms by (simp add: conserved_def)

lemma conserved_same:
  assumes "conserved s" "on_the_way s' = on_the_way s" "nt_streams s' = nt_streams s"
    and "nt_spawned s' = nt_spawned s" "length (nt_chan s') \<le> length (nt_chan s)"
  shows "conserved s'"
  using assms by (simp add: conserved_def)

lemma conserved_step:
  assumes "conserved s" "notify_step json_text uuid_text s s'"
  shows "conserved s'"
  using assms(2)
proof cases
  case (nt_spawn i sid rows)
  have "of_stream (length (nt_spawned s)) (on_the_way s) = []"
    using assms(1) by (intro no_strays) (simp add: conserved_def)
  moreover have way: "on_the_way s' = on_the_way s" using nt_spawn by (simp add: on_the_way_def)
  ultimately have "of_stream k (on_the_way s') @ nt_streams s' ! k = nt_spawned s' ! k"
    if "k < Suc (length (nt_spawned s))" for k
    using conservedD [OF assms(1), of k] nt_spawn assms(1) that
    by (cases "k = length (nt_spawned s)") (simp_all add: nth_append conserved_def)
  moreover have "fst ` set (on_the_way s') \<subseteq> {..<Suc (length (nt_spawned s))}"
    using assms(1) by (force simp: conserved_def way)
  ultimately show ?thesis using nt_spawn assms(1) by (simp add: conserved_def)
next
  case (nt_send k x xs)
  have k: "k < length (nt_spawned s)" using assms(1) nt_send(2) by (simp add: conserved_def)
  have way: "on_the_way s' = on_the_way s @ [(k, x)]" using nt_send(1) by (simp add: on_the_way_def)
  have "of_stream j (on_the_way s') @ nt_streams s' ! j = nt_spawned s' ! j" if "j < length (nt_spawned s)" for j
    using conservedD [OF assms(1) that] nt_send assms(1) unfolding way
    by (cases "j = k") (simp_all add: conserved_def)
  with k way nt_send assms(1) show ?thesis by (auto simp: conserved_def)
next
  case (nt_take x xs)
  then show ?thesis by (intro conserved_same [OF assms(1)]) (simp_all add: on_the_way_def)
next
  case (nt_find k i n)
  then show ?thesis by (intro conserved_same [OF assms(1)]) (simp_all add: on_the_way_def)
next
  case (nt_skip k i n)
  then show ?thesis by (intro conserved_same [OF assms(1)]) (simp_all add: on_the_way_def)
next
  case (nt_deliver k i n m)
  then show ?thesis by (intro conserved_same [OF assms(1)]) (simp_all add: on_the_way_def)
qed (use assms(1) in \<open>simp_all add: conserved_def\<close>)

interpretation notices: invariant "notify_step json_text uuid_text" conserved for json_text uuid_text
  by unfold_locales (rule conserved_step)

lemma notify_new_conserved [simp]: "conserved (notify_new cap reg)"
  by (simp add: conserved_def notify_new_def on_the_way_def)

text \<open>C24: the notifications of a stream keep their order.  However many streaming queries run, whoever
  connects and disconnects and whenever the task of the notifier is scheduled, the notifications of
  each query are, in the order of its rows and with the end mark last: those the notifier has dealt
  with, the one in its hand, those in its channel, those not yet sent.  None is lost, doubled or
  overtaken by another of the same query, and the channel never holds more than 100.\<close>

theorem stream_notifications_conserved:
  assumes "(notify_step json_text uuid_text)\<^sup>*\<^sup>* (notify_new cap reg) s" "k < length (nt_spawned s)"
  shows "of_stream k (map fst (nt_done s)) @ of_stream k (in_hand (nt_at s)) @
      of_stream k (nt_chan s) @ nt_streams s ! k = nt_spawned s ! k \<and>
    length (nt_chan s) \<le> NOTIFIER_BOUND"
proof -
  have "conserved s" by (rule notices.kept_star [OF assms(1)]) simp
  then show ?thesis using conservedD [OF _ assms(2)] by (simp add: conserved_def on_the_way_def)
qed

text \<open>A stream of one row whose first notification is on its way.\<close>

lemma notify_sends:
  fixes i :: uuid
  defines "xs \<equiv> stream_notes i 9 [Row JNull]"
  shows "(notify_step json_text uuid_text)\<^sup>*\<^sup>* (notify_new cap reg)
    ((notify_new cap reg)\<lparr>nt_chan := [(0, i, row_notice 9 (Some JNull))], nt_streams := [tl xs], nt_spawned := [xs]\<rparr>)"
proof -
  let ?s0 = "notify_new cap reg"
  let ?s1 = "?s0\<lparr>nt_streams := [xs], nt_spawned := [xs]\<rparr>"
  have xs: "xs = (i, row_notice 9 (Some JNull)) # tl xs"
    by (simp add: xs_def stream_notes_def stream_notices_def)
  have "notify_step json_text uuid_text ?s0 ?s1"
    using nt_spawn [of json_text uuid_text ?s0 i 9 "[Row JNull]"] by (simp add: notify_new_def xs_def)
  moreover have "notify_step json_text uuid_text ?s1
      (?s1\<lparr>nt_chan := nt_chan ?s1 @ [(0, i, row_notice 9 (Some JNull))], nt_streams := (nt_streams ?s1)[0 := tl xs]\<rparr>)"
    by (rule nt_send) (use xs in \<open>simp_all add: notify_new_def NOTIFIER_BOUND_def\<close>)
  ultimately show ?thesis
    by (simp add: notify_new_def)
qed

theorem stream_notifications_conserved_witness:
  "\<exists>s. (notify_step (\<lambda>_. ''j'') (\<lambda>_. ''u''))\<^sup>*\<^sup>* (notify_new 24 []) s \<and> nt_chan s \<noteq> [] \<and>
    of_stream 0 (nt_chan s) @ nt_streams s ! 0 = stream_notes 1 9 [Row JNull]"
proof -
  let ?xs = "stream_notes 1 9 [Row JNull]"
  let ?s = "(notify_new 24 [])\<lparr>nt_chan := [(0, 1, row_notice 9 (Some JNull))], nt_streams := [tl ?xs],
      nt_spawned := [?xs]\<rparr>"
  have run: "(notify_step (\<lambda>_. ''j'') (\<lambda>_. ''u''))\<^sup>*\<^sup>* (notify_new 24 []) ?s" by (rule notify_sends)
  have "nt_done ?s = []" "nt_at ?s = NtIdle" "nt_spawned ?s ! 0 = ?xs" by (simp_all add: notify_new_def)
  with stream_notifications_conserved [OF run, of 0]
  have "of_stream 0 (nt_chan ?s) @ nt_streams ?s ! 0 = ?xs" by simp
  with run show ?thesis by (intro exI [of _ ?s]) simp
qed

section \<open>A client that does not read\<close>

definition member_channel :: "notify_state \<Rightarrow> uuid \<Rightarrow> (bool \<times> message list) option" where
  "member_channel s i = map_option (\<lambda>m. (mb_closed m, mb_queue m)) (map_of (nt_reg s) i)"

text \<open>Steps during which nothing happens to the channel of \<open>i\<close>: its writer waits for the client.\<close>

definition notify_stalled ::
    "(json \<Rightarrow> string) \<Rightarrow> (uuid \<Rightarrow> string) \<Rightarrow> uuid \<Rightarrow> notify_state \<Rightarrow> notify_state \<Rightarrow> bool" where
  "notify_stalled json_text uuid_text i s s' \<longleftrightarrow>
     notify_step json_text uuid_text s s' \<and> member_channel s' i = member_channel s i"

definition blocked_on ::
    "note_in_flight \<Rightarrow> uuid list \<Rightarrow> (note_in_flight \<times> bool) list \<Rightarrow> note_in_flight list \<Rightarrow> notify_state \<Rightarrow> bool" where
  "blocked_on x keys past chan s \<longleftrightarrow> nt_at s = NtDelivering x \<and> map fst (nt_reg s) = keys \<and> nt_done s = past \<and>
     prefix chan (nt_chan s) \<and> length (nt_chan s) \<le> NOTIFIER_BOUND \<and>
     (\<exists>q. member_channel s (fst (snd x)) = Some (False, q) \<and> nt_cap s \<le> length q)"

lemma blocked_on_step:
  assumes "blocked_on x keys past chan s" "notify_stalled json_text uuid_text (fst (snd x)) s s'"
  shows "blocked_on x keys past chan s'"
proof -
  have step: "notify_step json_text uuid_text s s'"
    and same: "member_channel s' (fst (snd x)) = member_channel s (fst (snd x))"
    using assms(2) by (simp_all add: notify_stalled_def)
  have at: "nt_at s = NtDelivering x" and full: "\<exists>q. member_channel s (fst (snd x)) = Some (False, q) \<and> nt_cap s \<le> length q"
    and chan: "prefix chan (nt_chan s)" "length (nt_chan s) \<le> NOTIFIER_BOUND"
    and rest: "map fst (nt_reg s) = keys" "nt_done s = past"
    using assms(1) by (auto simp: blocked_on_def)
  have "nt_at s' = NtDelivering x \<and> map fst (nt_reg s') = keys \<and> nt_done s' = past \<and> nt_cap s' = nt_cap s \<and>
      prefix chan (nt_chan s') \<and> length (nt_chan s') \<le> NOTIFIER_BOUND"
    using step
  proof cases
    case (nt_deliver k i n m)
    with at full show ?thesis by (auto simp: member_channel_def can_send_def)
  qed (use at chan rest in simp_all)
  with same full show ?thesis by (auto simp: blocked_on_def)
qed

interpretation blocked: invariant "notify_stalled json_text uuid_text (fst (snd x))" "blocked_on x keys past chan"
  for json_text uuid_text x keys past chan
  by unfold_locales (rule blocked_on_step)

text \<open>C25: one client that does not read stops every stream of the server.  Whatever happened before,
  while the notifier waits for room in the channel of a connection whose writer does not go on, no
  notification of any query of any connection is delivered, nobody is registered or unregistered, and
  all tasks of streaming queries together can hand over no more than what fits into the rest of the
  100 places.\<close>

theorem slow_client_stops_all_streams:
  assumes "(notify_step json_text uuid_text)\<^sup>*\<^sup>* (notify_new cap reg) s"
    and "nt_at s = NtDelivering (k, i, n)" "member_channel s i = Some (False, q)" "nt_cap s \<le> length q"
    and "(notify_stalled json_text uuid_text i)\<^sup>*\<^sup>* s s'"
  shows "nt_done s' = nt_done s \<and> nt_at s' = NtDelivering (k, i, n) \<and> map fst (nt_reg s') = map fst (nt_reg s) \<and>
    (\<exists>new. nt_chan s' = nt_chan s @ new \<and> length new \<le> NOTIFIER_BOUND - length (nt_chan s))"
proof -
  have "length (nt_chan s) \<le> NOTIFIER_BOUND"
    using notices.kept_star [OF assms(1) notify_new_conserved] by (simp add: conserved_def)
  with assms(2-4) have "blocked_on (k, i, n) (map fst (nt_reg s)) (nt_done s) (nt_chan s) s"
    by (simp add: blocked_on_def)
  moreover have "(notify_stalled json_text uuid_text (fst (snd (k, i, n))))\<^sup>*\<^sup>* s s'"
    using assms(5) by simp
  ultimately have "blocked_on (k, i, n) (map fst (nt_reg s)) (nt_done s) (nt_chan s) s'"
    using blocked.kept_star by blast
  then show ?thesis by (auto simp: blocked_on_def prefix_def)
qed

theorem slow_client_stops_all_streams_witness:
  "\<exists>s. nt_chan s = [] \<and> {s'. (notify_stalled (\<lambda>_. ''j'') (\<lambda>_. ''u'') 1)\<^sup>*\<^sup>* s s'} \<subseteq>
    {s'. nt_done s' = [] \<and> length (nt_chan s') \<le> 100}"
proof -
  let ?m = "(member_new (pos_session ''acme''))\<lparr>mb_queue := [PingMsg []]\<rparr>"
  let ?xs = "stream_notes 1 9 [Row JNull]" and ?n = "row_notice 9 (Some JNull)"
  let ?u = "(notify_new 1 [(1, ?m)])\<lparr>nt_chan := [(0, 1, ?n)], nt_streams := [tl ?xs], nt_spawned := [?xs]\<rparr>"
  let ?v = "?u\<lparr>nt_chan := [], nt_at := NtEntering (0, 1, ?n)\<rparr>"
  let ?t = "?v\<lparr>nt_at := NtDelivering (0, 1, ?n)\<rparr>"
  have "(notify_step (\<lambda>_. ''j'') (\<lambda>_. ''u''))\<^sup>*\<^sup>* (notify_new 1 [(1, ?m)]) ?u" by (rule notify_sends)
  moreover have "notify_step (\<lambda>_. ''j'') (\<lambda>_. ''u'') ?u ?v"
    by (rule nt_take) (simp_all add: notify_new_def)
  moreover have "notify_step (\<lambda>_. ''j'') (\<lambda>_. ''u'') ?v ?t"
    by (rule nt_find) (simp_all add: notify_new_def)
  ultimately have run: "(notify_step (\<lambda>_. ''j'') (\<lambda>_. ''u''))\<^sup>*\<^sup>* (notify_new 1 [(1, ?m)]) ?t"
    by (meson rtranclp.rtrancl_into_rtrancl)
  have at: "nt_at ?t = NtDelivering (0, 1, ?n)" "member_channel ?t 1 = Some (False, [PingMsg []])" "nt_cap ?t \<le> length [PingMsg []]"
    by (simp_all add: notify_new_def member_channel_def member_new_def)
  have "nt_done s' = [] \<and> length (nt_chan s') \<le> 100"
    if "(notify_stalled (\<lambda>_. ''j'') (\<lambda>_. ''u'') 1)\<^sup>*\<^sup>* ?t s'" for s'
    using slow_client_stops_all_streams [OF run at that] by (auto simp: notify_new_def NOTIFIER_BOUND_def)
  then show ?thesis by (intro exI [of _ ?t]) auto
qed

end
