(* ===== verification/Message_Types.thy ===== *)
theory Message_Types
  imports Delivery Socket_Safety
begin

text \<open>
  The messages of a server have types.  \<open>carries\<close> is the typing judgement: a control frame carries
  nothing, a text carries a response, a change or a notification.  The tasks of a connection with the
  two tasks of \<open>mod.rs\<close> beside them put only typed messages on the socket, and a typed message is
  one the client's router decodes as what it carries: the \<open>unwrap\<close> in \<open>try_from_message\<close> panics
  on other texts, but this server sends none.
\<close>

section \<open>The typing judgement\<close>

inductive carries :: "(json \<Rightarrow> string) \<Rightarrow> (uuid \<Rightarrow> string) \<Rightarrow> message \<Rightarrow> db_response option \<Rightarrow> bool"
  for json_text uuid_text where
  ping_frame: "carries json_text uuid_text (PingMsg []) None"
| close_frame: "carries json_text uuid_text CloseMsg None"
| response_frame: "carries json_text uuid_text (TextMsg (response_text json_text r)) (Some (QueryResponse r))"
| change_frame: "carries json_text uuid_text (change_message json_text txn)
    (Some (ListenChanel \<lparr>lcr_channel = ''db_changes'', lcr_data = txn\<rparr>))"
| notification_frame: "carries json_text uuid_text (notification_message json_text uuid_text n)
    (Some (QueryStreamNotification n))"

inductive_cases carries_someE: "carries json_text uuid_text m (Some r)"
inductive_cases carriesE: "carries json_text uuid_text m r"

section \<open>A connection of the server\<close>

text \<open>The tasks of a socket, with the messages that \<open>mod.rs\<close> and \<open>Response::send\<close> really queue.\<close>

inductive server_step ::
    "(json \<Rightarrow> string) \<Rightarrow> (uuid \<Rightarrow> string) \<Rightarrow> (string \<Rightarrow> request option) \<Rightarrow> socket \<Rightarrow> socket \<Rightarrow> bool"
  for json_text uuid_text parse where
  pings: "ping_step s s' \<Longrightarrow> server_step json_text uuid_text parse s s'"
| writes_out: "write_step s s' \<Longrightarrow> server_step json_text uuid_text parse s s'"
| reads_in: "read_step s s' \<Longrightarrow> server_step json_text uuid_text parse s s'"
| handles: "handle_step parse (response_text json_text) s s' \<Longrightarrow> server_step json_text uuid_text parse s s'"
| ends: "server_step json_text uuid_text parse s (s\<lparr>chan_closed := True, registered := False\<rparr>)"
    if "ping_at s = PingDone" "read_at s = ReadDone" "write_at s = WriteDone" "registered s"
| change_queued: "server_step json_text uuid_text parse s (enqueue (change_message json_text txn) s)"
    if "registered s" "has_room s"
| notification_queued: "server_step json_text uuid_text parse s
      (enqueue (notification_message json_text uuid_text n) s)"
    if "registered s" "has_room s"
| stops: "server_step json_text uuid_text parse s (cancel s)"
    if "registered s"

inductive_cases server_stepE: "server_step json_text uuid_text parse s s'"

text \<open>It is a connection of \<open>Socket\<close>, so what holds of one holds of it.\<close>

lemma server_step_socket:
  "server_step json_text uuid_text parse s s' \<Longrightarrow> socket_step parse (response_text json_text) s s'"
  by (elim server_stepE)
    (auto intro: socket_step.intros simp: change_message_def notification_message_def)

lemma server_runs_socket:
  "(server_step json_text uuid_text parse)\<^sup>*\<^sup>* s s' \<Longrightarrow> socket_reach parse (response_text json_text) s s'"
  unfolding socket_reach_def by (rule rtranclp_mono [THEN predicate2D]) (auto intro: server_step_socket)

section \<open>Subject reduction\<close>

definition typed :: "(json \<Rightarrow> string) \<Rightarrow> (uuid \<Rightarrow> string) \<Rightarrow> message \<Rightarrow> bool" where
  "typed json_text uuid_text m \<longleftrightarrow> (\<exists>r. carries json_text uuid_text m r)"

definition answers :: "(json \<Rightarrow> string) \<Rightarrow> request \<Rightarrow> message \<Rightarrow> bool" where
  "answers json_text req m \<longleftrightarrow> (\<exists>res. m = TextMsg (response_text json_text \<lparr>resp_id = req_id req, resp_result = res\<rparr>))"

fun reply_typed :: "(json \<Rightarrow> string) \<Rightarrow> handler \<Rightarrow> bool" where
  "reply_typed json_text (Replying req m) \<longleftrightarrow> answers json_text req m"
| "reply_typed json_text h \<longleftrightarrow> True"

definition well_typed :: "(json \<Rightarrow> string) \<Rightarrow> (uuid \<Rightarrow> string) \<Rightarrow> socket \<Rightarrow> bool" where
  "well_typed json_text uuid_text s \<longleftrightarrow>
     (\<forall>m \<in> set (queue s) \<union> set (sent s). typed json_text uuid_text m) \<and>
     (\<forall>m. write_at s = WriteSending m \<longrightarrow> typed json_text uuid_text m) \<and>
     (\<forall>h \<in># handlers s. reply_typed json_text h)"

lemma typed_frames [simp]:
  "typed json_text uuid_text (PingMsg [])" "typed json_text uuid_text CloseMsg"
  "typed json_text uuid_text (change_message json_text txn)"
  "typed json_text uuid_text (notification_message json_text uuid_text n)"
  by (auto simp: typed_def intro: carries.intros)

lemma answers_typed: "answers json_text req m \<Longrightarrow> typed json_text uuid_text m"
  by (auto simp: typed_def answers_def intro: carries.intros)

lemma answers_reply [simp]:
  "answers json_text req (TextMsg (response_text json_text \<lparr>resp_id = req_id req, resp_result = res\<rparr>))"
  by (auto simp: answers_def)

interpretation typing: invariant "server_step json_text uuid_text parse" "well_typed json_text uuid_text"
  for json_text uuid_text parse
proof unfold_locales
  show "well_typed json_text uuid_text s \<Longrightarrow> server_step json_text uuid_text parse s s' \<Longrightarrow>
      well_typed json_text uuid_text s'" for s s'
    by (elim server_stepE socket_cases) (auto simp: well_typed_def socket_edits intro: answers_typed)
qed

section \<open>The client reads what is typed\<close>

text \<open>The texts are read back: serde_json parses what it printed, uuid what it printed, and a row of a
  stream is an object, never null.\<close>

definition texts_read_back ::
    "(json \<Rightarrow> string) \<Rightarrow> (string \<Rightarrow> json option) \<Rightarrow> (uuid \<Rightarrow> string) \<Rightarrow> (string \<Rightarrow> uuid option) \<Rightarrow> message list \<Rightarrow> bool" where
  "texts_read_back json_text parse_json uuid_text parse_uuid ms \<longleftrightarrow>
     (\<forall>m \<in> set ms. \<forall>r. carries json_text uuid_text m (Some r) \<longrightarrow>
        reads_back json_text parse_json uuid_text r \<and> wire_ok uuid_text parse_uuid r)"

lemma carried_is_read:
  assumes "carries json_text uuid_text m r" "texts_read_back json_text pj uuid_text pu [m]"
  shows "try_from_message pj pu m = Returned (Inr r)"
proof (cases r)
  case (Some d)
  then have ok: "reads_back json_text pj uuid_text d" "wire_ok uuid_text pu d"
    using assms by (auto simp: texts_read_back_def)
  have "m = TextMsg (json_text (enc_db_response uuid_text d))"
    using assms(1) Some by (auto elim: carries_someE simp: response_text_def change_message_def
        notification_message_def)
  with read_sent_message [OF ok] Some show ?thesis by simp
qed (use assms(1) in \<open>auto elim: carriesE\<close>)

lemma typed_run:
  assumes "list_all (typed json_text uuid_text) ms" "texts_read_back json_text pj uuid_text pu ms"
  shows "\<exists>rs cs'. list_all2 (carries json_text uuid_text) ms rs \<and>
    map (try_from_message pj pu) ms = map (Returned \<circ> Inr) rs \<and>
    fold (router_step pj pu header_ok alive) (incoming clk ms) (Running cs) = Running cs'"
  using assms
proof (induction ms arbitrary: cs)
  case (Cons m ms)
  then obtain r where r: "carries json_text uuid_text m r" by (auto simp: typed_def)
  have read: "try_from_message pj pu m = Returned (Inr r)"
    using Cons.prems(2) by (intro carried_is_read [OF r]) (auto simp: texts_read_back_def)
  let ?cs = "case r of None \<Rightarrow> cs\<lparr>last_activity := clk\<rparr> | Some d \<Rightarrow> dispatch alive d (cs\<lparr>last_activity := clk\<rparr>)"
  have step: "router_step pj pu header_ok alive (clk, Select (GotMessage m)) (Running cs) = Running ?cs"
    using read by (simp add: router_handle_response_def)
  have "list_all (typed json_text uuid_text) ms" "texts_read_back json_text pj uuid_text pu ms"
    using Cons.prems by (auto simp: texts_read_back_def)
  from Cons.IH [OF this, of ?cs] obtain rs cs' where
    "list_all2 (carries json_text uuid_text) ms rs" "map (try_from_message pj pu) ms = map (Returned \<circ> Inr) rs"
    "fold (router_step pj pu header_ok alive) (incoming clk ms) (Running ?cs) = Running cs'" by blast
  with r read step show ?case
    by (intro exI [of _ "r # rs"] exI [of _ cs']) (simp add: incoming_def)
qed (simp add: incoming_def)

text \<open>C23: what a server sends is well typed, and well-typed messages do not go wrong.  Every message a
  connection sends, whatever its client asks and however its tasks interleave, is a control frame or
  the text of a response, a change or a notification; the client reads each as exactly that, and its
  router, which would panic on any other text, goes on.\<close>

theorem server_messages_well_typed:
  assumes "(server_step json_text uuid_text parse)\<^sup>*\<^sup>* (socket_new n) s"
    and "texts_read_back json_text pj uuid_text pu (socket.sent s)"
  shows "\<exists>rs cs'. list_all2 (carries json_text uuid_text) (socket.sent s) rs \<and>
    map (try_from_message pj pu) (socket.sent s) = map (Returned \<circ> Inr) rs \<and>
    fold (router_step pj pu header_ok alive) (incoming clk (socket.sent s)) (Running cs) = Running cs'"
proof -
  have "well_typed json_text uuid_text (socket_new n)" by (simp add: well_typed_def socket_new_def)
  then have "well_typed json_text uuid_text s" by (rule typing.kept_star [OF assms(1)])
  then have "list_all (typed json_text uuid_text) (socket.sent s)" by (simp add: well_typed_def list_all_iff)
  then show ?thesis using assms(2) by (rule typed_run)
qed

theorem server_messages_well_typed_witness:
  "\<exists>s cs'. (server_step (table_text change_texts) (\<lambda>_. ''u'') (\<lambda>_. None))\<^sup>*\<^sup>* (socket_new 24) s \<and>
    socket.sent s = [TextMsg ''c''] \<and>
    fold (router_step (table_parse change_texts) (\<lambda>_. None) (\<lambda>_. True) (\<lambda>_. True))
      (incoming 3 (socket.sent s)) (Running listening_client) = Running cs'"
proof -
  let ?jt = "table_text change_texts" and ?pj = "table_parse change_texts"
  let ?step = "server_step ?jt (\<lambda>_. ''u'') (\<lambda>_. None)"
  let ?txn = "\<lparr>xid = None, commit_time = None, events = [sample_insert]\<rparr>"
  let ?s1 = "enqueue (TextMsg ''c'') (socket_new 24)"
  let ?s2 = "?s1\<lparr>write_at := WriteSending (TextMsg ''c''), queue := []\<rparr>"
  let ?s3 = "?s2\<lparr>write_at := Writing, socket.sent := [TextMsg ''c'']\<rparr>"
  have body: "change_message ?jt ?txn = TextMsg ''c''"
    by (simp add: change_message_def table_text_def change_texts_def sample_change_def)
  have "?step (socket_new 24) ?s1"
    using change_queued [of "socket_new 24" ?jt "\<lambda>_. ''u''" "\<lambda>_. None" ?txn]
    by (simp add: body socket_new_def has_room_def)
  moreover have "?step ?s1 ?s2"
    by (rule writes_out) (use write_take [of ?s1 "TextMsg ''c''" "[]"] in \<open>simp add: socket_new_def enqueue_def\<close>)
  moreover have "?step ?s2 ?s3"
    by (rule writes_out) (use write_sent [of ?s2 "TextMsg ''c''"] in \<open>simp add: socket_new_def enqueue_def\<close>)
  ultimately have run: "?step\<^sup>*\<^sup>* (socket_new 24) ?s3"
    by (meson converse_rtranclp_into_rtranclp rtranclp.rtrancl_refl)
  have only: "r = sample_change" if "carries ?jt (\<lambda>_. ''u'') (TextMsg ''c'') (Some r)" for r
  proof -
    from that have "?jt (enc_db_response (\<lambda>_. ''u'') r) = ''c''"
      by (auto elim: carries_someE simp: response_text_def change_message_def notification_message_def)
    then have "enc_db_response (\<lambda>_. ''u'') r = enc_db_response (\<lambda>_. ''u'') sample_change"
      by (simp add: table_text_def change_texts_def split: option.splits if_splits)
    then show ?thesis
      by (cases r) (simp_all add: sample_change_def listen_codec.enc_inject,
          simp_all add: enc_response_def enc_notification_def enc_listen_def)
  qed
  have "reads_back ?jt ?pj (\<lambda>_. ''u'') sample_change"
    by (simp add: reads_back_def table_text_def table_parse_def change_texts_def)
  moreover have "wire_ok (\<lambda>_. ''u'') (\<lambda>_. None) sample_change" by (simp add: sample_change_def)
  ultimately have "texts_read_back ?jt ?pj (\<lambda>_. ''u'') (\<lambda>_. None) (socket.sent ?s3)"
    using only unfolding texts_read_back_def by auto
  from server_messages_well_typed [OF run this, of "\<lambda>_. True" "\<lambda>_. True" 3 listening_client] run
  show ?thesis by auto
qed

end
