(* ===== verification/Rpc_Programs.thy ===== *)
theory Rpc_Programs
  imports Connection Rpc_Lock
begin

text \<open>
  The methods of \<open>connection.rs\<close> step by step.  \<open>Connection\<close> gives what a method does when
  nothing else runs; here a method is a program whose steps are what another task can come between: a
  call of the database, a guard of the connection taken or released, a look at the connection, an edit
  of it.  The guards are those of the source: a temporary guard ends with its statement, so it is held
  during the calls the statement awaits.
\<close>

section \<open>Programs\<close>

datatype prog =
    Finish "failure + json"
  | Fresh "nat \<Rightarrow> prog"
  | Ask db_call "string + db_row list \<Rightarrow> prog"
  | Enter lock_op prog
  | Leave prog
  | Look "rpc \<Rightarrow> prog"
  | Edit "rpc \<Rightarrow> rpc" prog

text \<open>Running a program with nothing in between.\<close>

primrec run_prog :: "db_env \<Rightarrow> prog \<Rightarrow> rpc \<Rightarrow> (failure + json) \<times> rpc" where
  "run_prog E (Finish r) s = (r, s)"
| "run_prog E (Fresh k) s = run_prog E (k (fresh s)) (s\<lparr>fresh := Suc (fresh s)\<rparr>)"
| "run_prog E (Ask c k) s = run_prog E (k (E (calls s) c)) (s\<lparr>calls := calls s @ [c]\<rparr>)"
| "run_prog E (Enter op p) s = run_prog E p s"
| "run_prog E (Leave p) s = run_prog E p s"
| "run_prog E (Look k) s = run_prog E (k s) s"
| "run_prog E (Edit f p) s = run_prog E p (f s)"

section \<open>Statements\<close>

text \<open>A statement is a program that goes on with its result.  \<open>db_stmt\<close> is a call whose error
  \<open>?\<close> converts.\<close>

definition db_stmt :: "db_call \<Rightarrow> (failure + db_row list \<Rightarrow> prog) \<Rightarrow> prog" where
  "db_stmt c k = Ask c (\<lambda>a. k (map_sum failure_of_db_err id a))"

text \<open>\<open>rpc.read().await.session.db.begin().await?\<close>: the guard is held until the database answers.\<close>

definition begin_stmt :: "(failure + tx \<Rightarrow> prog) \<Rightarrow> prog" where
  "begin_stmt k = Enter Shared (Look (\<lambda>s. Fresh (\<lambda>n.
     db_stmt (Begin (Tx (session_db s) n)) (\<lambda>a. Leave (k (map_sum id (\<lambda>_. Tx (session_db s) n) a))))))"

text \<open>\<open>rpc.read().await.app_config.to_owned()\<close> and \<open>rpc.read().await.id\<close>\<close>

definition read_stmt :: "(rpc \<Rightarrow> 'a) \<Rightarrow> ('a \<Rightarrow> prog) \<Rightarrow> prog" where
  "read_stmt f k = Enter Shared (Look (\<lambda>s. Leave (k (f s))))"

definition write_stmt :: "(rpc \<Rightarrow> rpc) \<Rightarrow> prog \<Rightarrow> prog" where
  "write_stmt f p = Enter Exclusive (Edit f (Leave p))"

definition config_stmt :: "(json \<Rightarrow> string) \<Rightarrow> target \<Rightarrow> db_config \<Rightarrow> (failure + unit \<Rightarrow> prog) \<Rightarrow> prog" where
  "config_stmt json_text conn cfg k =
     db_stmt (Execute conn (set_config_stm (json_text (db_config_json cfg)))) (\<lambda>a. k (map_sum id (\<lambda>_. ()) a))"

definition context_stmt ::
    "(json \<Rightarrow> string) \<Rightarrow> target \<Rightarrow> session \<Rightarrow> app_config \<Rightarrow> (failure + unit \<Rightarrow> prog) \<Rightarrow> prog" where
  "context_stmt json_text conn session cfg k =
     (case auth_role session of
        Inl e \<Rightarrow> k (Inl e)
      | Inr role \<Rightarrow>
          let rest = config_stmt json_text conn (db_config cfg) (\<lambda>b. case b of
                Inl e \<Rightarrow> k (Inl e)
              | Inr _ \<Rightarrow> db_stmt (Execute conn (role_stm role)) (\<lambda>c. k (map_sum id (\<lambda>_. ()) c)))
          in case sess_claims session of
               None \<Rightarrow> rest
             | Some claims \<Rightarrow> db_stmt (Execute conn (claims_stm json_text claims)) (\<lambda>a. case a of
                 Inl e \<Rightarrow> k (Inl e) | Inr _ \<Rightarrow> rest))"

text \<open>\<open>sql::login\<close> and \<open>sql::authenticate\<close>: one row, and a member of it.\<close>

definition login_stmt :: "target \<Rightarrow> string \<Rightarrow> string \<Rightarrow> (failure + json \<Rightarrow> prog) \<Rightarrow> prog" where
  "login_stmt conn username password k =
     db_stmt (Fetch conn (from_string (login_sql username password))) (\<lambda>a. case a of
       Inl e \<Rightarrow> k (Inl e)
     | Inr rows \<Rightarrow> k (case first_row rows of
         Inl e \<Rightarrow> Inl e
       | Inr row \<Rightarrow> (case of_option INTERNAL_ERROR row of
           Inl e \<Rightarrow> Inl e | Inr x \<Rightarrow> of_option INTERNAL_ERROR (json_get x ''login''))))"

definition authenticate_stmt :: "target \<Rightarrow> string \<Rightarrow> (failure + json \<Rightarrow> prog) \<Rightarrow> prog" where
  "authenticate_stmt conn token k =
     db_stmt (Fetch conn (from_string (authenticate_sql token))) (\<lambda>a. case a of
       Inl e \<Rightarrow> k (Inl e)
     | Inr rows \<Rightarrow> k (case first_row rows of
         Inl e \<Rightarrow> Inl e
       | Inr row \<Rightarrow> of_option (custom ''Unexpected authentication result'')
           (Option.bind row (\<lambda>x. json_get x ''authenticate''))))"

section \<open>The methods\<close>

text \<open>An error leaves the method at once; the transaction it began is dropped.\<close>

definition failing :: "tx \<Rightarrow> failure \<Rightarrow> prog" where
  "failing t e = Edit (drop_tx t) (Finish (Inl e))"

definition query_prog :: "(json \<Rightarrow> string) \<Rightarrow> query_params \<Rightarrow> prog" where
  "query_prog json_text params = begin_stmt (\<lambda>b. case b of
     Inl e \<Rightarrow> Finish (Inl e)
   | Inr t \<Rightarrow> read_stmt config (\<lambda>cfg.
       Enter Shared (Look (\<lambda>s. context_stmt json_text (OnTx t) (sess s) cfg (\<lambda>c. case c of
         Inl e \<Rightarrow> Leave (failing t e)
       | Inr _ \<Rightarrow> Leave (db_stmt (Fetch (OnTx t) (query_stm params)) (\<lambda>r. case r of
           Inl e \<Rightarrow> failing t e
         | Inr rows \<Rightarrow> db_stmt (Commit t) (\<lambda>d. case d of
             Inl e \<Rightarrow> Finish (Inl e)
           | Inr _ \<Rightarrow> Finish (Inr (JArr (map parse_float_int (converted rows))))))))))))"

definition login_prog :: "(json \<Rightarrow> string) \<Rightarrow> login_params \<Rightarrow> prog" where
  "login_prog json_text params = begin_stmt (\<lambda>b. case b of
     Inl e \<Rightarrow> Finish (Inl e)
   | Inr t \<Rightarrow> read_stmt config (\<lambda>cfg. config_stmt json_text (OnTx t) (db_config cfg) (\<lambda>c. case c of
       Inl e \<Rightarrow> failing t e
     | Inr _ \<Rightarrow> login_stmt (OnTx t) (lp_username params) (lp_password params) (\<lambda>r. case r of
         Inl e \<Rightarrow> failing t e
       | Inr out \<Rightarrow> (case of_option INTERNAL_ERROR (json_get out ''claims'') of
           Inl e \<Rightarrow> failing t e
         | Inr claims \<Rightarrow> write_stmt (set_claims (Some claims)) (db_stmt (Commit t) (\<lambda>d. case d of
             Inl e \<Rightarrow> Finish (Inl e) | Inr _ \<Rightarrow> Finish (Inr out))))))))"

definition authenticate_prog :: "string \<Rightarrow> prog" where
  "authenticate_prog token = begin_stmt (\<lambda>b. case b of
     Inl e \<Rightarrow> Finish (Inl e)
   | Inr t \<Rightarrow> authenticate_stmt (OnTx t) token (\<lambda>r. case r of
       Inl e \<Rightarrow> failing t e
     | Inr out \<Rightarrow> write_stmt (set_claims (Some out)) (Edit (drop_tx t) (Finish (Inr out)))))"

text \<open>\<open>if let Some(x) = rpc.write().await.session.txn.take()\<close>: the guard is a temporary of the
  condition and lives to the end of the block.\<close>

definition take_prog :: "(tx \<Rightarrow> db_call) \<Rightarrow> prog" where
  "take_prog c = Enter Exclusive (Look (\<lambda>s. Edit (set_txn None) (case sess_txn (sess s) of
     None \<Rightarrow> Leave (Finish (Inr JNull))
   | Some x \<Rightarrow> db_stmt (c x) (\<lambda>a. Leave (Finish (map_sum id (\<lambda>_. JNull) a))))))"

primrec transaction_prog :: "transaction_action \<Rightarrow> prog" where
  "transaction_prog TxnBegin = begin_stmt (\<lambda>b. case b of
     Inl e \<Rightarrow> Finish (Inl e) | Inr t \<Rightarrow> write_stmt (insert_txn t) (Finish (Inr JNull)))"
| "transaction_prog TxnCommit = take_prog Commit"
| "transaction_prog TxnRollback = take_prog Rollback"

definition stream_prog :: "(uuid \<Rightarrow> string) \<Rightarrow> query_stream_params \<Rightarrow> prog" where
  "stream_prog uuid_text p = read_stmt rpc_id (\<lambda>i. begin_stmt (\<lambda>b. case b of
     Inl e \<Rightarrow> Finish (Inl e)
   | Inr t \<Rightarrow> Edit (spawn_stream \<lparr>st_stream = qsp_id p, st_txn = t, st_stm = query_stm (qsp_params p)\<rparr>)
       (Finish (Inr (JStr (uuid_text (qsp_id p)))))))"

primrec method_prog :: "(json \<Rightarrow> string) \<Rightarrow> (uuid \<Rightarrow> string) \<Rightarrow> request_data \<Rightarrow> prog" where
  "method_prog json_text uuid_text (Query p) = query_prog json_text p"
| "method_prog json_text uuid_text (Login p) = login_prog json_text p"
| "method_prog json_text uuid_text (Authenticate token) = authenticate_prog token"
| "method_prog json_text uuid_text (Transaction a) = transaction_prog a"
| "method_prog json_text uuid_text (QueryStream p) = stream_prog uuid_text p"

end
