(* ===== verification/Rpc_Discipline.thy ===== *)
theory Rpc_Discipline
  imports Rpc_Programs
begin

text \<open>
  How the methods use the lock of the connection, as a type system: a program that keeps to a script
  takes the guards of the script in order, one at a time, looks at the connection only under a guard
  and edits the session only under the exclusive one.  Every method keeps to its script in
  \<open>Rpc_Lock\<close>.  And every method is bounded: whatever the database answers, it ends.
\<close>

section \<open>The lock discipline\<close>

text \<open>A program keeps to a script of guards: \<open>g\<close> is the guard it holds, \<open>rest\<close> what it may still
  take.  It looks at the connection only under a guard, and edits the session only under the exclusive
  one.\<close>

inductive keeps_to :: "prog \<Rightarrow> lock_op option \<Rightarrow> lock_op list \<Rightarrow> bool" where
  finishes: "keeps_to (Finish r) None rest"
| numbers: "keeps_to (Fresh k) g rest" if "\<And>n. keeps_to (k n) g rest"
| asks: "keeps_to (Ask c k) g rest" if "\<And>a. keeps_to (k a) g rest"
| enters: "keeps_to (Enter op p) None (op # rest)" if "keeps_to p (Some op) rest"
| exits: "keeps_to (Leave p) (Some op) rest" if "keeps_to p None rest"
| looks: "keeps_to (Look k) (Some op) rest" if "\<And>s. keeps_to (k s) (Some op) rest"
| edits: "keeps_to (Edit f p) (Some Exclusive) rest" if "keeps_to p (Some Exclusive) rest"
| edits_own: "keeps_to (Edit f p) g rest" if "\<And>s. sess (f s) = sess s" "keeps_to p g rest"

inductive_simps keeps_to_simps:
  "keeps_to (Finish r) g rest" "keeps_to (Fresh k) g rest" "keeps_to (Ask c k) g rest"
  "keeps_to (Enter op p) g rest" "keeps_to (Leave p) g rest" "keeps_to (Look k) g rest"
  "keeps_to (Edit f p) g rest"

lemma sess_edits [simp]: "sess (drop_tx t s) = sess s" "sess (spawn_stream task s) = sess s"
  by (simp_all add: drop_tx_def spawn_stream_def)

lemma keeps_failing: "keeps_to (failing t e) None rest"
  by (simp add: failing_def keeps_to_simps)

text \<open>The statements keep to a script when what follows them does.\<close>

lemma keeps_db_stmt: "(\<And>a. keeps_to (k a) g rest) \<Longrightarrow> keeps_to (db_stmt c k) g rest"
  by (simp add: db_stmt_def keeps_to_simps)

lemma keeps_begin_stmt: "(\<And>r. keeps_to (k r) None rest) \<Longrightarrow> keeps_to (begin_stmt k) None (Shared # rest)"
  by (simp add: begin_stmt_def keeps_to_simps keeps_db_stmt)

lemma keeps_read_stmt: "(\<And>x. keeps_to (k x) None rest) \<Longrightarrow> keeps_to (read_stmt f k) None (Shared # rest)"
  by (simp add: read_stmt_def keeps_to_simps)

lemma keeps_write_stmt: "keeps_to p None rest \<Longrightarrow> keeps_to (write_stmt f p) None (Exclusive # rest)"
  by (simp add: write_stmt_def keeps_to_simps)

lemma keeps_config_stmt: "(\<And>r. keeps_to (k r) g rest) \<Longrightarrow> keeps_to (config_stmt json_text conn cfg k) g rest"
  by (simp add: config_stmt_def keeps_db_stmt)

lemma keeps_context_stmt: "(\<And>r. keeps_to (k r) g rest) \<Longrightarrow> keeps_to (context_stmt json_text conn s cfg k) g rest"
  by (auto simp: context_stmt_def Let_def intro!: keeps_db_stmt keeps_config_stmt split: sum.split option.split)

lemma keeps_login_stmt: "(\<And>r. keeps_to (k r) g rest) \<Longrightarrow> keeps_to (login_stmt conn u p k) g rest"
  by (auto simp: login_stmt_def intro!: keeps_db_stmt split: sum.split)

lemma keeps_authenticate_stmt: "(\<And>r. keeps_to (k r) g rest) \<Longrightarrow> keeps_to (authenticate_stmt conn t k) g rest"
  by (auto simp: authenticate_stmt_def intro!: keeps_db_stmt split: sum.split)

lemmas keeps_stmts = keeps_failing keeps_db_stmt keeps_begin_stmt keeps_read_stmt keeps_write_stmt
  keeps_config_stmt keeps_context_stmt keeps_login_stmt keeps_authenticate_stmt

lemma keeps_query_prog: "keeps_to (query_prog json_text p) None [Shared, Shared, Shared]"
  by (auto simp: query_prog_def keeps_to_simps intro!: keeps_stmts split: sum.split)

lemma keeps_login_prog: "keeps_to (login_prog json_text p) None [Shared, Shared, Exclusive]"
  by (auto simp: login_prog_def keeps_to_simps intro!: keeps_stmts split: sum.split)

lemma keeps_authenticate_prog: "keeps_to (authenticate_prog token) None [Shared, Exclusive]"
  by (auto simp: authenticate_prog_def keeps_to_simps intro!: keeps_stmts split: sum.split)

lemma keeps_take_prog: "keeps_to (take_prog c) None [Exclusive]"
  by (auto simp: take_prog_def keeps_to_simps intro!: keeps_stmts split: option.split)

lemma keeps_stream_prog: "keeps_to (stream_prog uuid_text p) None [Shared, Shared]"
  by (auto simp: stream_prog_def keeps_to_simps intro!: keeps_stmts split: sum.split)

lemma keeps_begin_prog: "keeps_to (transaction_prog TxnBegin) None [Shared, Exclusive]"
  by (auto simp: keeps_to_simps intro!: keeps_stmts split: sum.split)

lemma method_keeps: "keeps_to (method_prog json_text uuid_text d) None (lock_script d)"
proof (cases d)
  case (Transaction a)
  then show ?thesis using keeps_begin_prog by (cases a) (auto simp: keeps_take_prog)
qed (simp_all add: keeps_query_prog keeps_login_prog keeps_authenticate_prog keeps_stream_prog)

section \<open>Every method ends\<close>

text \<open>\<open>ends_in n p\<close>: whatever the answers, \<open>p\<close> finishes after at most \<open>n\<close> steps.\<close>

inductive ends_in :: "nat \<Rightarrow> prog \<Rightarrow> bool" where
  "ends_in n (Finish r)"
| "ends_in (Suc n) (Fresh k)" if "\<And>i. ends_in n (k i)"
| "ends_in (Suc n) (Ask c k)" if "\<And>a. ends_in n (k a)"
| "ends_in (Suc n) (Look k)" if "\<And>s. ends_in n (k s)"
| "ends_in (Suc n) (Enter op p)" if "ends_in n p"
| "ends_in (Suc n) (Leave p)" if "ends_in n p"
| "ends_in (Suc n) (Edit f p)" if "ends_in n p"

inductive_simps ends_in_simps [simp]:
  "ends_in n (Finish r)" "ends_in (Suc n) (Fresh k)" "ends_in (Suc n) (Ask c k)" "ends_in (Suc n) (Look k)"
  "ends_in (Suc n) (Enter op p)" "ends_in (Suc n) (Leave p)" "ends_in (Suc n) (Edit f p)"

lemma ends_in_mono: "ends_in n p \<Longrightarrow> n \<le> m \<Longrightarrow> ends_in m p"
proof (induction arbitrary: m rule: ends_in.induct)
  case (2 n k)
  then show ?case by (cases m) auto
next
  case (3 n k c)
  then show ?case by (cases m) auto
next
  case (4 n k)
  then show ?case by (cases m) auto
next
  case (5 n p op)
  then show ?case by (cases m) auto
next
  case (6 n p)
  then show ?case by (cases m) auto
next
  case (7 n p f)
  then show ?case by (cases m) auto
qed simp

lemma ends_in_stmts:
  "(\<And>a. ends_in n (k a)) \<Longrightarrow> ends_in (Suc n) (db_stmt c k)"
  "(\<And>r. ends_in n (k' r)) \<Longrightarrow> ends_in (Suc (Suc (Suc (Suc (Suc n))))) (begin_stmt k')"
  "(\<And>x. ends_in n (k'' x)) \<Longrightarrow> ends_in (Suc (Suc (Suc n))) (read_stmt f k'')"
  "ends_in n p \<Longrightarrow> ends_in (Suc (Suc (Suc n))) (write_stmt g p)"
  "ends_in (Suc n) (failing t e)"
  by (simp_all add: db_stmt_def begin_stmt_def read_stmt_def write_stmt_def failing_def)

lemma ends_in_config_stmt: "(\<And>r. ends_in n (k r)) \<Longrightarrow> ends_in (Suc n) (config_stmt json_text conn cfg k)"
  by (simp add: config_stmt_def ends_in_stmts)

lemma ends_in_context_stmt:
  assumes "\<And>r. ends_in n (k r)"
  shows "ends_in (Suc (Suc (Suc n))) (context_stmt json_text conn s cfg k)"
proof -
  have later: "ends_in (n + m) (k r)" for m r
    using ends_in_mono [OF assms [of r], of "n + m"] by simp
  show ?thesis
    using assms later [of 1] later [of 2] later [of "Suc (Suc (Suc 0))"]
    by (auto simp: context_stmt_def Let_def intro!: ends_in_stmts ends_in_config_stmt
        split: sum.split option.split intro: ends_in_mono)
qed

lemma ends_in_login_stmt: "(\<And>r. ends_in n (k r)) \<Longrightarrow> ends_in (Suc n) (login_stmt conn u p k)"
  by (auto simp: login_stmt_def intro!: ends_in_stmts split: sum.split)

lemma ends_in_authenticate_stmt: "(\<And>r. ends_in n (k r)) \<Longrightarrow> ends_in (Suc n) (authenticate_stmt conn t k)"
  by (auto simp: authenticate_stmt_def intro!: ends_in_stmts split: sum.split)

lemmas ends_in_all = ends_in_stmts ends_in_config_stmt ends_in_context_stmt ends_in_login_stmt
  ends_in_authenticate_stmt

lemma ends_in_query_prog: "ends_in 18 (query_prog json_text p)"
  unfolding eval_nat_numeral BitM.simps
  by (auto simp: query_prog_def failing_def intro!: ends_in_all split: sum.split)

lemma ends_in_login_prog: "ends_in 18 (login_prog json_text p)"
  unfolding eval_nat_numeral BitM.simps
  by (auto simp: login_prog_def intro!: ends_in_all split: sum.split)

lemma ends_in_authenticate_prog: "ends_in 18 (authenticate_prog token)"
  unfolding eval_nat_numeral BitM.simps
  by (auto simp: authenticate_prog_def intro!: ends_in_all split: sum.split)

lemma ends_in_transaction_prog: "ends_in 18 (transaction_prog a)"
  unfolding eval_nat_numeral BitM.simps
  by (cases a) (auto simp: take_prog_def intro!: ends_in_all split: sum.split option.split)

lemma ends_in_stream_prog: "ends_in 18 (stream_prog uuid_text p)"
  unfolding eval_nat_numeral BitM.simps
  by (auto simp: stream_prog_def intro!: ends_in_all split: sum.split)

lemma method_ends: "ends_in 18 (method_prog json_text uuid_text d)"
  by (cases d) (simp_all add: ends_in_query_prog ends_in_login_prog ends_in_authenticate_prog
      ends_in_transaction_prog ends_in_stream_prog)

text \<open>The steps a program has left.\<close>

definition steps_left :: "prog \<Rightarrow> nat" where
  "steps_left p = (LEAST n. ends_in n p)"

lemma steps_left_less:
  assumes "ends_in n p" "\<And>m. ends_in (Suc m) p \<Longrightarrow> ends_in m q" "\<not> ends_in 0 p"
  shows "steps_left q < steps_left p" "\<exists>m. ends_in m q"
proof -
  have least: "ends_in (steps_left p) p" unfolding steps_left_def using assms(1) by (rule LeastI)
  with assms(3) obtain m where m: "steps_left p = Suc m" by (cases "steps_left p") auto
  with least assms(2) have "ends_in m q" by simp
  then have "steps_left q \<le> m" unfolding steps_left_def by (rule Least_le)
  with m show "steps_left q < steps_left p" by simp
  show "\<exists>m. ends_in m q" using \<open>ends_in m q\<close> ..
qed

end
