(* ===== verification/Rpc_Progress.thy ===== *)
theory Rpc_Progress
  imports Rpc_Lock
begin

text \<open>
  The other side of the deadlock in \<open>Rpc_Lock\<close>: as long as a client has no more requests in flight
  than the connection has permits, all of them end, however their tasks are scheduled.
\<close>

section \<open>Work that is left\<close>

fun task_work :: "lock_task \<Rightarrow> nat" where
  "task_work (Entering d) = 3 * length (script_of d) + 3"
| "task_work (Admitting d) = 3 * length (script_of d) + 2"
| "task_work (Between r) = 3 * length r + 1"
| "task_work (Waiting op r) = 3 * length r + 3"
| "task_work (Guarding op r) = 3 * length r + 2"
| "task_work Over = 0"

definition work_left :: "lock_state \<Rightarrow> nat" where
  "work_left s = 2 * sum_list (map task_work (tasks s)) + length (waitq s)"

lemmas work_update = sum_list_map_update [where f = task_work]

lemma granted_work: "task_work (granted t) \<le> task_work t"
  by (cases t) simp_all

text \<open>A step of a task that has arrived.\<close>

definition work_step :: "lock_state \<Rightarrow> lock_state \<Rightarrow> bool" where
  "work_step s s' \<longleftrightarrow> lock_step s s' \<and> length (tasks s') = length (tasks s)"

lemma work_step_nearer:
  assumes "work_step s s'"
  shows "work_left s' < work_left s"
proof -
  have "lock_step s s'" and len: "length (tasks s') = length (tasks s)"
    using assms by (simp_all add: work_step_def)
  then show ?thesis
  proof cases
    case (arrive d)
    with len show ?thesis by simp
  next
    case (grant i op q)
    have "sum_list (map task_work ((tasks s)[i := granted (tasks s ! i)])) \<le> sum_list (map task_work (tasks s))"
      using work_update [of i "tasks s" "granted (tasks s ! i)"] granted_work [of "tasks s ! i"]
      by (cases "i < length (tasks s)") (simp_all add: list_update_beyond)
    with grant show ?thesis by (simp add: work_left_def)
  next
    case (admit i d)
    with work_update [of i "tasks s" "Between (script_of d)"] show ?thesis by (simp add: work_left_def)
  next
    case (request_guard i op rest)
    with work_update [of i "tasks s" "Waiting op rest"] show ?thesis by (simp add: work_left_def)
  next
    case (release_guard i op rest)
    with work_update [of i "tasks s" "Between rest"] show ?thesis by (simp add: work_left_def)
  next
    case (complete i rest)
    with work_update [of i "tasks s" Over] show ?thesis by (simp add: work_left_def)
  qed
qed

section \<open>Waiting tasks are queued\<close>

definition all_queued :: "lock_state \<Rightarrow> bool" where
  "all_queued s \<longleftrightarrow> (\<forall>i < length (tasks s). \<forall>op. waits_in (tasks s ! i) op \<longrightarrow> (i, op) \<in> set (waitq s))"

lemma granted_waits [simp]: "\<not> waits_in (granted t) op \<or> granted t = t"
  by (cases t) simp_all

lemma waits_unique: "waits_in t op \<Longrightarrow> waits_in t op' \<Longrightarrow> op = op'"
  by (cases t) simp_all

lemma all_queued_step:
  assumes "all_queued s" "queue_ok (tasks s) (waitq s)" "lock_step s s'"
  shows "all_queued s'"
  using assms(3)
proof cases
  case (arrive d)
  with assms(1) show ?thesis by (auto simp: all_queued_def nth_append less_Suc_eq)
next
  case (grant i op q)
  then have "i < length (tasks s)" "waits_in (tasks s ! i) op"
    using assms(2) by (simp_all add: queue_ok_def)
  then have "\<not> waits_in (granted (tasks s ! i)) op'" for op'
    by (cases "tasks s ! i") simp_all
  with grant assms(1) show ?thesis by (fastforce simp: all_queued_def nth_update_if split: if_splits)
next
  case (admit i d)
  with assms(1) show ?thesis by (auto simp: all_queued_def nth_update_if split: if_splits)
next
  case (request_guard i op rest)
  with assms(1) show ?thesis by (auto simp: all_queued_def nth_update_if split: if_splits)
next
  case (release_guard i op rest)
  with assms(1) show ?thesis by (auto simp: all_queued_def nth_update_if split: if_splits)
next
  case (complete i rest)
  with assms(1) show ?thesis by (auto simp: all_queued_def nth_update_if split: if_splits)
qed

section \<open>Progress\<close>

definition unfinished :: "lock_state \<Rightarrow> nat" where
  "unfinished s = length (filter (\<lambda>t. t \<noteq> Over) (tasks s))"

definition work_inv :: "nat \<Rightarrow> lock_state \<Rightarrow> bool" where
  "work_inv n s \<longleftrightarrow> lock_inv n s \<and> all_queued s \<and> unfinished s \<le> n"

definition all_over :: "lock_state \<Rightarrow> bool" where
  "all_over s \<longleftrightarrow> (\<forall>t \<in> set (tasks s). t = Over)"

lemma update_unfinished:
  assumes "i < length ts" "ts ! i \<noteq> Over"
  shows "length (filter (\<lambda>t. t \<noteq> Over) (ts[i := t])) \<le> length (filter (\<lambda>t. t \<noteq> Over) ts)"
  using length_filter_update [of i ts "\<lambda>t. t \<noteq> Over" t] assms by (auto split: if_splits)

lemma unfinished_step:
  assumes "work_step s s'" "queue_ok (tasks s) (waitq s)"
  shows "unfinished s' \<le> unfinished s"
proof -
  have "lock_step s s'" and len: "length (tasks s') = length (tasks s)"
    using assms(1) by (simp_all add: work_step_def)
  then show ?thesis
  proof cases
    case (grant i op q)
    then have "i < length (tasks s)" "waits_in (tasks s ! i) op"
      using assms(2) by (simp_all add: queue_ok_def)
    moreover from this have "tasks s ! i \<noteq> Over" by auto
    ultimately show ?thesis using grant by (simp add: unfinished_def update_unfinished)
  qed (use len in \<open>auto simp: unfinished_def intro: update_unfinished\<close>)
qed

lemma work_inv_step: "work_inv n s \<Longrightarrow> work_step s s' \<Longrightarrow> work_inv n s'"
  using lock_inv_step [of n s s'] all_queued_step [of s s'] unfinished_step [of s s']
  by (auto simp: work_inv_def work_step_def lock_inv_def)

lemma filter_more:
  assumes "\<And>t. P t \<Longrightarrow> Q t" "t \<in> set ts" "Q t" "\<not> P t"
  shows "length (filter P ts) < length (filter Q ts)"
  using assms(2)
proof (induction ts)
  case (Cons x xs)
  have "length (filter P ts) \<le> length (filter Q ts)" for ts
    using assms(1) by (induction ts) (auto simp: le_SucI)
  with Cons assms(1,3,4) show ?case by (auto simp: less_Suc_eq_le)
qed simp

lemma work_enabled:
  assumes "work_inv n s" "\<not> all_over s"
  shows "\<exists>s'. work_step s s'"
proof (rule ccontr)
  assume stuck: "\<nexists>s'. work_step s s'"
  have inv: "free_permits s + length (filter admitted (tasks s)) = n" "queue_ok (tasks s) (waitq s)"
    "all_queued s" "unfinished s \<le> n"
    using assms(1) by (simp_all add: work_inv_def lock_inv_def)
  have no: "\<not> lock_step s s'" if "length (tasks s') = length (tasks s)" for s'
    using stuck that by (auto simp: work_step_def)
  have idle: "tasks s ! i \<noteq> Between r" "tasks s ! i \<noteq> Guarding op r" if "i < length (tasks s)" for i op r
    using no complete [OF that] release_guard [OF that] by fastforce+
  have no_admitting: "tasks s ! i \<noteq> Admitting d" if i: "i < length (tasks s)" for i d
  proof
    assume adm: "tasks s ! i = Admitting d"
    then have "free_permits s = 0" using no admit [OF i adm] by fastforce
    moreover have "length (filter admitted (tasks s)) < unfinished s"
      unfolding unfinished_def using i adm
      by (intro filter_more [of _ _ "Admitting d"]) (auto simp: in_set_conv_nth)
    ultimately show False using inv by simp
  qed
  have "\<not> writes (tasks s ! i) \<and> \<not> reads (tasks s ! i)" if "i < length (tasks s)" for i
    using idle [OF that] no_admitting [OF that] by (cases "tasks s ! i") auto
  then have free: "\<not> list_ex writes (tasks s)" "\<not> list_ex reads (tasks s)"
    by (simp_all add: list_ex_length)
  obtain i where i: "i < length (tasks s)" "tasks s ! i \<noteq> Over"
    using assms(2) by (auto simp: all_over_def in_set_conv_nth)
  then obtain op where "waits_in (tasks s ! i) op"
    using idle [OF i(1)] no_admitting [OF i(1)] by (cases "tasks s ! i") auto
  then have "(i, op) \<in> set (waitq s)" using inv(3) i(1) by (simp add: all_queued_def)
  then obtain k op' q where q: "waitq s = (k, op') # q" by (cases "waitq s") auto
  moreover have "grantable op' (tasks s)" using free by (cases op') (simp_all add: grantable_def)
  ultimately show False using no grant by fastforce
qed

interpretation work: terminating work_step "work_inv n" work_left all_over for n
  by unfold_locales (auto intro: work_inv_step work_step_nearer work_enabled)

text \<open>No deadlock below the limit.  Whatever happened on a connection before, if at most \<open>n\<close>
  requests are in flight, the number of permits, then from there the tasks can only do finitely many
  steps, and they never stop before every one of them has ended.\<close>

theorem requests_within_limit_complete:
  assumes "lock_step\<^sup>*\<^sup>* (lock_new n) s" "unfinished s \<le> n"
  shows "wfp (\<lambda>s' s. work_step s s') \<and>
    (\<forall>s'. work_step\<^sup>*\<^sup>* s s' \<and> (\<nexists>s''. work_step s' s'') \<longrightarrow> (\<forall>t \<in> set (tasks s'). t = Over)) \<and>
    (\<exists>s'. work_step\<^sup>*\<^sup>* s s' \<and> (\<forall>t \<in> set (tasks s'). t = Over))"
proof -
  have start: "lock_inv n (lock_new n) \<and> all_queued (lock_new n)"
    by (simp add: lock_inv_def lock_new_def exclusive_def queue_ok_def all_queued_def)
  have "lock_inv n s \<and> all_queued s"
    using assms(1) start
  proof (induction rule: rtranclp_induct)
    case (step s1 s2)
    then show ?case using lock_inv_step all_queued_step by (metis lock_inv_def)
  qed
  with assms(2) have "work_inv n s" by (simp add: work_inv_def)
  moreover have "wfp (\<lambda>s' s. work_step s s')"
    using wfp_if_convertible_to_nat [of "\<lambda>s' s. work_step s s'" work_left] work_step_nearer by blast
  ultimately show ?thesis
    using work.ends_final work.reaches_final by (fastforce simp: all_over_def)
qed

theorem requests_within_limit_complete_witness:
  "\<exists>s s'. lock_step (lock_new 24) s \<and> unfinished s = 1 \<and> work_step\<^sup>*\<^sup>* s s' \<and> set (tasks s') \<subseteq> {Over}"
proof -
  let ?d = "Some (Transaction TxnCommit)"
  let ?s = "\<lparr>free_permits = 24, waitq = [(0, Shared)], tasks = [Entering ?d]\<rparr>"
  have step: "lock_step (lock_new 24) ?s"
    using arrive [of "lock_new 24" ?d] by (simp add: lock_new_def)
  have one: "unfinished ?s = 1" by (simp add: unfinished_def)
  obtain s' where "work_step\<^sup>*\<^sup>* ?s s'" "\<forall>t \<in> set (tasks s'). t = Over"
    using requests_within_limit_complete [of 24 ?s] step one by auto
  with step one show ?thesis by blast
qed

end
