(* ===== verification/Rpc_Concurrent.thy ===== *)
theory Rpc_Concurrent
  imports Rpc_Discipline Rpc_Progress
begin

text \<open>
  The tasks of a connection, interleaved.  The state is the product of the lock and the permits of
  \<open>Rpc_Lock\<close> and the connection of \<open>Connection\<close>; a task is its place in the lock's protocol
  and the rest of its program.  Taking and releasing a guard are steps of both, a call of the database
  and an edit are steps of the program alone.  The tasks of streaming queries run beside them.  The
  last four fields are history: the request of each task, the calls it made, the answers given and the
  states the connection went through.
\<close>

section \<open>State and steps\<close>

record conc_state =
  lks :: lock_state
  rpc_state :: rpc
  progs :: "prog option list"
  reqs :: "request_data option list"
  made :: "(nat \<times> db_call) list"
  outs :: "(nat \<times> (failure + json)) list"
  seen :: "rpc list"

definition conc_new :: "nat \<Rightarrow> rpc \<Rightarrow> conc_state" where
  "conc_new n r = \<lparr>lks = lock_new n, rpc_state = r, progs = [], reqs = [], made = [], outs = [], seen = [r]\<rparr>"

text \<open>A step that concerns no guard.\<close>

fun local_step :: "db_env \<Rightarrow> prog \<Rightarrow> rpc \<Rightarrow> (prog \<times> rpc) option" where
  "local_step E (Fresh k) s = Some (k (fresh s), s\<lparr>fresh := Suc (fresh s)\<rparr>)"
| "local_step E (Ask c k) s = Some (k (E (calls s) c), s\<lparr>calls := calls s @ [c]\<rparr>)"
| "local_step E (Look k) s = Some (k s, s)"
| "local_step E (Edit f p) s = Some (p, f s)"
| "local_step E p s = None"

definition new_calls :: "rpc \<Rightarrow> rpc \<Rightarrow> db_call list" where
  "new_calls s s' = drop (length (calls s)) (calls s')"

definition running :: "lock_task \<Rightarrow> bool" where
  "running t \<longleftrightarrow> (case t of Between r \<Rightarrow> True | Guarding op r \<Rightarrow> True | _ \<Rightarrow> False)"

definition see :: "rpc \<Rightarrow> conc_state \<Rightarrow> conc_state" where
  "see r s = s\<lparr>rpc_state := r, seen := seen s @ [r]\<rparr>"

inductive task_step :: "db_env \<Rightarrow> conc_state \<Rightarrow> conc_state \<Rightarrow> bool"
  for E where
  c_grant: "task_step E s (s\<lparr>lks := (lks s)\<lparr>waitq := q,
      tasks := (tasks (lks s))[i := granted (tasks (lks s) ! i)]\<rparr>\<rparr>)"
    if "waitq (lks s) = (i, op) # q" "grantable op (tasks (lks s))"
| c_admit: "task_step E s (s\<lparr>lks := (lks s)\<lparr>free_permits := free_permits (lks s) - 1,
      tasks := (tasks (lks s))[i := Between (script_of d)]\<rparr>\<rparr>)"
    if "i < length (tasks (lks s))" "tasks (lks s) ! i = Admitting d" "0 < free_permits (lks s)"
| c_enter: "task_step E s (s\<lparr>lks := (lks s)\<lparr>waitq := waitq (lks s) @ [(i, op)],
      tasks := (tasks (lks s))[i := Waiting op rest]\<rparr>, progs := (progs s)[i := Some p]\<rparr>)"
    if "i < length (tasks (lks s))" "tasks (lks s) ! i = Between (op # rest)" "progs s ! i = Some (Enter op p)"
| c_leave: "task_step E s (s\<lparr>lks := (lks s)\<lparr>
      tasks := (tasks (lks s))[i := Between rest]\<rparr>, progs := (progs s)[i := Some p]\<rparr>)"
    if "i < length (tasks (lks s))" "tasks (lks s) ! i = Guarding op rest" "progs s ! i = Some (Leave p)"
| c_local: "task_step E s (see r (s\<lparr>progs := (progs s)[i := Some p],
      made := made s @ map (Pair i) (new_calls (rpc_state s) r)\<rparr>))"
    if "i < length (tasks (lks s))" "running (tasks (lks s) ! i)" "progs s ! i = Some p0"
      "local_step E p0 (rpc_state s) = Some (p, r)"
| c_answer: "task_step E s (s\<lparr>lks := (lks s)\<lparr>free_permits := free_permits (lks s) + 1,
      tasks := (tasks (lks s))[i := Over]\<rparr>, outs := outs s @ [(i, r)]\<rparr>)"
    if "i < length (tasks (lks s))" "tasks (lks s) ! i = Between rest" "progs s ! i = Some (Finish r)"
| c_ignore: "task_step E s (s\<lparr>lks := (lks s)\<lparr>free_permits := free_permits (lks s) + 1,
      tasks := (tasks (lks s))[i := Over]\<rparr>\<rparr>)"
    if "i < length (tasks (lks s))" "tasks (lks s) ! i = Between rest" "progs s ! i = None"

text \<open>Beside the tasks that have arrived: a message arrives, a task of a streaming query is scheduled.\<close>

inductive conc_step ::
    "(json \<Rightarrow> string) \<Rightarrow> (uuid \<Rightarrow> string) \<Rightarrow> db_env \<Rightarrow> conc_state \<Rightarrow> conc_state \<Rightarrow> bool"
  for json_text uuid_text E where
  c_task: "task_step E s s' \<Longrightarrow> conc_step json_text uuid_text E s s'"
| c_arrive: "conc_step json_text uuid_text E s (s\<lparr>lks := l, reqs := reqs s @ [d],
      progs := progs s @ [map_option (method_prog json_text uuid_text) d]\<rparr>)"
    if "l = (lks s)\<lparr>waitq := waitq (lks s) @ [(length (tasks (lks s)), Shared)],
      tasks := tasks (lks s) @ [Entering d]\<rparr>"
| c_stream: "conc_step json_text uuid_text E s (see (run_task E k (rpc_state s)) s)"

inductive_cases task_stepE: "task_step E s s'"
inductive_cases conc_stepE: "conc_step json_text uuid_text E s s'"

lemma see_simps [simp]:
  "lks (see r s) = lks s" "rpc_state (see r s) = r" "progs (see r s) = progs s" "reqs (see r s) = reqs s"
  "made (see r s) = made s" "outs (see r s) = outs s" "seen (see r s) = seen s @ [r]"
  by (simp_all add: see_def)

section \<open>The product projects to the lock\<close>

lemma task_step_lock:
  assumes "task_step E s s'"
  shows "work_step (lks s) (lks s') \<or> lks s' = lks s \<and>
    (\<exists>i p0 p r. i < length (tasks (lks s)) \<and> progs s ! i = Some p0 \<and>
       local_step E p0 (rpc_state s) = Some (p, r) \<and> progs s' = (progs s)[i := Some p])"
  using assms
proof cases
  case (c_admit i d)
  then show ?thesis using admit [of i "lks s" d] by (simp add: work_step_def)
next
  case (c_answer i rest r)
  then show ?thesis using complete [of i "lks s" rest] by (simp add: work_step_def)
next
  case (c_ignore i rest)
  then show ?thesis using complete [of i "lks s" rest] by (simp add: work_step_def)
qed (auto intro: grant request_guard release_guard simp: work_step_def)

lemma conc_step_lock:
  "conc_step json_text uuid_text E s s' \<Longrightarrow> lock_step (lks s) (lks s') \<or> lks s' = lks s"
  using task_step_lock by (elim conc_stepE) (auto simp: work_step_def intro: arrive)

lemma conc_runs_lock: "(conc_step json_text uuid_text E)\<^sup>*\<^sup>* s s' \<Longrightarrow> lock_step\<^sup>*\<^sup>* (lks s) (lks s')"
proof (induction rule: rtranclp_induct)
  case (step s1 s2)
  then show ?case using conc_step_lock [OF step.hyps(2)] by (metis rtranclp.rtrancl_into_rtrancl)
qed simp

end
