(* ===== verification/Rpc_Races.thy ===== *)
theory Rpc_Races
  imports Rpc_Concurrent Rpc_Safety
begin

text \<open>
  What the lock guarantees to the methods: the session is edited by one task at a time, and does not
  change under the eyes of a task that holds a guard.  And what the discipline of the methods
  guarantees to the client: below the limit of concurrent requests, each request is answered, once.
\<close>

section \<open>Every task keeps to its script\<close>

fun task_ok :: "lock_task \<Rightarrow> prog option \<Rightarrow> bool" where
  "task_ok (Entering d) p \<longleftrightarrow> (\<forall>q. p = Some q \<longrightarrow> keeps_to q None (script_of d))"
| "task_ok (Admitting d) p \<longleftrightarrow> (\<forall>q. p = Some q \<longrightarrow> keeps_to q None (script_of d))"
| "task_ok (Between rest) p \<longleftrightarrow> (\<forall>q. p = Some q \<longrightarrow> keeps_to q None rest)"
| "task_ok (Waiting op rest) p \<longleftrightarrow> (\<exists>q. p = Some q \<and> keeps_to q (Some op) rest)"
| "task_ok (Guarding op rest) p \<longleftrightarrow> (\<exists>q. p = Some q \<and> keeps_to q (Some op) rest)"
| "task_ok Over p \<longleftrightarrow> True"

definition prog_ends :: "prog option \<Rightarrow> bool" where
  "prog_ends p \<longleftrightarrow> (\<forall>q. p = Some q \<longrightarrow> (\<exists>n. ends_in n q))"

definition disciplined :: "conc_state \<Rightarrow> bool" where
  "disciplined s \<longleftrightarrow> length (progs s) = length (tasks (lks s)) \<and> length (reqs s) = length (tasks (lks s)) \<and>
     (\<forall>i < length (tasks (lks s)). task_ok (tasks (lks s) ! i) (progs s ! i) \<and> prog_ends (progs s ! i) \<and>
        (progs s ! i = None \<longleftrightarrow> reqs s ! i = None))"

lemma disciplinedD:
  assumes "disciplined s" "i < length (tasks (lks s))"
  shows "task_ok (tasks (lks s) ! i) (progs s ! i)" "prog_ends (progs s ! i)" "i < length (progs s)"
    "progs s ! i = None \<longleftrightarrow> reqs s ! i = None"
  using assms by (simp_all add: disciplined_def)

lemma disciplined_update:
  assumes "disciplined s" "tasks (lks s') = (tasks (lks s))[i := t]" "reqs s' = reqs s"
    and "progs s' = (progs s)[i := q]" "q = None \<longleftrightarrow> progs s ! i = None" "task_ok t q" "prog_ends q"
  shows "disciplined s'"
  using assms by (auto simp: disciplined_def nth_update_if split: if_splits)

text \<open>A step of a program keeps to the script and brings its end nearer.\<close>

lemma local_step_keeps:
  assumes "local_step E p s = Some (p', r)" "keeps_to p g rest"
  shows "keeps_to p' g rest" "sess r \<noteq> sess s \<Longrightarrow> g = Some Exclusive"
  using assms by (cases p; auto simp: keeps_to_simps)+

lemma local_step_ends:
  assumes "local_step E p s = Some (p', r)" "\<exists>n. ends_in n p"
  shows "\<exists>n. ends_in n p'" "steps_left p' < steps_left p"
proof -
  from assms(2) obtain n where n: "ends_in n p" ..
  have down: "ends_in m p'" if "ends_in (Suc m) p" for m using assms(1) that by (cases p) auto
  have "\<not> ends_in 0 p" using assms(1) by (cases p) (auto elim: ends_in.cases)
  from steps_left_less [OF n down this] show "\<exists>n. ends_in n p'" "steps_left p' < steps_left p" by blast+
qed

lemma guard_step_ends:
  assumes "p = Enter op p' \<or> p = Leave p'" "\<exists>n. ends_in n p"
  shows "\<exists>n. ends_in n p'" "steps_left p' < steps_left p"
proof -
  from assms(2) obtain n where n: "ends_in n p" ..
  have down: "ends_in m p'" if "ends_in (Suc m) p" for m using assms(1) that by auto
  have "\<not> ends_in 0 p" using assms(1) by (auto elim: ends_in.cases)
  from steps_left_less [OF n down this] show "\<exists>n. ends_in n p'" "steps_left p' < steps_left p" by blast+
qed

lemma granted_task_ok: "task_ok t p \<Longrightarrow> task_ok (granted t) p"
  by (cases t) simp_all

lemma running_task_ok:
  assumes "task_ok t (Some p)" "running t" "local_step E p s = Some (p', r)"
  shows "task_ok t (Some p')"
  using assms local_step_keeps(1) [OF assms(3)] by (cases t) (auto simp: running_def)

lemma disciplined_task_step:
  assumes "disciplined s" "task_step E s s'" "queue_ok (tasks (lks s)) (waitq (lks s))"
  shows "disciplined s'"
  using assms(2)
proof cases
  case (c_grant i op q)
  then have "i < length (tasks (lks s))" using assms(3) by (simp add: queue_ok_def)
  from disciplinedD [OF assms(1) this] c_grant(1) show ?thesis
    by (intro disciplined_update [OF assms(1), where i = i and q = "progs s ! i"
          and t = "granted (tasks (lks s) ! i)"]) (simp_all add: granted_task_ok)
next
  case (c_admit i d)
  from disciplinedD [OF assms(1) c_admit(2)] c_admit show ?thesis
    by (intro disciplined_update [OF assms(1), where i = i and t = "Between (script_of d)" and q = "progs s ! i"]) simp_all
next
  case (c_enter i op rest p)
  from disciplinedD [OF assms(1) c_enter(2)] c_enter guard_step_ends(1) [of "Enter op p" op p] show ?thesis
    by (intro disciplined_update [OF assms(1), where i = i and t = "Waiting op rest" and q = "Some p"])
      (simp_all add: keeps_to_simps prog_ends_def)
next
  case (c_leave i op rest p)
  from disciplinedD [OF assms(1) c_leave(2)] c_leave guard_step_ends(1) [of "Leave p" op p] show ?thesis
    by (intro disciplined_update [OF assms(1), where i = i and t = "Between rest" and q = "Some p"])
      (simp_all add: keeps_to_simps prog_ends_def)
next
  case (c_local i p0 p r)
  note ok = disciplinedD [OF assms(1) c_local(2)]
  have "task_ok (tasks (lks s) ! i) (Some p)" "prog_ends (Some p)"
    using ok(1,2) c_local(4) running_task_ok [OF _ c_local(3,5)] local_step_ends(1) [OF c_local(5)]
    by (simp_all add: prog_ends_def)
  with c_local show ?thesis
    by (intro disciplined_update [OF assms(1), where i = i and t = "tasks (lks s) ! i" and q = "Some p"]) simp_all
next
  case (c_answer i rest r)
  from disciplinedD [OF assms(1) c_answer(2)] c_answer(1) show ?thesis
    by (intro disciplined_update [OF assms(1), where i = i and t = "Over" and q = "progs s ! i"]) simp_all
next
  case (c_ignore i rest)
  from disciplinedD [OF assms(1) c_ignore(2)] c_ignore(1) show ?thesis
    by (intro disciplined_update [OF assms(1), where i = i and t = "Over" and q = "progs s ! i"]) simp_all
qed

lemma disciplined_step:
  assumes "disciplined s" "conc_step json_text uuid_text E s s'" "queue_ok (tasks (lks s)) (waitq (lks s))"
  shows "disciplined s'"
  using assms(2)
proof cases
  case c_task
  then show ?thesis using disciplined_task_step [OF assms(1) _ assms(3)] by blast
next
  case (c_arrive l d)
  have "prog_ends (map_option (method_prog json_text uuid_text) d)"
    using method_ends by (auto simp: prog_ends_def)
  moreover have "task_ok (Entering d) (map_option (method_prog json_text uuid_text) d)"
    using method_keeps by (auto simp: script_of_def)
  ultimately show ?thesis
    using assms(1) c_arrive by (auto simp: disciplined_def nth_append less_Suc_eq)
next
  case (c_stream k)
  with assms(1) show ?thesis by (simp add: disciplined_def)
qed

text \<open>The invariant of the product: those of the lock, and the discipline.\<close>

definition conc_inv :: "nat \<Rightarrow> conc_state \<Rightarrow> bool" where
  "conc_inv n s \<longleftrightarrow> lock_inv n (lks s) \<and> all_queued (lks s) \<and> disciplined s"

interpretation conc: invariant "conc_step json_text uuid_text E" "conc_inv n" for json_text uuid_text E n
proof unfold_locales
  fix s s'
  assume inv: "conc_inv n s" and step: "conc_step json_text uuid_text E s s'"
  then have "queue_ok (tasks (lks s)) (waitq (lks s))" by (simp add: conc_inv_def lock_inv_def)
  with inv step disciplined_step conc_step_lock [OF step] lock_inv_step all_queued_step
  show "conc_inv n s'" unfolding conc_inv_def by metis
qed

lemma conc_new_inv: "conc_inv n (conc_new n r)"
  by (simp add: conc_inv_def conc_new_def lock_inv_def lock_new_def exclusive_def queue_ok_def
      all_queued_def disciplined_def)

section \<open>No races on the session\<close>

lemma sess_notify [simp]: "sess (notify i d s) = sess s"
  by (simp add: notify_def)

lemma sess_run_task [simp]: "sess (run_task E k s) = sess s"
proof -
  have "sess (stream_rows i rows s) = sess s" for i rows s
    by (induction i rows s rule: stream_rows.induct) simp_all
  then show ?thesis
    by (auto simp: run_task_def run_stream_def split: sum.split prod.split)
qed

lemma exclusive_guard:
  assumes "conc_inv n s" "i < length (tasks (lks s))" "tasks (lks s) ! i = Guarding Exclusive rest"
    and "j < length (tasks (lks s))" "writes (tasks (lks s) ! j) \<or> reads (tasks (lks s) ! j)"
  shows "j = i"
  using assms by (auto simp: conc_inv_def lock_inv_def exclusive_def writes_def)

text \<open>Whoever changes the session holds the exclusive guard.\<close>

lemma session_editor:
  assumes "conc_inv n s" "conc_step json_text uuid_text E s s'" "sess (rpc_state s') \<noteq> sess (rpc_state s)"
  shows "\<exists>i rest. i < length (tasks (lks s)) \<and> tasks (lks s) ! i = Guarding Exclusive rest \<and>
    (\<forall>j < length (tasks (lks s)). j \<noteq> i \<longrightarrow> progs s' ! j = progs s ! j)"
  using assms(2)
proof cases
  case c_task
  then show ?thesis
  proof cases
    case (c_local i p0 p r)
    then have "task_ok (tasks (lks s) ! i) (Some p0)"
      using disciplinedD(1) [of s i] assms(1) by (simp add: conc_inv_def)
    then obtain g rest where g: "keeps_to p0 g rest"
      "tasks (lks s) ! i = (case g of None \<Rightarrow> Between rest | Some op \<Rightarrow> Guarding op rest)"
      using c_local(3) by (cases "tasks (lks s) ! i") (auto simp: running_def split: option.split)
    from local_step_keeps(2) [OF c_local(5) g(1)] assms(3) c_local(1) have "g = Some Exclusive" by simp
    with g(2) c_local show ?thesis by (intro exI [of _ i] exI [of _ rest]) simp
  qed (use assms(3) in simp_all)
qed (use assms(3) in simp_all)

text \<open>C15: no data races on the session.  However the requests of a connection interleave, a step that
  changes the session is a step of a task that holds the exclusive guard, and at that moment no other
  task holds a guard of either kind; so between two steps of a task that holds a guard, no other task
  changes what it sees of the session.\<close>

theorem session_changed_by_guard_holder:
  assumes "(conc_step json_text uuid_text E)\<^sup>*\<^sup>* (conc_new n r) s" "conc_step json_text uuid_text E s s'"
    and "sess (rpc_state s') \<noteq> sess (rpc_state s)"
  shows "\<exists>i rest. tasks (lks s) ! i = Guarding Exclusive rest \<and>
    (\<forall>j < length (tasks (lks s)). writes (tasks (lks s) ! j) \<or> reads (tasks (lks s) ! j) \<longrightarrow> j = i) \<and>
    (\<forall>j < length (tasks (lks s)). j \<noteq> i \<longrightarrow> progs s' ! j = progs s ! j)"
proof -
  have inv: "conc_inv n s" by (rule conc.kept_star [OF assms(1) conc_new_inv])
  obtain i rest where i: "i < length (tasks (lks s))" "tasks (lks s) ! i = Guarding Exclusive rest"
    "\<forall>j < length (tasks (lks s)). j \<noteq> i \<longrightarrow> progs s' ! j = progs s ! j"
    using session_editor [OF inv assms(2,3)] by blast
  moreover have "j = i" if "j < length (tasks (lks s))" "writes (tasks (lks s) ! j) \<or> reads (tasks (lks s) ! j)" for j
    using exclusive_guard [OF inv i(1,2) that] .
  ultimately show ?thesis by blast
qed

definition open_conn :: rpc where
  "open_conn = set_txn (Some (Tx 1 0)) sample_conn"

text \<open>A commit that has taken its guard.\<close>

definition committing :: "prog \<Rightarrow> rpc list \<Rightarrow> conc_state" where
  "committing p rs = \<lparr>lks = \<lparr>free_permits = 0, waitq = [], tasks = [Guarding Exclusive []]\<rparr>, rpc_state = open_conn,
     progs = [Some p], reqs = [Some (Transaction TxnCommit)], made = [], outs = [], seen = rs\<rparr>"

lemma reach_committing:
  "\<exists>p. (conc_step json_text uuid_text E)\<^sup>*\<^sup>* (conc_new 1 open_conn) (committing (Edit (set_txn None) p) [open_conn, open_conn])"
proof -
  let ?d = "Some (Transaction TxnCommit)" and ?p = "method_prog json_text uuid_text (Transaction TxnCommit)"
  let ?mk = "\<lambda>f q t p rs. \<lparr>lks = \<lparr>free_permits = f, waitq = q, tasks = [t]\<rparr>, rpc_state = open_conn,
     progs = [Some p], reqs = [?d], made = [], outs = [], seen = rs\<rparr>"
  obtain k where p: "?p = Enter Exclusive (Look k)" by (simp add: take_prog_def)
  obtain p' where k: "k open_conn = Edit (set_txn None) p'"
    using p by (auto simp: take_prog_def)
  have "conc_step json_text uuid_text E (conc_new 1 open_conn) (?mk 1 [(0, Shared)] (Entering ?d) ?p [open_conn])"
    using c_arrive [where s = "conc_new 1 open_conn" and d = ?d] by (simp add: conc_new_def lock_new_def)
  moreover have "conc_step json_text uuid_text E (?mk 1 [(0, Shared)] (Entering ?d) ?p [open_conn])
      (?mk 1 [] (Admitting ?d) ?p [open_conn])"
    using c_task [OF c_grant [of "?mk 1 [(0, Shared)] (Entering ?d) ?p [open_conn]" 0 Shared "[]"]]
    by (simp add: grantable_def)
  moreover have "conc_step json_text uuid_text E (?mk 1 [] (Admitting ?d) ?p [open_conn])
      (?mk 0 [] (Between [Exclusive]) ?p [open_conn])"
    using c_task [OF c_admit [of 0 "?mk 1 [] (Admitting ?d) ?p [open_conn]" ?d]] by (simp add: script_of_def)
  moreover have "conc_step json_text uuid_text E (?mk 0 [] (Between [Exclusive]) ?p [open_conn])
      (?mk 0 [(0, Exclusive)] (Waiting Exclusive []) (Look k) [open_conn])"
    using c_task [OF c_enter [of 0 "?mk 0 [] (Between [Exclusive]) ?p [open_conn]" Exclusive "[]" "Look k"]]
    by (simp add: p [simplified])
  moreover have "conc_step json_text uuid_text E (?mk 0 [(0, Exclusive)] (Waiting Exclusive []) (Look k) [open_conn])
      (?mk 0 [] (Guarding Exclusive []) (Look k) [open_conn])"
    using c_task [OF c_grant [of "?mk 0 [(0, Exclusive)] (Waiting Exclusive []) (Look k) [open_conn]" 0 Exclusive "[]"]]
    by (simp add: grantable_def)
  moreover have "conc_step json_text uuid_text E (?mk 0 [] (Guarding Exclusive []) (Look k) [open_conn])
      (?mk 0 [] (Guarding Exclusive []) (k open_conn) [open_conn, open_conn])"
    using c_task [OF c_local [of 0 "?mk 0 [] (Guarding Exclusive []) (Look k) [open_conn]" "Look k" _ "k open_conn" open_conn]]
    by (simp add: running_def new_calls_def see_def)
  ultimately show ?thesis
    unfolding committing_def k by (blast intro: converse_rtranclp_into_rtranclp rtranclp.rtrancl_refl)
qed

theorem session_changed_by_guard_holder_witness:
  "\<exists>p s'. conc_step (\<lambda>_. ''{}'') (\<lambda>_. '''') two_rows (committing p [open_conn, open_conn]) s' \<and>
    sess_txn (sess (rpc_state s')) = None \<and> tasks (lks (committing p [open_conn, open_conn])) ! 0 = Guarding Exclusive []"
proof -
  obtain p where run: "(conc_step (\<lambda>_. ''{}'') (\<lambda>_. '''') two_rows)\<^sup>*\<^sup>* (conc_new 1 open_conn)
      (committing (Edit (set_txn None) p) [open_conn, open_conn])"
    using reach_committing by blast
  let ?s = "committing (Edit (set_txn None) p) [open_conn, open_conn]"
  let ?s' = "see (set_txn None open_conn) (?s\<lparr>progs := [Some p], made := []\<rparr>)"
  have step: "conc_step (\<lambda>_. ''{}'') (\<lambda>_. '''') two_rows ?s ?s'"
    using c_task [OF c_local [of 0 ?s "Edit (set_txn None) p" two_rows p "set_txn None open_conn"]]
    by (simp add: committing_def running_def new_calls_def set_txn_def)
  have changed: "sess (rpc_state ?s') \<noteq> sess (rpc_state ?s)"
    by (auto simp: committing_def open_conn_def set_txn_def dest: arg_cong [where f = sess_txn])
  have "tasks (lks ?s) ! 0 = Guarding Exclusive []"
    using session_changed_by_guard_holder [OF run step changed] by (simp add: committing_def)
  with step show ?thesis by (intro exI [of _ "Edit (set_txn None) p"] exI [of _ ?s']) (simp add: set_txn_def)
qed

section \<open>Every request is answered\<close>

text \<open>The requests that have an answer are those whose task is over, but for messages that did not
  parse.\<close>

definition answers_counted :: "conc_state \<Rightarrow> bool" where
  "answers_counted s \<longleftrightarrow> distinct (map fst (outs s)) \<and>
     fst ` set (outs s) = {i. i < length (reqs s) \<and> tasks (lks s) ! i = Over \<and> reqs s ! i \<noteq> None}"

lemma answers_counted_update:
  assumes "answers_counted s" "disciplined s" "tasks (lks s') = (tasks (lks s))[i := t]" "reqs s' = reqs s"
    and "outs s' = outs s" "reqs s ! i = None \<or> t \<noteq> Over \<and> tasks (lks s) ! i \<noteq> Over"
  shows "answers_counted s'"
proof -
  have "length (reqs s) = length (tasks (lks s))" using assms(2) by (simp add: disciplined_def)
  with assms(3,4,6) have "{k. k < length (reqs s') \<and> tasks (lks s') ! k = Over \<and> reqs s' ! k \<noteq> None} =
      {k. k < length (reqs s) \<and> tasks (lks s) ! k = Over \<and> reqs s ! k \<noteq> None}"
    by (auto simp: nth_update_if split: if_splits)
  with assms(1,5) show ?thesis by (simp add: answers_counted_def)
qed

lemma answers_counted_task_step:
  assumes "answers_counted s" "disciplined s" "queue_ok (tasks (lks s)) (waitq (lks s))" "task_step E s s'"
  shows "answers_counted s'"
proof -
  note update = answers_counted_update [OF assms(1,2)]
  from assms(4) show ?thesis
  proof cases
    case (c_grant i op q)
    then have "waits_in (tasks (lks s) ! i) op" using assms(3) by (simp add: queue_ok_def)
    then have "tasks (lks s) ! i \<noteq> Over \<and> granted (tasks (lks s) ! i) \<noteq> Over"
      by (cases "tasks (lks s) ! i") simp_all
    with c_grant show ?thesis
      by (intro update [where i = i and t = "granted (tasks (lks s) ! i)"]) simp_all
  next
    case (c_admit i d)
    then show ?thesis by (intro update [where i = i and t = "Between (script_of d)"]) simp_all
  next
    case (c_enter i op rest p)
    then show ?thesis by (intro update [where i = i and t = "Waiting op rest"]) simp_all
  next
    case (c_leave i op rest p)
    then show ?thesis by (intro update [where i = i and t = "Between rest"]) simp_all
  next
    case (c_local i p0 p r)
    then have "tasks (lks s) ! i \<noteq> Over" by (auto simp: running_def)
    with c_local show ?thesis by (intro update [where i = i and t = "tasks (lks s) ! i"]) simp_all
  next
    case (c_answer i rest r)
    have len: "length (reqs s) = length (tasks (lks s))" using assms(2) by (simp add: disciplined_def)
    have "reqs s ! i \<noteq> None" using disciplinedD(4) [OF assms(2) c_answer(2)] c_answer(4) by simp
    with c_answer len have "{k. k < length (reqs s') \<and> tasks (lks s') ! k = Over \<and> reqs s' ! k \<noteq> None} =
        insert i {k. k < length (reqs s) \<and> tasks (lks s) ! k = Over \<and> reqs s ! k \<noteq> None}"
      by (auto simp: nth_update_if split: if_splits)
    moreover have "i \<notin> fst ` set (outs s)" using assms(1) c_answer(3) by (simp add: answers_counted_def)
    ultimately show ?thesis using assms(1) c_answer(1) by (simp add: answers_counted_def)
  next
    case (c_ignore i rest)
    have "reqs s ! i = None" using disciplinedD(4) [OF assms(2) c_ignore(2)] c_ignore(4) by simp
    with c_ignore show ?thesis by (intro update [where i = i and t = Over]) simp_all
  qed
qed

interpretation answering: invariant "conc_step json_text uuid_text E"
    "\<lambda>s. conc_inv n s \<and> answers_counted s" for json_text uuid_text E n
proof unfold_locales
  fix s s'
  assume inv: "conc_inv n s \<and> answers_counted s" and step: "conc_step json_text uuid_text E s s'"
  then have old: "disciplined s" "queue_ok (tasks (lks s)) (waitq (lks s))"
    by (simp_all add: conc_inv_def lock_inv_def)
  then have len: "length (reqs s) = length (tasks (lks s))" by (simp add: disciplined_def)
  from step have "answers_counted s'"
  proof cases
    case c_task
    then show ?thesis using inv old answers_counted_task_step by blast
  next
    case (c_arrive l d)
    with inv len show ?thesis by (auto simp: answers_counted_def nth_append less_Suc_eq)
  next
    case (c_stream k)
    with inv show ?thesis by (simp add: answers_counted_def)
  qed
  with inv step conc.kept show "conc_inv n s' \<and> answers_counted s'" by blast
qed

text \<open>What the tasks have left to do: the protocol of the lock and their programs.\<close>

definition conc_left :: "conc_state \<Rightarrow> nat" where
  "conc_left s = work_left (lks s) + sum_list (map (case_option 0 steps_left) (progs s))"

lemma conc_left_less:
  assumes "disciplined s" "task_step E s s'"
  shows "conc_left s' < conc_left s"
proof -
  have nearer: "conc_left s' < conc_left s"
    if "i < length (tasks (lks s))" "progs s ! i = Some p" "progs s' = (progs s)[i := Some q]"
      "steps_left q < steps_left p" "work_left (lks s') \<le> work_left (lks s)" for i p q
    using that disciplinedD(3) [OF assms(1) that(1)]
      sum_list_map_update [of i "progs s" "case_option 0 steps_left" "Some q"]
    by (simp add: conc_left_def)
  have lock: "work_left (lks s') < work_left (lks s)" if "work_step (lks s) (lks s')"
    using that by (rule work_step_nearer)
  have ends: "\<exists>n. ends_in n p" if "i < length (tasks (lks s))" "progs s ! i = Some p" for i p
    using disciplinedD(2) [OF assms(1) that(1)] that(2) by (simp add: prog_ends_def)
  from assms(2) show ?thesis
  proof cases
    case (c_enter i op rest p)
    then have "work_step (lks s) (lks s')" by (auto simp: work_step_def intro: request_guard)
    with c_enter guard_step_ends(2) [of "Enter op p" op p] ends [OF c_enter(2,4)] lock show ?thesis
      by (intro nearer [OF c_enter(2,4), of p]) simp_all
  next
    case (c_leave i op rest p)
    then have "work_step (lks s) (lks s')" by (auto simp: work_step_def intro: release_guard)
    with c_leave guard_step_ends(2) [of "Leave p" op p] ends [OF c_leave(2,4)] lock show ?thesis
      by (intro nearer [OF c_leave(2,4), of p]) simp_all
  next
    case (c_local i p0 p r)
    with local_step_ends(2) [OF c_local(5) ends [OF c_local(2,4)]] show ?thesis
      by (intro nearer [OF c_local(2,4), of p]) simp_all
  next
    case (c_grant i op q)
    then have "work_step (lks s) (lks s')" by (auto simp: work_step_def intro: grant)
    with lock c_grant(1) show ?thesis by (simp add: conc_left_def)
  next
    case (c_admit i d)
    then have "work_step (lks s) (lks s')" using admit [of i "lks s" d] by (simp add: work_step_def)
    with lock c_admit(1) show ?thesis by (simp add: conc_left_def)
  next
    case (c_answer i rest r)
    then have "work_step (lks s) (lks s')" using complete [of i "lks s" rest] by (simp add: work_step_def)
    with lock c_answer(1) show ?thesis by (simp add: conc_left_def)
  next
    case (c_ignore i rest)
    then have "work_step (lks s) (lks s')" using complete [of i "lks s" rest] by (simp add: work_step_def)
    with lock c_ignore(1) show ?thesis by (simp add: conc_left_def)
  qed
qed

text \<open>A task that is between two guards, or holds one, can go on.\<close>

lemma running_enabled:
  assumes "disciplined s" "i < length (tasks (lks s))" "running (tasks (lks s) ! i)"
  shows "\<exists>s'. task_step E s s'"
proof -
  note ok = disciplinedD [OF assms(1,2)]
  show ?thesis
  proof (cases "progs s ! i")
    case None
    with ok(1) assms(3) obtain rest where "tasks (lks s) ! i = Between rest"
      by (cases "tasks (lks s) ! i") (auto simp: running_def)
    with None show ?thesis using c_ignore [OF assms(2)] by blast
  next
    case (Some p)
    show ?thesis
    proof (cases "local_step E p (rpc_state s)")
      case None
      with Some ok(1) assms(3) show ?thesis
        using c_enter [OF assms(2)] c_leave [OF assms(2)] c_answer [OF assms(2)]
        by (cases "tasks (lks s) ! i"; cases p) (simp_all add: running_def keeps_to_simps, blast+)
    next
      case (Some a)
      with \<open>progs s ! i = Some p\<close> show ?thesis
        using c_local [OF assms(2,3)] by (cases a) blast
    qed
  qed
qed

definition within_limit :: "nat \<Rightarrow> conc_state \<Rightarrow> bool" where
  "within_limit n s \<longleftrightarrow> conc_inv n s \<and> answers_counted s \<and> unfinished (lks s) \<le> n"

lemma serving_enabled:
  assumes "within_limit n s" "\<not> all_over (lks s)"
  shows "\<exists>s'. task_step E s s'"
proof -
  have dis: "disciplined s" and "work_inv n (lks s)"
    using assms(1) by (simp_all add: within_limit_def conc_inv_def work_inv_def)
  then obtain l where "work_step (lks s) l" using work_enabled assms(2) by blast
  then have "lock_step (lks s) l" "length (tasks l) = length (tasks (lks s))"
    by (simp_all add: work_step_def)
  then show ?thesis
  proof cases
    case (grant i op q)
    then show ?thesis using c_grant by blast
  next
    case (admit i d)
    then show ?thesis using c_admit by blast
  next
    case (request_guard i op rest)
    then show ?thesis by (intro running_enabled [OF dis, of i]) (simp_all add: running_def)
  next
    case (release_guard i op rest)
    then show ?thesis by (intro running_enabled [OF dis, of i]) (simp_all add: running_def)
  next
    case (complete i rest)
    then show ?thesis by (intro running_enabled [OF dis, of i]) (simp_all add: running_def)
  qed simp
qed

interpretation serve: terminating "task_step E" "within_limit n" conc_left "\<lambda>s. all_over (lks s)" for E n
proof unfold_locales
  fix s s'
  assume inv: "within_limit n s" and step: "task_step E s s'"
  then have parts: "conc_inv n s" "answers_counted s" "unfinished (lks s) \<le> n" "disciplined s"
    "queue_ok (tasks (lks s)) (waitq (lks s))"
    by (simp_all add: within_limit_def conc_inv_def lock_inv_def)
  have "conc_inv n s' \<and> answers_counted s'"
    using answering.kept [OF _ c_task [OF step]] parts(1,2) by blast
  moreover have "unfinished (lks s') \<le> n"
    using task_step_lock [OF step] unfinished_step [OF _ parts(5)] parts(3) by fastforce
  ultimately show "within_limit n s'" by (simp add: within_limit_def)
  show "conc_left s' < conc_left s" using conc_left_less [OF parts(4) step] .
next
  show "within_limit n s \<Longrightarrow> \<not> all_over (lks s) \<Longrightarrow> \<exists>s'. task_step E s s'" for s
    by (rule serving_enabled)
qed

lemma serving_start:
  assumes "(conc_step json_text uuid_text E)\<^sup>*\<^sup>* (conc_new n r) s" "unfinished (lks s) \<le> n"
  shows "within_limit n s"
proof -
  have "conc_inv n (conc_new n r) \<and> answers_counted (conc_new n r)"
    using conc_new_inv by (simp add: answers_counted_def conc_new_def lock_new_def)
  then show ?thesis using answering.kept_star [OF assms(1), of n] assms(2) by (simp add: within_limit_def)
qed

lemma all_answered:
  assumes "within_limit n s" "all_over (lks s)"
  shows "distinct (map fst (outs s))" "fst ` set (outs s) = {i. i < length (reqs s) \<and> reqs s ! i \<noteq> None}"
  using assms by (auto simp: within_limit_def answers_counted_def conc_inv_def disciplined_def all_over_def)

lemma task_steps_reqs: "(task_step E)\<^sup>*\<^sup>* s s' \<Longrightarrow> reqs s' = reqs s"
  by (induction rule: rtranclp_induct) (auto elim: task_stepE)

lemma one_request:
  obtains s where "conc_step json_text uuid_text E (conc_new 24 r) s" "reqs s = [d]" "unfinished (lks s) \<le> 24"
proof -
  let ?new = "conc_new 24 r"
  let ?l = "(lks ?new)\<lparr>waitq := waitq (lks ?new) @ [(length (tasks (lks ?new)), Shared)],
      tasks := tasks (lks ?new) @ [Entering d]\<rparr>"
  let ?s = "?new\<lparr>lks := ?l, reqs := reqs ?new @ [d],
      progs := progs ?new @ [map_option (method_prog json_text uuid_text) d]\<rparr>"
  have "conc_step json_text uuid_text E ?new ?s" by (rule c_arrive) simp
  moreover have "reqs ?s = [d]" "unfinished (lks ?s) \<le> 24"
    by (simp_all add: unfinished_def conc_new_def lock_new_def)
  ultimately show thesis by (rule that)
qed

text \<open>Run on, it is answered.\<close>

lemma one_request_answered:
  obtains s where "(conc_step json_text uuid_text E)\<^sup>*\<^sup>* (conc_new 24 r) s" "reqs s = [d]"
    "within_limit 24 s" "all_over (lks s)"
proof -
  let ?step = "conc_step json_text uuid_text E"
  obtain s where step: "?step (conc_new 24 r) s" and one: "reqs s = [d]" "unfinished (lks s) \<le> 24"
    by (rule one_request)
  from step have run: "?step\<^sup>*\<^sup>* (conc_new 24 r) s" by blast
  note start = serving_start [OF run one(2)]
  obtain s' where s': "(task_step E)\<^sup>*\<^sup>* s s'" "\<nexists>s''. task_step E s' s''"
    using serve.reaches_end [OF start] by blast
  have "?step\<^sup>*\<^sup>* s s'" using mono_rtranclp [of "task_step E" ?step] s'(1) c_task by blast
  with run have "?step\<^sup>*\<^sup>* (conc_new 24 r) s'" by (rule rtranclp_trans)
  moreover have "reqs s' = [d]" using task_steps_reqs [OF s'(1)] one(1) by simp
  moreover have "within_limit 24 s'" by (rule serve.kept_star [OF s'(1) start])
  moreover have "all_over (lks s')" by (rule serve.ends_final [OF s'(1) start s'(2)])
  ultimately show thesis by (rule that)
qed

text \<open>Below the limit every request is answered.  Whatever happened on a connection before and
  whatever the database answers, if at most \<open>n\<close> requests are in flight, the number of permits, then
  their tasks cannot run for ever, and however they are scheduled they stop only when every request
  that parsed has exactly one answer.\<close>

theorem requests_within_limit_answered:
  assumes "(conc_step json_text uuid_text E)\<^sup>*\<^sup>* (conc_new n r) s" "unfinished (lks s) \<le> n"
  shows "(\<forall>f. f 0 = s \<longrightarrow> (\<exists>k. \<not> task_step E (f k) (f (Suc k)))) \<and>
    (\<forall>s'. (task_step E)\<^sup>*\<^sup>* s s' \<and> (\<nexists>s''. task_step E s' s'') \<longrightarrow>
       distinct (map fst (outs s')) \<and> fst ` set (outs s') = {i. i < length (reqs s') \<and> reqs s' ! i \<noteq> None})"
proof -
  have start: "within_limit n s" using assms by (rule serving_start)
  have "distinct (map fst (outs s')) \<and> fst ` set (outs s') = {i. i < length (reqs s') \<and> reqs s' ! i \<noteq> None}"
    if "(task_step E)\<^sup>*\<^sup>* s s'" "\<nexists>s''. task_step E s' s''" for s'
    using all_answered [OF serve.kept_star [OF that(1) start] serve.ends_final [OF that(1) start that(2)]] by blast
  moreover have "\<exists>k. \<not> task_step E (f k) (f (Suc k))" if "f 0 = s" for f
    using serve.stops [of n f E] start that by simp
  ultimately show ?thesis by blast
qed

theorem requests_within_limit_answered_witness:
  "\<exists>s s'. conc_step (\<lambda>_. ''{}'') (\<lambda>_. '''') two_rows (conc_new 24 sample_conn) s \<and>
    reqs s = [Some (Transaction TxnCommit)] \<and> (task_step two_rows)\<^sup>*\<^sup>* s s' \<and> fst ` set (outs s') = {0}"
proof -
  obtain s where step: "conc_step (\<lambda>_. ''{}'') (\<lambda>_. '''') two_rows (conc_new 24 sample_conn) s"
    and one: "reqs s = [Some (Transaction TxnCommit)]" "unfinished (lks s) \<le> 24" by (rule one_request)
  from step have run: "(conc_step (\<lambda>_. ''{}'') (\<lambda>_. '''') two_rows)\<^sup>*\<^sup>* (conc_new 24 sample_conn) s" by blast
  obtain s' where s': "(task_step two_rows)\<^sup>*\<^sup>* s s'" "\<nexists>s''. task_step two_rows s' s''"
    using serve.reaches_end [OF serving_start [OF run one(2)]] by blast
  have "fst ` set (outs s') = {i. i < length (reqs s') \<and> reqs s' ! i \<noteq> None}"
    using requests_within_limit_answered [OF run one(2)] s' by blast
  then have "fst ` set (outs s') = {0}" using task_steps_reqs [OF s'(1)] one(1) by auto
  with step one(1) s'(1) show ?thesis by blast
qed

end
