(* ===== verification/Rpc_Ownership.thy ===== *)
theory Rpc_Ownership
  imports Rpc_Races
begin

text \<open>
  Who answers for an open transaction while many requests of a connection run.  \<open>owns\<close> is a linear
  typing of programs: a task draws a number, begins the transaction of that number on the session's
  database, calls only on it, and parts with it once, by ending it or by handing it to the session or
  to a spawned stream.  Every method is typed, a step keeps the types, and the books of the connection
  balance at every moment: the open transactions are those of the session, of the streams and of the
  tasks, each of them in one place.
\<close>

section \<open>The typing\<close>

text \<open>What a task has: nothing, a number nobody else has, an open transaction, or it is about to take
  the transaction of the session, which it has seen to be \<open>x\<close>.\<close>

datatype holding = Nothing | Numbered nat | Owning tx | Taking "tx option"

definition has_taken :: "tx option \<Rightarrow> holding" where
  "has_taken x = (case x of None \<Rightarrow> Nothing | Some t \<Rightarrow> Owning t)"

lemma has_taken_simps [simp]: "has_taken None = Nothing" "has_taken (Some t) = Owning t"
  by (simp_all add: has_taken_def)

definition settled :: "holding \<Rightarrow> bool" where
  "settled g \<longleftrightarrow> (case g of Taking x \<Rightarrow> False | _ \<Rightarrow> True)"

lemma settled_simps [simp]: "settled Nothing" "settled (Numbered n)" "settled (Owning t)" "\<not> settled (Taking x)"
  by (simp_all add: settled_def)

inductive owns :: "handle \<Rightarrow> prog \<Rightarrow> holding \<Rightarrow> bool" for h where
  own_finish: "owns h (Finish r) Nothing"
| own_number: "owns h (Fresh k) Nothing" if "\<And>n. owns h (k n) (Numbered n)"
| own_begin: "owns h (Ask (Begin (Tx h n)) k) (Numbered n)"
    if "\<And>e. owns h (k (Inl e)) Nothing" "\<And>rows. owns h (k (Inr rows)) (Owning (Tx h n))"
| own_use: "owns h (Ask c k) (Owning t)" if "on_tx t c" "\<And>a. owns h (k a) (Owning t)"
| own_end: "owns h (Ask c k) (Owning t)" if "c = Commit t \<or> c = Rollback t" "\<And>a. owns h (k a) Nothing"
| own_enter: "owns h (Enter op p) g" if "owns h p g" "settled g"
| own_leave: "owns h (Leave p) g" if "owns h p g" "settled g"
| own_look: "owns h (Look k) g" if "settled g" "\<And>s. session_db s = h \<Longrightarrow> owns h (k s) g"
| own_seen: "owns h (Look k) Nothing" if "\<And>s. session_db s = h \<Longrightarrow> owns h (k s) (Taking (sess_txn (sess s)))"
| own_take: "owns h (Edit (set_txn None) p) (Taking x)" if "owns h p (has_taken x)"
| own_drop: "owns h (Edit (drop_tx t) p) (Owning t)" if "owns h p Nothing"
| own_insert: "owns h (Edit (insert_txn t) p) (Owning t)" if "owns h p Nothing"
| own_spawn: "owns h (Edit (spawn_stream task) p) (Owning (st_txn task))" if "owns h p Nothing"
| own_claims: "owns h (Edit (set_claims c) p) g" if "owns h p g" "settled g"

inductive_cases owns_finishE: "owns h (Finish r) g"
inductive_cases owns_freshE: "owns h (Fresh k) g"
inductive_cases owns_askE: "owns h (Ask c k) g"
inductive_cases owns_enterE: "owns h (Enter op p) g"
inductive_cases owns_leaveE: "owns h (Leave p) g"
inductive_cases owns_lookE: "owns h (Look k) g"
inductive_cases owns_editE: "owns h (Edit f p) g"

section \<open>The methods are typed\<close>

lemma owns_failing: "owns h (failing t e) (Owning t)"
  by (simp add: failing_def own_drop own_finish)

lemma owns_begin_stmt:
  assumes "\<And>e. owns h (k (Inl e)) Nothing" "\<And>n. owns h (k (Inr (Tx h n))) (Owning (Tx h n))"
  shows "owns h (begin_stmt k) Nothing"
  unfolding begin_stmt_def db_stmt_def
  using assms by (intro own_enter own_look own_number) (auto intro!: own_begin own_leave)

lemma owns_read_stmt: "(\<And>x. owns h (k x) g) \<Longrightarrow> settled g \<Longrightarrow> owns h (read_stmt f k) g"
  by (simp add: read_stmt_def own_enter own_look own_leave)

lemma owns_use_stmt: "on_tx t c \<Longrightarrow> (\<And>a. owns h (k a) (Owning t)) \<Longrightarrow> owns h (db_stmt c k) (Owning t)"
  by (simp add: db_stmt_def own_use)

lemma owns_end_stmt:
  "c = Commit t \<or> c = Rollback t \<Longrightarrow> (\<And>a. owns h (k a) Nothing) \<Longrightarrow> owns h (db_stmt c k) (Owning t)"
  by (simp add: db_stmt_def own_end)

lemma owns_config_stmt:
  "(\<And>r. owns h (k r) (Owning t)) \<Longrightarrow> owns h (config_stmt json_text (OnTx t) cfg k) (Owning t)"
  by (simp add: config_stmt_def owns_use_stmt)

lemma owns_context_stmt:
  "(\<And>r. owns h (k r) (Owning t)) \<Longrightarrow> owns h (context_stmt json_text (OnTx t) s cfg k) (Owning t)"
  by (auto simp: context_stmt_def Let_def intro!: owns_use_stmt owns_config_stmt split: sum.split option.split)

lemma owns_login_stmt:
  "(\<And>r. owns h (k r) (Owning t)) \<Longrightarrow> owns h (login_stmt (OnTx t) u p k) (Owning t)"
  by (auto simp: login_stmt_def intro!: owns_use_stmt split: sum.split)

lemma owns_authenticate_stmt:
  "(\<And>r. owns h (k r) (Owning t)) \<Longrightarrow> owns h (authenticate_stmt (OnTx t) tok k) (Owning t)"
  by (auto simp: authenticate_stmt_def intro!: owns_use_stmt split: sum.split)

lemma owns_claims_stmt: "owns h p g \<Longrightarrow> settled g \<Longrightarrow> owns h (write_stmt (set_claims c) p) g"
  by (simp add: write_stmt_def own_enter own_claims own_leave)

lemma owns_insert_stmt: "owns h p Nothing \<Longrightarrow> owns h (write_stmt (insert_txn t) p) (Owning t)"
  by (simp add: write_stmt_def own_enter own_insert own_leave)

lemmas owns_stmts = owns_failing owns_begin_stmt owns_read_stmt owns_config_stmt owns_context_stmt
  owns_login_stmt owns_authenticate_stmt owns_claims_stmt owns_insert_stmt own_finish

lemma owns_query_prog: "owns h (query_prog json_text p) Nothing"
  unfolding query_prog_def
  by (auto intro!: owns_stmts own_enter own_look own_leave owns_use_stmt [where c = "Fetch _ _"]
      owns_end_stmt [where c = "Commit _"] split: sum.split)

lemma owns_login_prog: "owns h (login_prog json_text p) Nothing"
  unfolding login_prog_def
  by (auto intro!: owns_stmts owns_end_stmt [where c = "Commit _"] split: sum.split)

lemma owns_authenticate_prog: "owns h (authenticate_prog token) Nothing"
  unfolding authenticate_prog_def
  by (auto intro!: owns_stmts own_drop split: sum.split)

lemma owns_take_prog: "(\<And>t. c t = Commit t \<or> c t = Rollback t) \<Longrightarrow> owns h (take_prog c) Nothing"
  unfolding take_prog_def
  by (intro own_enter own_seen own_take)
    (auto simp: has_taken_def intro!: own_leave own_finish owns_end_stmt split: option.split)

lemma owns_stream_prog: "owns h (stream_prog uuid_text p) Nothing"
proof -
  have "owns h (Edit (spawn_stream \<lparr>st_stream = i, st_txn = t, st_stm = stm\<rparr>) (Finish r)) (Owning t)" for i t stm r
    using own_spawn [OF own_finish, of h "\<lparr>st_stream = i, st_txn = t, st_stm = stm\<rparr>" r] by simp
  then show ?thesis unfolding stream_prog_def by (auto intro!: owns_stmts split: sum.split)
qed

lemma method_owns: "owns h (method_prog json_text uuid_text d) Nothing"
proof (cases d)
  case (Transaction a)
  have "owns h (transaction_prog TxnBegin) Nothing"
    by (auto intro!: owns_stmts split: sum.split)
  with Transaction show ?thesis by (cases a) (auto intro: owns_take_prog)
qed (simp_all add: owns_query_prog owns_login_prog owns_authenticate_prog owns_stream_prog)

section \<open>The books\<close>

fun numbers_of :: "holding \<Rightarrow> nat set" where
  "numbers_of Nothing = {}"
| "numbers_of (Numbered n) = {n}"
| "numbers_of (Owning t) = {tx_no t}"
| "numbers_of (Taking x) = {}"

fun txs_of :: "holding \<Rightarrow> tx set" where
  "txs_of (Owning t) = {t}"
| "txs_of g = {}"

text \<open>The books seen from one task that has \<open>g\<close>: the others have the numbers \<open>N\<close> and the
  transactions \<open>T\<close>.\<close>

definition ledger :: "db_env \<Rightarrow> handle \<Rightarrow> nat set \<Rightarrow> tx set \<Rightarrow> holding \<Rightarrow> rpc \<Rightarrow> bool" where
  "ledger E h N T g r \<longleftrightarrow> session_db r = h \<and> (\<forall>c \<in> set (calls r). call_db c = h) \<and>
     live E (calls r) = set (owned_list r) \<union> txs_of g \<union> T \<and> distinct (map tx_no (owned_list r)) \<and>
     (\<forall>t \<in> set (owned_list r). tx_no t \<notin> numbers_of g \<and> tx_no t \<notin> N \<and> tx_no t < fresh r \<and> tx_db t = h) \<and>
     (\<forall>n \<in> numbers_of g. n \<notin> N \<and> n < fresh r) \<and> (\<forall>n \<in> N. n < fresh r) \<and>
     (\<forall>t \<in> txs_of g. tx_db t = h) \<and> (\<forall>t \<in> T. tx_no t \<in> N \<and> tx_db t = h)"

lemma owned_list_frame [simp]:
  "owned_list (s\<lparr>fresh := n\<rparr>) = owned_list s" "owned_list (s\<lparr>calls := cs\<rparr>) = owned_list s"
  "owned_list (drop_tx t s) = owned_list s" "owned_list (set_claims c s) = owned_list s"
  "set (owned_list (spawn_stream task s)) = insert (st_txn task) (set (owned_list s))"
  "owned_list (set_txn None s) = map st_txn (streams s)"
  by (auto simp: owned_list_def drop_tx_def set_claims_def spawn_stream_def set_txn_def)

lemma session_db_frame [simp]:
  "session_db (drop_tx t s) = session_db s" "session_db (set_claims c s) = session_db s"
  "session_db (spawn_stream task s) = session_db s" "session_db (set_txn x s) = session_db s"
  "session_db (s\<lparr>fresh := n\<rparr>) = session_db s" "session_db (s\<lparr>calls := cs\<rparr>) = session_db s"
  by (simp_all add: session_db_def drop_tx_def set_claims_def spawn_stream_def set_txn_def)

lemma ledger_number: "ledger E h N T Nothing r \<Longrightarrow> ledger E h N T (Numbered (fresh r)) (r\<lparr>fresh := Suc (fresh r)\<rparr>)"
  by (fastforce simp: ledger_def)

lemma ledger_begin:
  assumes "ledger E h N T (Numbered n) r"
  shows "E (calls r) (Begin (Tx h n)) = Inl e \<Longrightarrow> ledger E h N T Nothing (r\<lparr>calls := calls r @ [Begin (Tx h n)]\<rparr>)"
    "E (calls r) (Begin (Tx h n)) = Inr rows \<Longrightarrow>
       ledger E h N T (Owning (Tx h n)) (r\<lparr>calls := calls r @ [Begin (Tx h n)]\<rparr>)"
  using assms by (auto simp: ledger_def)

lemma ledger_use:
  "ledger E h N T (Owning t) r \<Longrightarrow> on_tx t c \<Longrightarrow> ledger E h N T (Owning t) (r\<lparr>calls := calls r @ [c]\<rparr>)"
  by (auto simp: ledger_def on_tx_db live_on_tx [of _ "[c]" for c, simplified])

lemma ledger_end:
  assumes "ledger E h N T (Owning t) r" "c = Commit t \<or> c = Rollback t \<or> c = Drop t"
  shows "ledger E h N T Nothing (r\<lparr>calls := calls r @ [c]\<rparr>)"
proof -
  have "live E (calls r @ [c]) = live E (calls r) - {t}" using assms(2) by auto
  moreover have "t \<notin> set (owned_list r) \<union> T" using assms(1) by (auto simp: ledger_def)
  ultimately have "live E (calls r @ [c]) = set (owned_list r) \<union> T"
    using assms(1) by (auto simp: ledger_def)
  moreover have "call_db c = h" using assms by (auto simp: ledger_def)
  ultimately show ?thesis using assms(1) by (auto simp: ledger_def)
qed

lemma ledger_drop: "ledger E h N T (Owning t) r \<Longrightarrow> ledger E h N T Nothing (drop_tx t r)"
  unfolding drop_tx_def by (rule ledger_end) simp_all

lemma ledger_take:
  assumes "ledger E h N T (Taking x) r" "sess_txn (sess r) = x"
  shows "ledger E h N T (has_taken x) (set_txn None r)"
proof -
  have r: "owned_list r = (case x of None \<Rightarrow> [] | Some t \<Rightarrow> [t]) @ map st_txn (streams r)"
    "calls (set_txn None r) = calls r" "fresh (set_txn None r) = fresh r"
    using assms(2) by (simp_all add: owned_list_def set_txn_def)
  with assms(1) show ?thesis
    by (cases x) (auto simp: ledger_def image_iff)
qed

lemma ledger_spawn:
  assumes "ledger E h N T (Owning (st_txn task)) r"
  shows "ledger E h N T Nothing (spawn_stream task r)"
proof -
  have "owned_list (spawn_stream task r) = owned_list r @ [st_txn task]"
    by (simp add: owned_list_def spawn_stream_def)
  moreover have "calls (spawn_stream task r) = calls r" "fresh (spawn_stream task r) = fresh r"
    by (simp_all add: spawn_stream_def)
  ultimately show ?thesis using assms by (auto simp: ledger_def)
qed

lemma ledger_insert:
  assumes "ledger E h N T (Owning t) r"
  shows "ledger E h N T Nothing (insert_txn t r)"
proof (cases "sess_txn (sess r)")
  case None
  then have "owned_list (set_txn (Some t) r) = t # owned_list r"
    by (simp add: owned_list_def set_txn_def)
  moreover have "calls (set_txn (Some t) r) = calls r" "fresh (set_txn (Some t) r) = fresh r"
    by (simp_all add: set_txn_def)
  ultimately show ?thesis using assms None by (auto simp: ledger_def insert_txn_def)
next
  case (Some old)
  let ?r = "set_txn (Some t) r"
  have r: "owned_list r = old # map st_txn (streams r)" "owned_list ?r = t # map st_txn (streams r)"
    "calls ?r = calls r" "fresh ?r = fresh r"
    using Some by (simp_all add: owned_list_def set_txn_def)
  have "ledger E h N T (Owning old) ?r"
    using assms r by (auto simp: ledger_def) (metis (mono_tags) image_eqI)
  then have "ledger E h N T Nothing (drop_tx old ?r)" by (rule ledger_drop)
  with Some show ?thesis by (simp add: insert_txn_def)
qed

lemma ledger_claims: "ledger E h N T g r \<Longrightarrow> ledger E h N T g (set_claims c r)"
proof -
  have "calls (set_claims c r) = calls r" "fresh (set_claims c r) = fresh r" by (simp_all add: set_claims_def)
  then show "ledger E h N T g r \<Longrightarrow> ?thesis" by (simp add: ledger_def)
qed

text \<open>A local step keeps the books and the type.\<close>

lemma ledger_step:
  assumes "ledger E h N T g r" "owns h p g" "local_step E p r = Some (p', r')"
    and "\<And>x. g = Taking x \<Longrightarrow> sess_txn (sess r) = x"
  shows "\<exists>g'. owns h p' g' \<and> ledger E h N T g' r' \<and> (\<forall>x. g' = Taking x \<longrightarrow> sess_txn (sess r') = x)"
  using assms(2)
proof cases
  case (own_number k)
  with assms(1,3) ledger_number show ?thesis by (intro exI [of _ "Numbered (fresh r)"]) auto
next
  case (own_begin k n)
  show ?thesis
  proof (cases "E (calls r) (Begin (Tx h n))")
    case (Inl e)
    with own_begin assms(1,3) ledger_begin(1) show ?thesis by (intro exI [of _ Nothing]) auto
  next
    case (Inr rows)
    with own_begin assms(1,3) ledger_begin(2) show ?thesis by (intro exI [of _ "Owning (Tx h n)"]) auto
  qed
next
  case (own_use c t k)
  with assms(1,3) ledger_use show ?thesis by (intro exI [of _ g]) auto
next
  case (own_end c t k)
  with assms(1,3) ledger_end show ?thesis by (intro exI [of _ Nothing]) auto
next
  case (own_look k)
  with assms(1,3,4) show ?thesis by (intro exI [of _ g]) (auto simp: ledger_def)
next
  case (own_seen k)
  with assms(1,3) show ?thesis
    by (intro exI [of _ "Taking (sess_txn (sess r))"]) (auto simp: ledger_def)
next
  case (own_take p x)
  with assms(1,3,4) ledger_take [of E h N T x r] show ?thesis by (intro exI [of _ "has_taken x"]) (cases x; auto)
next
  case (own_drop p t)
  with assms(1,3) ledger_drop show ?thesis by (intro exI [of _ Nothing]) auto
next
  case (own_insert p t)
  with assms(1,3) ledger_insert show ?thesis by (intro exI [of _ Nothing]) auto
next
  case (own_spawn p task)
  with assms(1,3) ledger_spawn show ?thesis by (intro exI [of _ Nothing]) auto
next
  case (own_claims p c)
  with assms(1,3,4) ledger_claims show ?thesis
    by (intro exI [of _ g]) (auto simp: set_claims_def)
qed (use assms(3) in simp_all)

lemma ledger_notify: "ledger E h N T g r \<Longrightarrow> ledger E h N T g (notify i d r)"
  by (simp add: ledger_def notify_def owned_list_def session_db_def)

lemma ledger_stream_rows: "ledger E h N T g r \<Longrightarrow> ledger E h N T g (stream_rows i rows r)"
  by (induction i rows r rule: stream_rows.induct) (simp_all add: ledger_notify)

lemma ledger_run_stream:
  assumes "ledger E h N T (Owning (st_txn task)) r"
  shows "ledger E h N T Nothing (snd (run_stream E task r))"
proof -
  have "ledger E h N T (Owning (st_txn task)) (r\<lparr>calls := calls r @ [Stream (st_txn task) (st_stm task)]\<rparr>)"
    using assms by (auto simp: ledger_def)
  then show ?thesis
    by (auto simp: run_stream_def intro!: ledger_drop ledger_notify ledger_stream_rows split: sum.split)
qed

lemma ledger_run_task:
  assumes "ledger E h N T Nothing r"
  shows "ledger E h N T Nothing (run_task E k r)"
proof (cases "k < length (streams r)")
  case True
  let ?r = "r\<lparr>streams := take k (streams r) @ drop (Suc k) (streams r)\<rparr>"
  have "map st_txn (streams r) =
      map st_txn (take k (streams r)) @ st_txn (streams r ! k) # map st_txn (drop (Suc k) (streams r))"
    by (subst id_take_nth_drop [OF True]) simp
  then have l: "\<exists>xs ys. owned_list r = xs @ st_txn (streams r ! k) # ys \<and> owned_list ?r = xs @ ys"
    by (intro exI [of _ "(case sess_txn (sess r) of None \<Rightarrow> [] | Some t \<Rightarrow> [t]) @ map st_txn (take k (streams r))"]
        exI [of _ "map st_txn (drop (Suc k) (streams r))"]) (simp add: owned_list_def)
  have "calls ?r = calls r" "fresh ?r = fresh r" "session_db ?r = session_db r"
    by (simp_all add: session_db_def)
  with l assms have "ledger E h N T (Owning (st_txn (streams r ! k))) ?r"
    by (auto simp: ledger_def) (metis image_eqI)+
  with True show ?thesis by (simp add: run_task_def ledger_run_stream)
qed (simp add: run_task_def assms)

section \<open>The books of all tasks\<close>

definition others :: "('g \<Rightarrow> 'a set) \<Rightarrow> 'g list \<Rightarrow> nat \<Rightarrow> 'a set" where
  "others f gs i = (\<Union>j \<in> {..<length gs} - {i}. f (gs ! j))"

definition everyone :: "('g \<Rightarrow> 'a set) \<Rightarrow> 'g list \<Rightarrow> 'a set" where
  "everyone f gs = (\<Union>g \<in> set gs. f g)"

lemma everyone_split: "i < length gs \<Longrightarrow> everyone f (gs[i := g]) = f g \<union> others f gs i"
  by (force simp: everyone_def others_def in_set_conv_nth nth_update_if split: if_splits)

lemma everyone_nth: "i < length gs \<Longrightarrow> everyone f gs = f (gs ! i) \<union> others f gs i"
  using everyone_split [of i gs f "gs ! i"] by simp

lemma everyone_append [simp]: "everyone f (gs @ [g]) = everyone f gs \<union> f g"
  by (auto simp: everyone_def)

definition apart :: "holding list \<Rightarrow> bool" where
  "apart gs \<longleftrightarrow> (\<forall>i < length gs. \<forall>j < length gs. i \<noteq> j \<longrightarrow> numbers_of (gs ! i) \<inter> numbers_of (gs ! j) = {})"

lemma apart_update:
  assumes "apart gs" "i < length gs" "numbers_of g \<inter> others numbers_of gs i = {}"
  shows "apart (gs[i := g])"
  using assms unfolding apart_def others_def by (auto simp: nth_update_if split: if_splits)

lemma owned_numbers: "t \<in> txs_of g \<Longrightarrow> tx_no t \<in> numbers_of g"
  by (cases g) auto

lemma others_numbers: "t \<in> others txs_of gs i \<Longrightarrow> tx_no t \<in> others numbers_of gs i"
  using owned_numbers by (fastforce simp: others_def)

definition books :: "db_env \<Rightarrow> handle \<Rightarrow> holding list \<Rightarrow> rpc \<Rightarrow> bool" where
  "books E h gs r \<longleftrightarrow> ledger E h (everyone numbers_of gs) (everyone txs_of gs) Nothing r \<and> apart gs"

lemma books_task:
  assumes "books E h gs r" "i < length gs"
  shows "ledger E h (others numbers_of gs i) (others txs_of gs i) (gs ! i) r"
proof -
  have "numbers_of (gs ! i) \<inter> others numbers_of gs i = {}"
    using assms by (auto simp: books_def apart_def others_def)
  with assms(1) everyone_nth [OF assms(2), of numbers_of] everyone_nth [OF assms(2), of txs_of] others_numbers
  show ?thesis by (auto simp: books_def ledger_def)
qed

lemma books_update:
  assumes "books E h gs r" "i < length gs" "ledger E h (others numbers_of gs i) (others txs_of gs i) g r'"
  shows "books E h (gs[i := g]) r'"
proof -
  have "apart (gs[i := g])"
    using assms by (intro apart_update) (auto simp: books_def ledger_def)
  moreover have "ledger E h (everyone numbers_of (gs[i := g])) (everyone txs_of (gs[i := g])) Nothing r'"
    using assms(3) owned_numbers unfolding everyone_split [OF assms(2)] by (auto simp: ledger_def)
  ultimately show ?thesis by (simp add: books_def)
qed

lemma books_arrive: "books E h gs r \<Longrightarrow> books E h (gs @ [Nothing]) r"
  by (auto simp: books_def apart_def nth_append less_Suc_eq)

section \<open>The books at every moment\<close>

lemma running_simps [simp]:
  "running (Between r)" "running (Guarding op r)" "\<not> running (Entering d)" "\<not> running (Admitting d)"
  "\<not> running (Waiting op r)" "\<not> running Over"
  by (simp_all add: running_def)

definition owned_state :: "db_env \<Rightarrow> handle \<Rightarrow> holding list \<Rightarrow> conc_state \<Rightarrow> bool" where
  "owned_state E h gs s \<longleftrightarrow> length gs = length (progs s) \<and> books E h gs (rpc_state s) \<and>
     (\<forall>i < length gs. (progs s ! i = None \<longrightarrow> gs ! i = Nothing) \<and> (\<forall>p. progs s ! i = Some p \<longrightarrow> owns h p (gs ! i)) \<and>
        (\<forall>x. gs ! i = Taking x \<longrightarrow> sess_txn (sess (rpc_state s)) = x \<and> running (tasks (lks s) ! i)) \<and>
        (tasks (lks s) ! i = Over \<longrightarrow> gs ! i = Nothing))"

lemma owned_stateD:
  assumes "owned_state E h gs s" "i < length (progs s)" "progs s ! i = Some p"
  shows "owns h p (gs ! i)" "i < length gs" "gs ! i = Taking x \<Longrightarrow> sess_txn (sess (rpc_state s)) = x"
  using assms by (simp_all add: owned_state_def)

text \<open>Who is about to take the session's transaction holds the exclusive guard.\<close>

lemma taking_guards:
  assumes "owned_state E h gs s" "disciplined s" "i < length gs" "gs ! i = Taking x"
  shows "\<exists>rest. tasks (lks s) ! i = Guarding Exclusive rest"
proof -
  obtain p where p: "progs s ! i = Some p" "owns h p (Taking x)"
    using assms(1,3,4) by (cases "progs s ! i") (auto simp: owned_state_def)
  then obtain q where q: "p = Edit (set_txn None) q" by (auto elim: owns.cases)
  have i: "i < length (tasks (lks s))" using assms(1-3) by (simp add: owned_state_def disciplined_def)
  have edits: "\<exists>r. sess (set_txn None r) \<noteq> sess r"
  proof -
    have "sess_txn (sess (set_txn None (set_txn (Some (Tx 0 0)) r))) \<noteq> sess_txn (sess (set_txn (Some (Tx 0 0)) r))" for r
      by (simp add: set_txn_def)
    then show ?thesis by metis
  qed
  have "g = Some Exclusive" if "keeps_to p g rest" for g rest
    using that edits unfolding q keeps_to_simps by blast
  moreover have "running (tasks (lks s) ! i)" using assms(1,3,4) by (simp add: owned_state_def)
  moreover have "task_ok (tasks (lks s) ! i) (Some p)" using disciplinedD(1) [OF assms(2) i] p(1) by simp
  ultimately show ?thesis by (cases "tasks (lks s) ! i") (fastforce simp: running_def)+
qed

lemma owned_same:
  assumes "owned_state E h gs s" "progs s' = progs s" "rpc_state s' = rpc_state s"
    and "\<And>i. i < length gs \<Longrightarrow> tasks (lks s') ! i = Over \<Longrightarrow> tasks (lks s) ! i = Over \<or> gs ! i = Nothing"
    and "\<And>i. i < length gs \<Longrightarrow> running (tasks (lks s) ! i) \<Longrightarrow> running (tasks (lks s') ! i) \<or> gs ! i = Nothing"
  shows "owned_state E h gs s'"
  using assms(1-3) assms(4,5) unfolding owned_state_def by (metis holding.distinct(5))

lemma owned_guard:
  assumes "owned_state E h gs s" "progs s ! i = Some p" "\<And>g. owns h p g \<Longrightarrow> owns h q g \<and> settled g"
    and "progs s' = (progs s)[i := Some q]" "rpc_state s' = rpc_state s"
    and "tasks (lks s') = (tasks (lks s))[i := t]" "t \<noteq> Over" "length (tasks (lks s)) = length (progs s)"
  shows "owned_state E h gs s'"
proof -
  have "settled (gs ! i)" if "i < length gs"
    using that assms(1-3) by (auto simp: owned_state_def)
  then have "gs ! i \<noteq> Taking x" if "i < length gs" for x using that by fastforce
  with assms show ?thesis by (auto simp: owned_state_def nth_update_if split: if_splits)
qed

lemma owns_enter_down: "owns h (Enter op p) g \<Longrightarrow> owns h p g \<and> settled g"
  and owns_leave_down: "owns h (Leave p) g \<Longrightarrow> owns h p g \<and> settled g"
  by (auto elim: owns_enterE owns_leaveE)

lemma granted_over: "granted t = Over \<longleftrightarrow> t = Over" "running t \<Longrightarrow> running (granted t)"
  by (cases t; simp add: running_def)+

text \<open>While another task is about to take it, a step does not change the session.\<close>

lemma taking_undisturbed:
  assumes "owned_state E h gs s" "conc_inv n s" "i < length gs" "running (tasks (lks s) ! i)" "progs s ! i = Some p0"
    and "local_step E p0 (rpc_state s) = Some (p, r)" "j < length gs" "j \<noteq> i" "gs ! j = Taking x"
  shows "sess r = sess (rpc_state s)"
proof (rule ccontr)
  assume changed: "sess r \<noteq> sess (rpc_state s)"
  have dis: "disciplined s" using assms(2) by (simp add: conc_inv_def)
  have len: "length (tasks (lks s)) = length gs" using dis assms(1) by (simp add: disciplined_def owned_state_def)
  then have i: "i < length (tasks (lks s))" using assms(3) by simp
  have "task_ok (tasks (lks s) ! i) (Some p0)" using disciplinedD(1) [OF dis i] assms(5) by simp
  with local_step_keeps(2) [OF assms(6) _ changed] assms(4)
  obtain rest where "tasks (lks s) ! i = Guarding Exclusive rest"
    by (cases "tasks (lks s) ! i") (fastforce simp: running_def)+
  moreover obtain rest' where "tasks (lks s) ! j = Guarding Exclusive rest'"
    using taking_guards [OF assms(1) dis assms(7,9)] by blast
  ultimately have "j = i" using exclusive_guard [OF assms(2) i] assms(7) len by (simp add: writes_def)
  with assms(8) show False ..
qed

lemma owned_local:
  assumes "owned_state E h gs s" "conc_inv n s" "i < length gs" "running (tasks (lks s) ! i)" "progs s ! i = Some p0"
    and "local_step E p0 (rpc_state s) = Some (p, r)"
    and "lks s' = lks s" "progs s' = (progs s)[i := Some p]" "rpc_state s' = r"
  shows "\<exists>gs'. owned_state E h gs' s'"
proof -
  have i: "i < length (progs s)" using assms(1,3) by (simp add: owned_state_def)
  note own = owned_stateD [OF assms(1) i assms(5)]
  obtain g where g: "owns h p g" "ledger E h (others numbers_of gs i) (others txs_of gs i) g r"
    "\<And>x. g = Taking x \<Longrightarrow> sess_txn (sess r) = x"
    using ledger_step [OF books_task [OF _ assms(3)] own(1) assms(6) own(3)] assms(1)
    by (auto simp: owned_state_def)
  have "sess_txn (sess r) = x" if "j < length gs" "j \<noteq> i" "gs ! j = Taking x" for j x
    using taking_undisturbed [OF assms(1-6) that] that(1,3) assms(1) by (simp add: owned_state_def)
  moreover have "tasks (lks s) ! i \<noteq> Over" using assms(4) by (auto simp: running_def)
  ultimately have "owned_state E h (gs[i := g]) s'"
    using g assms(1,4,7-9) assms(3) i books_update [OF _ assms(3) g(2)]
    by (auto simp: owned_state_def nth_update_if split: if_splits)
  then show ?thesis ..
qed

lemma owned_step:
  assumes "owned_state E h gs s" "conc_inv n s" "conc_step json_text uuid_text E s s'"
  shows "\<exists>gs'. owned_state E h gs' s'"
proof -
  have len: "length (progs s) = length (tasks (lks s))" "length gs = length (progs s)"
    using assms(1,2) by (simp_all add: conc_inv_def disciplined_def owned_state_def)
  from assms(3) show ?thesis
  proof cases
    case c_task
    then show ?thesis
    proof cases
      case (c_local i p0 p r)
      then show ?thesis using len by (intro owned_local [OF assms(1,2)]) simp_all
    next
      case (c_enter i op rest p)
      then have "owned_state E h gs s'"
        using len by (intro owned_guard [OF assms(1) c_enter(4) owns_enter_down, where t = "Waiting op rest"]) simp_all
      then show ?thesis ..
    next
      case (c_leave i op rest p)
      then have "owned_state E h gs s'"
        using len by (intro owned_guard [OF assms(1) c_leave(4) owns_leave_down, where t = "Between rest"]) simp_all
      then show ?thesis ..
    next
      case (c_grant i op q)
      with len show ?thesis
        by (intro exI [of _ gs] owned_same [OF assms(1)]) (auto simp: nth_update_if granted_over split: if_splits)
    next
      case (c_admit i d)
      with len show ?thesis
        by (intro exI [of _ gs] owned_same [OF assms(1)]) (auto simp: nth_update_if split: if_splits)
    next
      case (c_answer i rest r)
      then have "owns h (Finish r) (gs ! i)" using assms(1) len by (simp add: owned_state_def)
      then have "gs ! i = Nothing" by (auto elim: owns_finishE)
      with c_answer len show ?thesis
        by (intro exI [of _ gs] owned_same [OF assms(1)]) (auto simp: nth_update_if split: if_splits)
    next
      case (c_ignore i rest)
      then have "gs ! i = Nothing" using assms(1) len by (simp add: owned_state_def)
      with c_ignore len show ?thesis
        by (intro exI [of _ gs] owned_same [OF assms(1)]) (auto simp: nth_update_if split: if_splits)
    qed
  next
    case (c_arrive l d)
    with assms(1) len method_owns [of h] have "owned_state E h (gs @ [Nothing]) s'"
      by (auto simp: owned_state_def nth_append less_Suc_eq books_arrive)
    then show ?thesis ..
  next
    case (c_stream k)
    with assms(1) have "owned_state E h gs s'"
      by (auto simp: owned_state_def books_def ledger_run_task)
    then show ?thesis ..
  qed
qed

lemma owned_reach:
  assumes "(conc_step json_text uuid_text E)\<^sup>*\<^sup>* (conc_new n (connection_new i session cfg)) s"
    and "sess_txn session = None"
  shows "\<exists>gs. owned_state E (sess_db session) gs s"
proof -
  let ?s = "conc_new n (connection_new i session cfg)"
  have "books E (sess_db session) [] (connection_new i session cfg)"
    using assms(2)
    by (simp add: books_def ledger_def everyone_def apart_def connection_new_def owned_list_def session_db_def)
  then have "owned_state E (sess_db session) [] ?s" by (simp add: owned_state_def conc_new_def)
  with assms(1) have "conc_inv n s \<and> (\<exists>gs. owned_state E (sess_db session) gs s)"
  proof (induction rule: rtranclp_induct)
    case base
    then show ?case using conc_new_inv by blast
  next
    case (step s1 s2)
    then show ?case using conc.kept owned_step by blast
  qed
  then show ?thesis ..
qed

definition tx_held :: "holding \<Rightarrow> tx option" where
  "tx_held g = (case g of Owning t \<Rightarrow> Some t | _ \<Rightarrow> None)"

lemma tx_held_iff [simp]: "tx_held g = Some t \<longleftrightarrow> g = Owning t"
  and txs_of_iff: "t \<in> txs_of g \<longleftrightarrow> g = Owning t"
  by (cases g; auto simp: tx_held_def)+



text \<open>All calls of a connection go to its session's database, in every interleaving.\<close>

lemma concurrent_calls_own_db:
  assumes "(conc_step json_text uuid_text E)\<^sup>*\<^sup>* (conc_new n (connection_new i session cfg)) s"
    and "sess_txn session = None" "c \<in> set (calls (rpc_state s))"
  shows "call_db c = sess_db session"
  using owned_reach [OF assms(1,2)] assms(3) by (auto simp: owned_state_def books_def ledger_def)

end
