(* ===== verification/Rpc_Alone.thy ===== *)
theory Rpc_Alone
  imports Rpc_Programs Rpc_Safety
begin

text \<open>
  The stepwise methods and the methods of \<open>Connection\<close> are the same functions: run without
  interruption, a program computes what \<open>process_message\<close> computes.
\<close>

lemma run_db_stmt [simp]:
  "run_prog E (db_stmt c k) s =
     run_prog E (k (map_sum failure_of_db_err id (E (calls s) c))) (s\<lparr>calls := calls s @ [c]\<rparr>)"
  by (simp add: db_stmt_def)

lemma run_begin_stmt [simp]:
  "run_prog E (begin_stmt k) s =
     (case run_state (begin_session E) s of (r, s') \<Rightarrow> run_prog E (k r) s')"
  by (cases "E (calls s) (Begin (own_tx s))")
    (simp_all add: begin_stmt_def run_begin_session own_tx_def session_db_def)

lemma run_read_stmt [simp]: "run_prog E (read_stmt f k) s = run_prog E (k (f s)) s"
  by (simp add: read_stmt_def)

lemma run_write_stmt [simp]: "run_prog E (write_stmt f p) s = run_prog E p (f s)"
  by (simp add: write_stmt_def)

lemma run_failing [simp]: "run_prog E (failing t e) s = (Inl e, drop_tx t s)"
  by (simp add: failing_def)

lemma run_config_stmt [simp]:
  "run_prog E (config_stmt json_text conn cfg k) s =
     (case run_state (set_db_config json_text E conn cfg) s of (r, s') \<Rightarrow> run_prog E (k r) s')"
  by (cases "E (calls s) (Execute conn (set_config_stm (json_text (db_config_json cfg))))")
    (simp_all add: config_stmt_def set_db_config_def)

lemma run_context_stmt [simp]:
  "run_prog E (context_stmt json_text conn session cfg k) s =
     (case run_state (switch_auth_context json_text E conn session cfg) s of (r, s') \<Rightarrow> run_prog E (k r) s')"
proof (cases "auth_role session")
  case (Inl e)
  then show ?thesis by (simp add: context_stmt_def switch_auth_context_def)
next
  case role: (Inr role)
  show ?thesis
  proof (cases "sess_claims session")
    case None
    show ?thesis
      unfolding context_stmt_def switch_auth_context_def role None
      by (auto simp: Let_def split: prod.split sum.split)
  next
    case (Some claims)
    show ?thesis
      unfolding context_stmt_def switch_auth_context_def role Some
      by (cases "E (calls s) (Execute conn (claims_stm json_text claims))")
        (auto simp: Let_def split: prod.split sum.split)
  qed
qed

lemma run_login_stmt [simp]:
  "run_prog E (login_stmt conn username password k) s =
     (case run_state (login E conn username password) s of (r, s') \<Rightarrow> run_prog E (k r) s')"
  by (cases "E (calls s) (Fetch conn (from_string (login_sql username password)))")
    (simp_all add: login_stmt_def login_def fetch_one_def split: sum.split)

lemma run_authenticate_stmt [simp]:
  "run_prog E (authenticate_stmt conn token k) s =
     (case run_state (authenticate E conn token) s of (r, s') \<Rightarrow> run_prog E (k r) s')"
  by (cases "E (calls s) (Fetch conn (from_string (authenticate_sql token)))")
    (simp_all add: authenticate_stmt_def authenticate_def fetch_one_def split: sum.split)

lemma run_query_prog: "run_prog E (query_prog json_text p) s = run_state (query_rpc json_text E p) s"
  by (auto simp: query_prog_def query_rpc_def split: prod.split sum.split)

lemma run_login_prog: "run_prog E (login_prog json_text p) s = run_state (login_rpc json_text E p) s"
  by (auto simp: login_prog_def login_rpc_def split: prod.split sum.split)

lemma run_authenticate_prog: "run_prog E (authenticate_prog token) s = run_state (authenticate_rpc E token) s"
  by (auto simp: authenticate_prog_def authenticate_rpc_def split: prod.split sum.split)

lemma run_transaction_prog: "run_prog E (transaction_prog a) s = run_state (transaction E a) s"
  by (cases a) (auto simp: take_prog_def take_txn_def split: prod.split sum.split option.split)

lemma run_stream_prog: "run_prog E (stream_prog uuid_text p) s = run_state (query_stream_rpc uuid_text E p) s"
  by (auto simp: stream_prog_def query_stream_rpc_def split: prod.split sum.split)

lemma alone_is_process_message:
  "run_prog E (method_prog json_text uuid_text d) s = run_state (process_message json_text uuid_text E d) s"
  by (cases d) (simp_all add: run_query_prog run_login_prog run_authenticate_prog run_transaction_prog
      run_stream_prog)


end
