(* ===== verification/Rpc_In_Turn.thy ===== *)
theory Rpc_In_Turn
  imports Rpc_Alone Rpc_Races
begin

text \<open>
  Requests in turn.  When a connection serves one request after another, each answered before the next
  arrives, the interleaving of \<open>Rpc_Concurrent\<close> can do what the sequential connection of
  \<open>Connection\<close> does: the lock and the permits let a single task through, and its program runs to its
  end with nothing in between.  So what holds of every interleaving holds of the sequential runs.
\<close>

section \<open>A single task runs to its end\<close>

text \<open>The last task is at \<open>t\<close> with its program at \<open>p\<close>, every other is over, and nobody waits.\<close>

definition sole :: "lock_task \<Rightarrow> prog \<Rightarrow> conc_state \<Rightarrow> bool" where
  "sole t p s \<longleftrightarrow> (\<exists>ts ps. tasks (lks s) = ts @ [t] \<and> list_all ((=) Over) ts \<and> waitq (lks s) = [] \<and>
     progs s = ps @ [Some p] \<and> length ps = length ts)"

definition idle :: "conc_state \<Rightarrow> bool" where
  "idle s \<longleftrightarrow> all_over (lks s) \<and> waitq (lks s) = [] \<and> length (progs s) = length (tasks (lks s)) \<and>
     length (reqs s) = length (tasks (lks s))"

lemma over_no_guard [simp]: "list_all ((=) Over) ts \<Longrightarrow> \<not> list_ex writes ts \<and> \<not> list_ex reads ts"
  by (induction ts) (auto simp: writes_def reads_def)

lemma sole_local:
  assumes "sole t p s" "running t" "local_step E p (rpc_state s) = Some (q, r)"
  obtains s' where "task_step E s s'" "sole t q s'" "rpc_state s' = r" "lks s' = lks s" "outs s' = outs s"
    "reqs s' = reqs s"
proof -
  from assms(1) obtain ts ps where s: "tasks (lks s) = ts @ [t]" "list_all ((=) Over) ts" "waitq (lks s) = []"
    "progs s = ps @ [Some p]" "length ps = length ts" unfolding sole_def by blast
  let ?s' = "see r (s\<lparr>progs := (progs s)[length ts := Some q],
      made := made s @ map (Pair (length ts)) (new_calls (rpc_state s) r)\<rparr>)"
  have "progs s ! length ts = Some p" using s(4,5) by (metis nth_append_length)
  then have "task_step E s ?s'" using s(1) assms(2,3) by (intro c_local [of "length ts" s p]) simp_all
  moreover have "sole t q ?s'" using s by (auto simp: sole_def list_update_append)
  ultimately show thesis using that by simp
qed

lemma sole_enter:
  assumes "sole (Between (op # rest)) (Enter op p) s"
  obtains s' where "(task_step E)\<^sup>*\<^sup>* s s'" "sole (Guarding op rest) p s'" "rpc_state s' = rpc_state s"
    "outs s' = outs s" "reqs s' = reqs s" "length (tasks (lks s')) = length (tasks (lks s))"
    "free_permits (lks s') = free_permits (lks s)"
proof -
  from assms obtain ts ps where s: "tasks (lks s) = ts @ [Between (op # rest)]" "list_all ((=) Over) ts"
    "waitq (lks s) = []" "progs s = ps @ [Some (Enter op p)]" "length ps = length ts" unfolding sole_def by blast
  let ?i = "length ts"
  let ?w = "s\<lparr>lks := (lks s)\<lparr>waitq := waitq (lks s) @ [(?i, op)],
      tasks := (tasks (lks s))[?i := Waiting op rest]\<rparr>, progs := (progs s)[?i := Some p]\<rparr>"
  let ?g = "?w\<lparr>lks := (lks ?w)\<lparr>waitq := [], tasks := (tasks (lks ?w))[?i := granted (tasks (lks ?w) ! ?i)]\<rparr>\<rparr>"
  have "progs s ! ?i = Some (Enter op p)" using s(4,5) by (metis nth_append_length)
  then have "task_step E s ?w" using s(1) by (intro c_enter) simp_all
  moreover have "grantable op (tasks (lks ?w))"
    using s(1,2) by (cases op) (simp_all add: grantable_def writes_def reads_def)
  then have "task_step E ?w ?g" using s(3) by (intro c_grant [where op = op]) simp_all
  moreover have "sole (Guarding op rest) p ?g" using s by (auto simp: sole_def list_update_append)
  ultimately show thesis by (intro that [of ?g]) auto
qed

lemma sole_leave:
  assumes "sole (Guarding op rest) (Leave p) s"
  obtains s' where "task_step E s s'" "sole (Between rest) p s'" "rpc_state s' = rpc_state s"
    "outs s' = outs s" "reqs s' = reqs s" "length (tasks (lks s')) = length (tasks (lks s))"
    "free_permits (lks s') = free_permits (lks s)"
proof -
  from assms obtain ts ps where s: "tasks (lks s) = ts @ [Guarding op rest]" "list_all ((=) Over) ts"
    "waitq (lks s) = []" "progs s = ps @ [Some (Leave p)]" "length ps = length ts" unfolding sole_def by blast
  let ?i = "length ts"
  let ?s' = "s\<lparr>lks := (lks s)\<lparr>tasks := (tasks (lks s))[?i := Between rest]\<rparr>, progs := (progs s)[?i := Some p]\<rparr>"
  have "progs s ! ?i = Some (Leave p)" using s(4,5) by (metis nth_append_length)
  then have "task_step E s ?s'" using s(1) by (intro c_leave) simp_all
  moreover have "sole (Between rest) p ?s'" using s by (auto simp: sole_def list_update_append)
  ultimately show thesis by (intro that [of ?s']) auto
qed

lemma sole_finish:
  assumes "sole (Between rest) (Finish r) s" "length (reqs s) = length (tasks (lks s))"
  obtains s' where "task_step E s s'" "idle s'" "rpc_state s' = rpc_state s" "reqs s' = reqs s"
    "outs s' = outs s @ [(length (tasks (lks s)) - 1, r)]" "free_permits (lks s') = Suc (free_permits (lks s))"
proof -
  from assms(1) obtain ts ps where s: "tasks (lks s) = ts @ [Between rest]" "list_all ((=) Over) ts"
    "waitq (lks s) = []" "progs s = ps @ [Some (Finish r)]" "length ps = length ts" unfolding sole_def by blast
  let ?i = "length ts"
  let ?s' = "s\<lparr>lks := (lks s)\<lparr>free_permits := free_permits (lks s) + 1,
      tasks := (tasks (lks s))[?i := Over]\<rparr>, outs := outs s @ [(?i, r)]\<rparr>"
  have "progs s ! ?i = Some (Finish r)" using s(4,5) by (metis nth_append_length)
  then have "task_step E s ?s'" using s(1) by (intro c_answer) simp_all
  moreover have "idle ?s'" using s assms(2) by (auto simp: idle_def all_over_def list_all_iff)
  ultimately show thesis using s(1) by (intro that [of ?s']) auto
qed

text \<open>By induction on the program: it computes what \<open>run_prog\<close> computes.\<close>

fun at_guard :: "lock_op option \<Rightarrow> lock_op list \<Rightarrow> lock_task" where
  "at_guard None rest = Between rest"
| "at_guard (Some op) rest = Guarding op rest"

lemma running_at_guard [simp]: "running (at_guard g rest)"
  by (cases g) (simp_all add: running_def)

definition answers_to :: "db_env \<Rightarrow> prog \<Rightarrow> conc_state \<Rightarrow> conc_state \<Rightarrow> bool" where
  "answers_to E p s s' \<longleftrightarrow> idle s' \<and> rpc_state s' = snd (run_prog E p (rpc_state s)) \<and> reqs s' = reqs s \<and>
     outs s' = outs s @ [(length (tasks (lks s)) - 1, fst (run_prog E p (rpc_state s)))] \<and>
     free_permits (lks s') = Suc (free_permits (lks s))"

lemma local_run: "local_step E p s = Some (q, r) \<Longrightarrow> run_prog E p s = run_prog E q r"
  by (cases p) auto

lemma local_answers:
  assumes "sole (at_guard g rest) p s" "local_step E p (rpc_state s) = Some (q, r)" "keeps_to p g rest"
    and "length (reqs s) = length (tasks (lks s))"
    and IH: "\<And>s1. sole (at_guard g rest) q s1 \<Longrightarrow> keeps_to q g rest \<Longrightarrow>
      length (reqs s1) = length (tasks (lks s1)) \<Longrightarrow> \<exists>s'. (task_step E)\<^sup>*\<^sup>* s1 s' \<and> answers_to E q s1 s'"
  shows "\<exists>s'. (task_step E)\<^sup>*\<^sup>* s s' \<and> answers_to E p s s'"
proof -
  obtain s1 where s1: "task_step E s s1" "sole (at_guard g rest) q s1" "rpc_state s1 = r" "lks s1 = lks s"
    "outs s1 = outs s" "reqs s1 = reqs s"
    by (rule sole_local [OF assms(1) running_at_guard assms(2)])
  have "\<exists>s'. (task_step E)\<^sup>*\<^sup>* s1 s' \<and> answers_to E q s1 s'"
    using s1 local_step_keeps(1) [OF assms(2,3)] assms(4) by (intro IH) simp_all
  with s1 show ?thesis
    using local_run [OF assms(2)] unfolding answers_to_def by (metis converse_rtranclp_into_rtranclp)
qed

lemma program_runs:
  assumes "sole (at_guard g rest) p s" "keeps_to p g rest" "length (reqs s) = length (tasks (lks s))"
  shows "\<exists>s'. (task_step E)\<^sup>*\<^sup>* s s' \<and> answers_to E p s s'"
  using assms
proof (induction p arbitrary: g rest s)
  case (Finish r)
  then have "sole (Between rest) (Finish r) s" by (simp add: keeps_to_simps)
  from sole_finish [OF this Finish.prems(3)] show ?case
    unfolding answers_to_def by (metis fst_conv r_into_rtranclp run_prog.simps(1) snd_conv)
next
  case (Enter op p)
  then obtain rest' where rest: "g = None" "rest = op # rest'" "keeps_to p (Some op) rest'"
    by (auto simp: keeps_to_simps)
  with Enter.prems(1) have "sole (Between (op # rest')) (Enter op p) s" by simp
  then obtain s1 where s1: "(task_step E)\<^sup>*\<^sup>* s s1" "sole (Guarding op rest') p s1" "rpc_state s1 = rpc_state s"
    "outs s1 = outs s" "reqs s1 = reqs s" "length (tasks (lks s1)) = length (tasks (lks s))"
    "free_permits (lks s1) = free_permits (lks s)" by (rule sole_enter)
  have "\<exists>s'. (task_step E)\<^sup>*\<^sup>* s1 s' \<and> answers_to E p s1 s'"
    using s1(2,5,6) rest(3) Enter.prems(3) by (intro Enter.IH [of "Some op" rest']) simp_all
  with s1 show ?case unfolding answers_to_def by (metis rtranclp_trans run_prog.simps(4))
next
  case (Leave p)
  then obtain op where rest: "g = Some op" "keeps_to p None rest" by (auto simp: keeps_to_simps)
  with Leave.prems(1) have "sole (Guarding op rest) (Leave p) s" by simp
  then obtain s1 where s1: "task_step E s s1" "sole (Between rest) p s1" "rpc_state s1 = rpc_state s"
    "outs s1 = outs s" "reqs s1 = reqs s" "length (tasks (lks s1)) = length (tasks (lks s))"
    "free_permits (lks s1) = free_permits (lks s)" by (rule sole_leave)
  have "\<exists>s'. (task_step E)\<^sup>*\<^sup>* s1 s' \<and> answers_to E p s1 s'"
    using s1(2,5,6) rest(2) Leave.prems(3) by (intro Leave.IH [of None rest]) simp_all
  with s1 show ?case unfolding answers_to_def by (metis converse_rtranclp_into_rtranclp run_prog.simps(5))
next
  case (Fresh k)
  from Fresh.prems show ?case by (elim local_answers [OF _ local_step.simps(1)]) (auto intro: Fresh.IH)
next
  case (Ask c k)
  from Ask.prems show ?case by (elim local_answers [OF _ local_step.simps(2)]) (auto intro: Ask.IH)
next
  case (Look k)
  from Look.prems show ?case by (elim local_answers [OF _ local_step.simps(3)]) (auto intro: Look.IH)
next
  case (Edit f p)
  from Edit.prems show ?case by (elim local_answers [OF _ local_step.simps(4)]) (auto intro: Edit.IH)
qed

section \<open>One request after another\<close>

text \<open>A request that arrives at an idle connection is answered as \<open>process_message\<close> answers it, and
  the connection is idle again, with as many permits as before.\<close>

lemma request_served:
  assumes "idle s" "0 < free_permits (lks s)"
  obtains s' where "(conc_step json_text uuid_text E)\<^sup>*\<^sup>* s s'" "idle s'"
    "free_permits (lks s') = free_permits (lks s)" "reqs s' = reqs s @ [Some d]"
    "rpc_state s' = snd (run_state (process_message json_text uuid_text E d) (rpc_state s))"
    "outs s' = outs s @ [(length (reqs s), fst (run_state (process_message json_text uuid_text E d) (rpc_state s)))]"
proof -
  let ?step = "conc_step json_text uuid_text E" and ?i = "length (tasks (lks s))"
  let ?p = "method_prog json_text uuid_text d"
  let ?l = "(lks s)\<lparr>waitq := waitq (lks s) @ [(?i, Shared)], tasks := tasks (lks s) @ [Entering (Some d)]\<rparr>"
  let ?a = "s\<lparr>lks := ?l, reqs := reqs s @ [Some d], progs := progs s @ [map_option (method_prog json_text uuid_text) (Some d)]\<rparr>"
  let ?g = "?a\<lparr>lks := (lks ?a)\<lparr>waitq := [], tasks := (tasks (lks ?a))[?i := granted (tasks (lks ?a) ! ?i)]\<rparr>\<rparr>"
  let ?b = "?g\<lparr>lks := (lks ?g)\<lparr>free_permits := free_permits (lks ?g) - 1,
      tasks := (tasks (lks ?g))[?i := Between (script_of (Some d))]\<rparr>\<rparr>"
  have idle: "list_all ((=) Over) (tasks (lks s))" "waitq (lks s) = []" "length (progs s) = ?i" "length (reqs s) = ?i"
    using assms(1) by (auto simp: idle_def all_over_def list_all_iff)
  have "?step s ?a" by (rule c_arrive) simp
  moreover have "task_step E ?a ?g"
    using idle(1,2) by (intro c_grant [where op = Shared]) (simp_all add: grantable_def writes_def)
  moreover have "task_step E ?g ?b" using assms(2) by (intro c_admit [where d = "Some d"]) simp_all
  ultimately have run: "?step\<^sup>*\<^sup>* s ?b" by (meson c_task converse_rtranclp_into_rtranclp r_into_rtranclp)
  have "sole (at_guard None (lock_script d)) ?p ?b" using idle by (auto simp: sole_def script_of_def)
  then obtain s' where s': "(task_step E)\<^sup>*\<^sup>* ?b s'" "answers_to E ?p ?b s'"
    using program_runs [OF _ method_keeps] idle(4) by fastforce
  from s'(1) have "?step\<^sup>*\<^sup>* ?b s'" using mono_rtranclp [of "task_step E" ?step] c_task by blast
  with run have "?step\<^sup>*\<^sup>* s s'" by (rule rtranclp_trans)
  moreover have "run_prog E ?p = run_state (process_message json_text uuid_text E d)"
    by (rule ext) (rule alone_is_process_message)
  ultimately show thesis using that s'(2) assms(2) idle(4) by (simp add: answers_to_def)
qed

text \<open>What each request of a sequence is answered.\<close>

fun answers_in_turn ::
    "(json \<Rightarrow> string) \<Rightarrow> (uuid \<Rightarrow> string) \<Rightarrow> db_env \<Rightarrow> rpc_event list \<Rightarrow> rpc \<Rightarrow> (failure + json) list" where
  "answers_in_turn json_text uuid_text E [] r = []"
| "answers_in_turn json_text uuid_text E (ev # evs) r =
     (case ev of Incoming d \<Rightarrow> [fst (run_state (process_message json_text uuid_text E d) r)] | _ \<Rightarrow> []) @
     answers_in_turn json_text uuid_text E evs (rpc_event_step json_text uuid_text E ev r)"

fun asked :: "rpc_event list \<Rightarrow> request_data list" where
  "asked [] = []"
| "asked (Incoming d # evs) = d # asked evs"
| "asked (_ # evs) = asked evs"

lemma idle_new: "idle (conc_new n r)"
  by (simp add: idle_def conc_new_def lock_new_def all_over_def)

lemma events_served:
  assumes "idle s" "0 < free_permits (lks s)" "Closed \<notin> set evs"
  shows "\<exists>s'. (conc_step json_text uuid_text E)\<^sup>*\<^sup>* s s' \<and> idle s' \<and> reqs s' = reqs s @ map Some (asked evs) \<and>
    rpc_state s' = rpc_run json_text uuid_text E evs (rpc_state s) \<and>
    outs s' = outs s @ enumerate (length (reqs s)) (answers_in_turn json_text uuid_text E evs (rpc_state s))"
  using assms
proof (induction evs arbitrary: s)
  case Nil
  then show ?case by (auto simp: rpc_run_def)
next
  case (Cons ev evs)
  let ?step = "conc_step json_text uuid_text E"
  show ?case
  proof (cases ev)
    case (Incoming d)
    obtain s1 where s1: "?step\<^sup>*\<^sup>* s s1" "idle s1" "free_permits (lks s1) = free_permits (lks s)"
      "reqs s1 = reqs s @ [Some d]"
      "rpc_state s1 = snd (run_state (process_message json_text uuid_text E d) (rpc_state s))"
      "outs s1 = outs s @ [(length (reqs s), fst (run_state (process_message json_text uuid_text E d) (rpc_state s)))]"
      by (rule request_served [OF Cons.prems(1,2)])
    obtain s' where s': "?step\<^sup>*\<^sup>* s1 s'" "idle s'" "reqs s' = reqs s1 @ map Some (asked evs)"
      "rpc_state s' = rpc_run json_text uuid_text E evs (rpc_state s1)"
      "outs s' = outs s1 @ enumerate (length (reqs s1)) (answers_in_turn json_text uuid_text E evs (rpc_state s1))"
      using Cons.IH [of s1] Cons.prems s1(2,3) by auto
    from s1(1) s'(1) have "?step\<^sup>*\<^sup>* s s'" by (rule rtranclp_trans)
    with s1 s'(2-5) Incoming show ?thesis by (intro exI [of _ s']) (simp add: rpc_run_def)
  next
    case (StreamRuns k)
    let ?s1 = "see (run_task E k (rpc_state s)) s"
    have "?step s ?s1" by (rule c_stream)
    moreover have "idle ?s1" using Cons.prems(1) by (simp add: idle_def)
    then obtain s' where "?step\<^sup>*\<^sup>* ?s1 s'" "idle s'" "reqs s' = reqs s @ map Some (asked evs)"
      "rpc_state s' = rpc_run json_text uuid_text E evs (rpc_state ?s1)"
      "outs s' = outs s @ enumerate (length (reqs s)) (answers_in_turn json_text uuid_text E evs (rpc_state ?s1))"
      using Cons.IH [of ?s1] Cons.prems by auto
    ultimately show ?thesis using StreamRuns
      by (intro exI [of _ s']) (simp add: rpc_run_def converse_rtranclp_into_rtranclp)
  next
    case Closed
    with Cons.prems(3) show ?thesis by simp
  qed
qed

lemma run_in_turn:
  assumes "0 < n" and "Closed \<notin> set evs"
  obtains s where "(conc_step json_text uuid_text E)\<^sup>*\<^sup>* (conc_new n r) s" "idle s"
    "reqs s = map Some (asked evs)" "rpc_state s = rpc_run json_text uuid_text E evs r"
    "outs s = enumerate 0 (answers_in_turn json_text uuid_text E evs r)"
proof -
  have "0 < free_permits (lks (conc_new n r))" using assms(1) by (simp add: conc_new_def lock_new_def)
  from events_served [OF idle_new this assms(2), of json_text uuid_text E]
  obtain s where "(conc_step json_text uuid_text E)\<^sup>*\<^sup>* (conc_new n r) s" "idle s" "reqs s = map Some (asked evs)"
    "rpc_state s = rpc_run json_text uuid_text E evs r"
    "outs s = enumerate 0 (answers_in_turn json_text uuid_text E evs r)"
    by (auto simp: conc_new_def)
  then show thesis by (rule that)
qed

text \<open>C18: the sequential connection is one schedule of the concurrent one.  Any sequence of requests
  and of runs of stream tasks, on a connection with at least one permit, can be served in turn: some
  interleaving ends with every request answered, in order, with the answer \<open>process_message\<close> gives,
  and with the connection the sequential run leaves.  So what holds of every interleaving holds of the
  sequential runs.\<close>

theorem requests_in_turn_are_sequential:
  assumes "0 < n" and "Closed \<notin> set evs"
  shows "\<exists>s. (conc_step json_text uuid_text E)\<^sup>*\<^sup>* (conc_new n r) s \<and> all_over (lks s) \<and>
    reqs s = map Some (asked evs) \<and> rpc_state s = rpc_run json_text uuid_text E evs r \<and>
    outs s = enumerate 0 (answers_in_turn json_text uuid_text E evs r)"
  by (rule run_in_turn [OF assms, of json_text uuid_text E r]) (auto simp: idle_def)

theorem requests_in_turn_are_sequential_witness:
  "\<exists>s. (conc_step (\<lambda>_. ''{}'') (\<lambda>_. ''9'') grants_admin)\<^sup>*\<^sup>* (conc_new 1 sample_conn) s \<and>
    outs s = [(0, Inr (JObj [(''role'', JStr ''admin'')])), (1, Inr JNull)]"
proof -
  let ?evs = "[Incoming (Authenticate ''tok''), StreamRuns 0, Incoming (Transaction TxnRollback)]"
  have "answers_in_turn (\<lambda>_. ''{}'') (\<lambda>_. ''9'') grants_admin ?evs sample_conn =
      [Inr (JObj [(''role'', JStr ''admin'')]), Inr JNull]"
    by (simp add: authenticate_rpc_run run_authenticate claims_eval run_task_def take_txn_def session_new_def)
  with requests_in_turn_are_sequential [of 1 ?evs "\<lambda>_. ''{}''" "\<lambda>_. ''9''" grants_admin sample_conn]
  show ?thesis by auto
qed

end
