(* ===== verification/Rpc_Claims.thy ===== *)
theory Rpc_Claims
  imports Rpc_Ownership Rpc_In_Turn
begin

text \<open>
  Where the claims of a session come from while many requests of a connection run.  A program is typed
  with the claims the database has vouched for in its own answers; it may store no others.
\<close>

section \<open>What an answer vouches for\<close>

text \<open>The claims that the answer \<open>a\<close> to a call of the request \<open>d\<close> gives: that of
  \<open>authenticate\<close> with the request's token, the member \<open>claims\<close> of that of \<open>login\<close> with its
  user name and password.\<close>

definition vouched :: "request_data \<Rightarrow> db_call \<Rightarrow> string + db_row list \<Rightarrow> json set" where
  "vouched d q a = {c.
     (\<exists>token t rows. d = Authenticate token \<and> q = Fetch (OnTx t) (from_string (authenticate_sql token)) \<and>
        a = Inr rows \<and> grants rows c) \<or>
     (\<exists>p t rows out. d = Login p \<and>
        q = Fetch (OnTx t) (from_string (login_sql (lp_username p) (lp_password p))) \<and>
        a = Inr rows \<and> logs_in rows out \<and> json_get out ''claims'' = Some c)}"

inductive stores_only :: "request_data \<Rightarrow> json set \<Rightarrow> prog \<Rightarrow> bool" for d where
  st_finish: "stores_only d V (Finish r)"
| st_fresh: "stores_only d V (Fresh k)" if "\<And>n. stores_only d V (k n)"
| st_ask: "stores_only d V (Ask c k)" if "\<And>a. stores_only d (V \<union> vouched d c a) (k a)"
| st_enter: "stores_only d V (Enter op p)" if "stores_only d V p"
| st_leave: "stores_only d V (Leave p)" if "stores_only d V p"
| st_look: "stores_only d V (Look k)" if "\<And>s. stores_only d V (k s)"
| st_edit: "stores_only d V (Edit f p)"
    if "\<And>s. sess_claims (sess (f s)) = sess_claims (sess s) \<and> prefix (calls s) (calls (f s))" "stores_only d V p"
| st_claims: "stores_only d V (Edit (set_claims (Some c)) p)" if "c \<in> V" "stores_only d V p"

inductive_cases stores_askE: "stores_only d V (Ask c k)"
inductive_cases stores_freshE: "stores_only d V (Fresh k)"
inductive_cases stores_enterE: "stores_only d V (Enter op p)"
inductive_cases stores_leaveE: "stores_only d V (Leave p)"
inductive_cases stores_lookE: "stores_only d V (Look k)"
inductive_cases stores_editE: "stores_only d V (Edit f p)"

lemma stores_mono: "stores_only d V p \<Longrightarrow> V \<subseteq> W \<Longrightarrow> stores_only d W p"
proof (induction arbitrary: W rule: stores_only.induct)
  case (st_ask V c k)
  then show ?case by (intro stores_only.st_ask) (metis Un_mono order_refl)
qed (auto intro: stores_only.intros)

lemma stores_edits:
  "stores_only d V p \<Longrightarrow> stores_only d V (Edit (drop_tx t) p)"
  "stores_only d V p \<Longrightarrow> stores_only d V (Edit (set_txn x) p)"
  "stores_only d V p \<Longrightarrow> stores_only d V (Edit (insert_txn t) p)"
  "stores_only d V p \<Longrightarrow> stores_only d V (Edit (spawn_stream task) p)"
  by (rule st_edit; simp add: drop_tx_def set_txn_def insert_txn_def spawn_stream_def split: option.split)+

lemma stores_failing: "stores_only d V (failing t e)"
  by (simp add: failing_def stores_edits st_finish)

lemma stores_db_stmt: "(\<And>a. stores_only d V (k a)) \<Longrightarrow> stores_only d V (db_stmt c k)"
  unfolding db_stmt_def by (rule st_ask) (auto intro: stores_mono)

lemma stores_begin_stmt: "(\<And>r. stores_only d V (k r)) \<Longrightarrow> stores_only d V (begin_stmt k)"
  by (simp add: begin_stmt_def st_enter st_look st_fresh stores_db_stmt st_leave)

lemma stores_read_stmt: "(\<And>x. stores_only d V (k x)) \<Longrightarrow> stores_only d V (read_stmt f k)"
  by (simp add: read_stmt_def st_enter st_look st_leave)

lemma stores_config_stmt: "(\<And>r. stores_only d V (k r)) \<Longrightarrow> stores_only d V (config_stmt json_text conn cfg k)"
  by (simp add: config_stmt_def stores_db_stmt)

lemma stores_context_stmt: "(\<And>r. stores_only d V (k r)) \<Longrightarrow> stores_only d V (context_stmt json_text conn s cfg k)"
  by (auto simp: context_stmt_def Let_def intro!: stores_db_stmt stores_config_stmt split: sum.split option.split)

lemma stores_claims_stmt: "c \<in> V \<Longrightarrow> stores_only d V p \<Longrightarrow> stores_only d V (write_stmt (set_claims (Some c)) p)"
  by (simp add: write_stmt_def st_enter st_claims st_leave)

lemma stores_insert_stmt: "stores_only d V p \<Longrightarrow> stores_only d V (write_stmt (insert_txn t) p)"
  by (simp add: write_stmt_def st_enter stores_edits st_leave)

lemmas stores_stmts = st_finish stores_failing stores_db_stmt stores_begin_stmt stores_read_stmt
  stores_config_stmt stores_context_stmt stores_insert_stmt st_enter st_leave st_look stores_edits

text \<open>What \<open>login\<close> and \<open>authenticate\<close> return is vouched for.\<close>

lemma stores_login_stmt:
  assumes err: "\<And>e. stores_only (Login p) V (k (Inl e))"
    and out: "\<And>out. stores_only (Login p) (V \<union> {c. json_get out ''claims'' = Some c}) (k (Inr out))"
  shows "stores_only (Login p) V (login_stmt (OnTx t) (lp_username p) (lp_password p) k)"
proof -
  let ?q = "Fetch (OnTx t) (from_string (login_sql (lp_username p) (lp_password p)))"
  have more_err: "stores_only (Login p) (V \<union> W) (k (Inl e))" for e W
    using stores_mono [OF err] by blast
  have row: "stores_only (Login p) (V \<union> vouched (Login p) ?q (Inr (Row v # rest))) (k (Inr o1))"
    if "json_get v ''login'' = Some o1" for v rest o1
    by (rule stores_mono [OF out]) (use that in \<open>auto simp: vouched_def logs_in_def\<close>)
  show ?thesis
    unfolding login_stmt_def db_stmt_def
    by (rule st_ask)
      (auto simp: first_row_def of_option_def more_err row split: sum.split option.split list.split db_row.split)
qed

lemma stores_authenticate_stmt:
  assumes err: "\<And>e. stores_only (Authenticate token) V (k (Inl e))"
    and out: "\<And>out. stores_only (Authenticate token) (insert out V) (k (Inr out))"
  shows "stores_only (Authenticate token) V (authenticate_stmt (OnTx t) token k)"
proof -
  let ?q = "Fetch (OnTx t) (from_string (authenticate_sql token))"
  have more_err: "stores_only (Authenticate token) (V \<union> W) (k (Inl e))" for e W
    using stores_mono [OF err] by blast
  have row: "stores_only (Authenticate token) (V \<union> vouched (Authenticate token) ?q (Inr (Row v # rest))) (k (Inr o1))"
    if "json_get v ''authenticate'' = Some o1" for v rest o1
    by (rule stores_mono [OF out]) (use that in \<open>auto simp: vouched_def grants_def\<close>)
  show ?thesis
    unfolding authenticate_stmt_def db_stmt_def
    by (rule st_ask)
      (auto simp: first_row_def of_option_def more_err row split: sum.split option.split list.split db_row.split)
qed

lemma method_stores: "stores_only d {} (method_prog json_text uuid_text d)"
proof (cases d)
  case (Query p)
  then show ?thesis by (auto simp: query_prog_def intro!: stores_stmts split: sum.split)
next
  case (Login p)
  then show ?thesis
    by (auto simp: login_prog_def of_option_def intro!: stores_stmts stores_login_stmt stores_claims_stmt split: sum.split option.split)
next
  case (Authenticate token)
  then show ?thesis
    by (auto simp: authenticate_prog_def intro!: stores_stmts stores_authenticate_stmt stores_claims_stmt split: sum.split)
next
  case (Transaction a)
  then show ?thesis
    by (cases a) (auto simp: take_prog_def intro!: stores_stmts split: sum.split option.split)
next
  case (QueryStream p)
  then show ?thesis by (auto simp: stream_prog_def intro!: stores_stmts split: sum.split)
qed

section \<open>On record\<close>

text \<open>A call that was made for one of the requests \<open>ds\<close> was answered with these claims.\<close>

definition on_record :: "db_env \<Rightarrow> request_data set \<Rightarrow> db_call list \<Rightarrow> json \<Rightarrow> bool" where
  "on_record E ds cs c \<longleftrightarrow> (\<exists>d \<in> ds. \<exists>as q bs. cs = as @ q # bs \<and> c \<in> vouched d q (E as q))"

lemma on_record_mono: "on_record E ds cs c \<Longrightarrow> ds \<subseteq> ds' \<Longrightarrow> prefix cs cs' \<Longrightarrow> on_record E ds' cs' c"
  unfolding on_record_def prefix_def by fastforce

lemma on_record_now: "d \<in> ds \<Longrightarrow> c \<in> vouched d q (E cs q) \<Longrightarrow> on_record E ds (cs @ [q]) c"
  unfolding on_record_def by blast

lemma stores_step:
  assumes "stores_only d V p" "local_step E p r = Some (p', r')" "d \<in> ds" "\<forall>c \<in> V. on_record E ds (calls r) c"
  shows "\<exists>V'. stores_only d V' p' \<and> (\<forall>c \<in> V'. on_record E ds (calls r') c)" "prefix (calls r) (calls r')"
    "sess_claims (sess r') = sess_claims (sess r) \<or> (\<exists>c. sess_claims (sess r') = Some c \<and> on_record E ds (calls r) c)"
proof -
  have "(\<exists>V'. stores_only d V' p' \<and> (\<forall>c \<in> V'. on_record E ds (calls r') c)) \<and> prefix (calls r) (calls r') \<and>
    (sess_claims (sess r') = sess_claims (sess r) \<or> (\<exists>c. sess_claims (sess r') = Some c \<and> on_record E ds (calls r) c))"
    using assms(1)
  proof cases
    case (st_ask c k)
    have "on_record E ds (calls r @ [c]) x" if "x \<in> V \<union> vouched d c (E (calls r) c)" for x
      using that assms(3,4) on_record_now on_record_mono [of E ds "calls r" x ds "calls r @ [c]"] by auto
    with st_ask assms(2) show ?thesis
      by (auto intro!: exI [of _ "V \<union> vouched d c (E (calls r) c)"])
  next
    case (st_edit f q)
    with assms(2,4) on_record_mono [OF _ order_refl] show ?thesis by (auto intro!: exI [of _ V])
  next
    case (st_claims c q)
    with assms(2,4) show ?thesis by (auto simp: set_claims_def intro!: exI [of _ V])
  qed (use assms(2,4) in \<open>auto intro!: exI [of _ V]\<close>)
  then show "\<exists>V'. stores_only d V' p' \<and> (\<forall>c \<in> V'. on_record E ds (calls r') c)" "prefix (calls r) (calls r')"
    "sess_claims (sess r') = sess_claims (sess r) \<or> (\<exists>c. sess_claims (sess r') = Some c \<and> on_record E ds (calls r) c)"
    by blast+
qed

lemma run_task_calls: "prefix (calls r) (calls (run_task E k r))"
proof -
  have "calls (stream_rows i rows s) = calls s" for i rows s
    by (induction i rows s rule: stream_rows.induct) (simp_all add: notify_def)
  then show ?thesis
    by (auto simp: run_task_def run_stream_def drop_tx_def notify_def prefix_def split: sum.split prod.split)
qed

section \<open>The claims at every moment\<close>

definition requested :: "conc_state \<Rightarrow> request_data set" where
  "requested s = {d. Some d \<in> set (reqs s)}"

definition claims_state :: "db_env \<Rightarrow> json option \<Rightarrow> conc_state \<Rightarrow> bool" where
  "claims_state E c0 s \<longleftrightarrow> length (progs s) = length (reqs s) \<and>
     (\<forall>c. sess_claims (sess (rpc_state s)) = Some c \<longrightarrow> c0 = Some c \<or> on_record E (requested s) (calls (rpc_state s)) c) \<and>
     (\<forall>i < length (reqs s). \<forall>p. progs s ! i = Some p \<longrightarrow> (\<exists>d V. reqs s ! i = Some d \<and> stores_only d V p \<and>
        (\<forall>c \<in> V. on_record E (requested s) (calls (rpc_state s)) c)))"

lemma claims_same:
  assumes "claims_state E c0 s" "progs s' = progs s" "reqs s' = reqs s" "requested s \<subseteq> requested s'"
    and "prefix (calls (rpc_state s)) (calls (rpc_state s'))"
    and "sess_claims (sess (rpc_state s')) = sess_claims (sess (rpc_state s))"
  shows "claims_state E c0 s'"
  using assms(1-3,6) on_record_mono [OF _ assms(4,5)] unfolding claims_state_def by metis

lemma claims_prog:
  assumes "claims_state E c0 s" "i < length (reqs s)" "reqs s ! i = Some d" "stores_only d V q"
    and "\<forall>c \<in> V. on_record E (requested s) (calls (rpc_state s')) c"
    and "progs s' = (progs s)[i := Some q]" "reqs s' = reqs s"
    and "prefix (calls (rpc_state s)) (calls (rpc_state s'))"
    and "\<forall>c. sess_claims (sess (rpc_state s')) = Some c \<longrightarrow>
      c0 = Some c \<or> on_record E (requested s) (calls (rpc_state s')) c"
  shows "claims_state E c0 s'"
proof -
  have same: "requested s' = requested s" using assms(7) by (simp add: requested_def)
  have "\<exists>d V. reqs s ! k = Some d \<and> stores_only d V p \<and> (\<forall>c \<in> V. on_record E (requested s) (calls (rpc_state s')) c)"
    if "k < length (reqs s)" "progs s' ! k = Some p" for k p
  proof (cases "k = i")
    case True
    with that assms(1-6) show ?thesis by (auto simp: claims_state_def)
  next
    case False
    with that assms(1,6) on_record_mono [OF _ order_refl assms(8)] show ?thesis
      unfolding claims_state_def by (metis nth_list_update_neq)
  qed
  with assms(1,6,7,9) same show ?thesis by (simp add: claims_state_def)
qed

lemma claims_progD:
  assumes "claims_state E c0 s" "i < length (reqs s)" "progs s ! i = Some p"
  obtains d V where "reqs s ! i = Some d" "d \<in> requested s" "stores_only d V p"
    "\<forall>c \<in> V. on_record E (requested s) (calls (rpc_state s)) c"
proof -
  from assms obtain d V where d: "reqs s ! i = Some d" "stores_only d V p"
    "\<forall>c \<in> V. on_record E (requested s) (calls (rpc_state s)) c" unfolding claims_state_def by blast
  with assms(2) have "d \<in> requested s" unfolding requested_def by (metis mem_Collect_eq nth_mem)
  with d show thesis using that by blast
qed

lemma claims_guard:
  assumes "claims_state E c0 s" "i < length (reqs s)" "progs s ! i = Some p" "\<exists>op. p = Enter op q \<or> p = Leave q"
    and "progs s' = (progs s)[i := Some q]" "reqs s' = reqs s" "rpc_state s' = rpc_state s"
  shows "claims_state E c0 s'"
proof -
  obtain d V where d: "reqs s ! i = Some d" "stores_only d V p"
    "\<forall>c \<in> V. on_record E (requested s) (calls (rpc_state s)) c"
    using claims_progD [OF assms(1-3)] by blast
  then have "stores_only d V q" using assms(4) by (auto elim: stores_enterE stores_leaveE)
  with d assms(1,2,5-7) show ?thesis
    by (intro claims_prog [OF assms(1,2), where d = d and V = V and q = q]) (auto simp: claims_state_def)
qed

lemma claims_arrive:
  assumes "claims_state E c0 s" "rpc_state s' = rpc_state s" "reqs s' = reqs s @ [d]"
    and "progs s' = progs s @ [map_option (method_prog json_text uuid_text) d]"
  shows "claims_state E c0 s'"
proof -
  let ?r = "rpc_state s"
  note same = assms(2-4)
  have len': "length (progs s) = length (reqs s)" using assms(1) by (simp add: claims_state_def)
  have "requested s \<subseteq> requested s'" using same(2) by (auto simp: requested_def)
  then have more: "on_record E (requested s') (calls ?r) c" if "on_record E (requested s) (calls ?r) c" for c
    using on_record_mono [OF that] by simp
  have "\<exists>e V. reqs s' ! i = Some e \<and> stores_only e V p \<and> (\<forall>c \<in> V. on_record E (requested s') (calls ?r) c)"
    if i: "i < length (reqs s')" "progs s' ! i = Some p" for i p
  proof (cases "i = length (reqs s)")
    case True
    then have "progs s' ! i = map_option (method_prog json_text uuid_text) d"
      using same(3) len' by (metis nth_append_length)
    with i(2) obtain e where "d = Some e" "p = method_prog json_text uuid_text e" by auto
    with True same(2) method_stores show ?thesis by (intro exI [of _ e] exI [of _ "{}"]) simp
  next
    case False
    with i same(2,3) len' have "i < length (reqs s)" "progs s ! i = Some p" "reqs s' ! i = reqs s ! i"
      by (simp_all add: nth_append)
    with claims_progD [OF assms(1)] more show ?thesis by metis
  qed
  moreover have "c0 = Some c \<or> on_record E (requested s') (calls ?r) c" if "sess_claims (sess ?r) = Some c" for c
    using that assms(1) more unfolding claims_state_def by metis
  ultimately show ?thesis using same len' by (simp add: claims_state_def)
qed

lemma claims_step:
  assumes "claims_state E c0 s" "disciplined s" "conc_step json_text uuid_text E s s'"
  shows "claims_state E c0 s'"
proof -
  have len: "length (tasks (lks s)) = length (reqs s)" using assms(2) by (simp add: disciplined_def)
  from assms(3) show ?thesis
  proof cases
    case c_task
    then show ?thesis
    proof cases
      case (c_local i p0 p r)
      have i: "i < length (reqs s)" using c_local(2) len by simp
      obtain d V where d: "reqs s ! i = Some d" "d \<in> requested s" "stores_only d V p0"
        "\<forall>c \<in> V. on_record E (requested s) (calls (rpc_state s)) c"
        using claims_progD [OF assms(1) i c_local(4)] by blast
      note step = stores_step [OF d(3) c_local(5) d(2,4)]
      obtain V' where V': "stores_only d V' p" "\<forall>c \<in> V'. on_record E (requested s) (calls r) c"
        using step(1) by blast
      have "c0 = Some c \<or> on_record E (requested s) (calls r) c" if "sess_claims (sess r) = Some c" for c
      proof -
        have "c0 = Some c \<or> on_record E (requested s) (calls (rpc_state s)) c"
          using step(3) that assms(1) unfolding claims_state_def by (metis option.inject)
        then show ?thesis using on_record_mono [OF _ order_refl step(2)] by blast
      qed
      with c_local(1) d(1) V' step(2) show ?thesis
        by (intro claims_prog [OF assms(1) i, where d = d and V = V' and q = p]) simp_all
    next
      case (c_enter i op rest p)
      with len show ?thesis by (intro claims_guard [OF assms(1) _ c_enter(4)]) auto
    next
      case (c_leave i op rest p)
      with len show ?thesis by (intro claims_guard [OF assms(1) _ c_leave(4)]) auto
    qed (rule claims_same [OF assms(1)]; simp add: requested_def)+
  next
    case (c_arrive l d)
    then show ?thesis by (intro claims_arrive [OF assms(1), where d = d]) simp_all
  next
    case (c_stream k)
    then show ?thesis by (intro claims_same [OF assms(1)]) (simp_all add: requested_def run_task_calls)
  qed
qed

interpretation claims: invariant "conc_step json_text uuid_text E" "\<lambda>s. conc_inv n s \<and> claims_state E c0 s"
  for json_text uuid_text E n c0
proof unfold_locales
  fix s s'
  assume "conc_inv n s \<and> claims_state E c0 s" "conc_step json_text uuid_text E s s'"
  then show "conc_inv n s' \<and> claims_state E c0 s'" using conc.kept claims_step by (metis conc_inv_def)
qed

text \<open>C10: the claims of a session come from the database, under every interleaving.  The claims a
  connection has at any moment are those it was opened with, or the database gave them: in answer to
  \<open>authenticate\<close> with the token of one of the connection's requests, or to \<open>login\<close> with the user
  name and password of one of them.  No other request sets claims and none sets others.\<close>

theorem concurrent_claims_come_from_database:
  assumes "(conc_step json_text uuid_text E)\<^sup>*\<^sup>* (conc_new n r) s"
    and "sess_claims (sess (rpc_state s)) = Some c" "sess_claims (sess r) \<noteq> Some c"
  shows "\<exists>k d as q bs rows. k < length (reqs s) \<and> reqs s ! k = Some d \<and>
    calls (rpc_state s) = as @ q # bs \<and> E as q = Inr rows \<and>
    ((\<exists>token t. d = Authenticate token \<and> q = Fetch (OnTx t) (from_string (authenticate_sql token)) \<and> grants rows c) \<or>
     (\<exists>p t out. d = Login p \<and> q = Fetch (OnTx t) (from_string (login_sql (lp_username p) (lp_password p))) \<and>
        logs_in rows out \<and> json_get out ''claims'' = Some c))"
proof -
  have "conc_inv n (conc_new n r) \<and> claims_state E (sess_claims (sess r)) (conc_new n r)"
    using conc_new_inv by (simp add: claims_state_def conc_new_def)
  then have "claims_state E (sess_claims (sess r)) s" using claims.kept_star [OF assms(1)] by blast
  with assms(2,3) have "on_record E (requested s) (calls (rpc_state s)) c"
    by (auto simp: claims_state_def)
  then obtain d as q bs where d: "d \<in> requested s" "calls (rpc_state s) = as @ q # bs" "c \<in> vouched d q (E as q)"
    unfolding on_record_def by blast
  then obtain k where k: "k < length (reqs s)" "reqs s ! k = Some d"
    by (auto simp: requested_def in_set_conv_nth)
  from d(3) obtain rows where rows: "E as q = Inr rows" by (auto simp: vouched_def)
  from d(3) rows have "(\<exists>token t. d = Authenticate token \<and> q = Fetch (OnTx t) (from_string (authenticate_sql token)) \<and> grants rows c) \<or>
     (\<exists>p t out. d = Login p \<and> q = Fetch (OnTx t) (from_string (login_sql (lp_username p) (lp_password p))) \<and>
        logs_in rows out \<and> json_get out ''claims'' = Some c)"
    by (auto simp: vouched_def)
  with k d(2) rows show ?thesis by blast
qed

theorem concurrent_claims_come_from_database_witness:
  "\<exists>s as q bs. (conc_step (\<lambda>_. ''{}'') (\<lambda>_. ''9'') grants_admin)\<^sup>*\<^sup>* (conc_new 1 sample_conn) s \<and>
    calls (rpc_state s) = as @ q # bs \<and> sess_claims (sess (rpc_state s)) = Some (JObj [(''role'', JStr ''admin'')])"
proof -
  let ?evs = "[Incoming (Authenticate ''tok'')]"
  obtain s where run: "(conc_step (\<lambda>_. ''{}'') (\<lambda>_. ''9'') grants_admin)\<^sup>*\<^sup>* (conc_new 1 sample_conn) s"
    and "rpc_state s = rpc_run (\<lambda>_. ''{}'') (\<lambda>_. ''9'') grants_admin ?evs sample_conn"
    by (rule run_in_turn [of 1 ?evs]) simp_all
  then have claims: "sess_claims (sess (rpc_state s)) = Some (JObj [(''role'', JStr ''admin'')])"
    by (simp add: rpc_run_def authenticate_rpc_run run_authenticate claims_eval)
  have "sess_claims (sess sample_conn) \<noteq> Some (JObj [(''role'', JStr ''admin'')])"
    by (simp add: session_new_def)
  from concurrent_claims_come_from_database [OF run claims this] run claims show ?thesis by blast
qed

end
