(* ===== verification/Rpc_Transcript.thy ===== *)
theory Rpc_Transcript
  imports Rpc_Races
begin

text \<open>
  What a request asks of the database while others run.  A program is followed through any answers of
  the database and any states of the connection out of a set; the calls it makes on the way are its
  transcript.  On a connection with many requests, the transcript of each is one of its own program
  over the states the connection went through, so what a single program guarantees against arbitrary
  interference holds for the interleaving.
\<close>

section \<open>Running under interference\<close>

inductive follows :: "rpc set \<Rightarrow> prog \<Rightarrow> db_call list \<Rightarrow> prog \<Rightarrow> bool" for S where
  follows_here: "follows S p [] p"
| follows_fresh: "follows S (k n) cs q \<Longrightarrow> follows S (Fresh k) cs q"
| follows_ask: "follows S (k a) cs q \<Longrightarrow> follows S (Ask c k) (c # cs) q"
| follows_enter: "follows S p cs q \<Longrightarrow> follows S (Enter op p) cs q"
| follows_leave: "follows S p cs q \<Longrightarrow> follows S (Leave p) cs q"
| follows_look: "s \<in> S \<Longrightarrow> follows S (k s) cs q \<Longrightarrow> follows S (Look k) cs q"
| follows_edit: "s \<in> S \<Longrightarrow> follows S p cs q \<Longrightarrow> follows S (Edit f p) (new_calls s (f s) @ cs) q"

inductive_simps follows_simps:
  "follows S (Finish r) cs q" "follows S (Fresh k) cs q" "follows S (Ask c k) cs q" "follows S (Enter op p) cs q"
  "follows S (Leave p) cs q" "follows S (Look k) cs q" "follows S (Edit f p) cs q"

lemma follows_trans: "follows S p cs q \<Longrightarrow> follows S q ds r \<Longrightarrow> follows S p (cs @ ds) r"
  by (induction rule: follows.induct) (auto intro: follows.intros)

lemma follows_mono: "follows S p cs q \<Longrightarrow> S \<subseteq> T \<Longrightarrow> follows T p cs q"
  by (induction rule: follows.induct) (auto intro: follows.intros)

lemma new_calls_simps [simp]:
  "calls s' = calls s \<Longrightarrow> new_calls s s' = []" "new_calls s (drop_tx t s) = [Drop t]"
  "calls s' = calls s @ cs \<Longrightarrow> new_calls s s' = cs"
  by (simp_all add: new_calls_def drop_tx_def)

lemma local_step_follows:
  assumes "local_step E p s = Some (q, s')" "s \<in> S"
  shows "follows S p (new_calls s s') q"
proof (cases p)
  case (Edit f p')
  then show ?thesis using assms follows_edit [OF assms(2) follows_here [of S q], of f] by auto
qed (use assms in \<open>auto intro: follows_fresh [OF follows_here] follows_ask [OF follows_here] follows_look [OF _ follows_here]\<close>)

section \<open>The transcripts of a connection\<close>

definition calls_of :: "nat \<Rightarrow> conc_state \<Rightarrow> db_call list" where
  "calls_of i s = map snd (filter (\<lambda>x. fst x = i) (made s))"

definition transcribed :: "(json \<Rightarrow> string) \<Rightarrow> (uuid \<Rightarrow> string) \<Rightarrow> conc_state \<Rightarrow> bool" where
  "transcribed json_text uuid_text s \<longleftrightarrow> length (progs s) = length (reqs s) \<and>
     length (tasks (lks s)) = length (reqs s) \<and> rpc_state s \<in> set (seen s) \<and>
     fst ` set (made s) \<subseteq> {..<length (reqs s)} \<and>
     (\<forall>i d. i < length (reqs s) \<longrightarrow> reqs s ! i = Some d \<longrightarrow> (\<exists>p. progs s ! i = Some p \<and>
        follows (set (seen s)) (method_prog json_text uuid_text d) (calls_of i s) p)) \<and>
     (\<forall>i r. (i, r) \<in> set (outs s) \<longrightarrow> i < length (reqs s) \<and> progs s ! i = Some (Finish r) \<and>
        tasks (lks s) ! i = Over)"

lemma transcribedD:
  assumes "transcribed json_text uuid_text s" "i < length (reqs s)" "reqs s ! i = Some d"
  obtains p where "progs s ! i = Some p"
    "follows (set (seen s)) (method_prog json_text uuid_text d) (calls_of i s) p"
  using assms unfolding transcribed_def by blast

lemma calls_of_append:
  "calls_of i (s\<lparr>made := made s @ map (Pair k) cs\<rparr>) = calls_of i s @ (if k = i then cs else [])"
  by (simp add: calls_of_def filter_map comp_def)

lemma calls_of_simps [simp]:
  "calls_of i (s\<lparr>lks := l\<rparr>) = calls_of i s" "calls_of i (s\<lparr>outs := r\<rparr>) = calls_of i s"
  "calls_of i (s\<lparr>progs := ps\<rparr>) = calls_of i s" "calls_of i (see w s) = calls_of i s"
  "calls_of i (s\<lparr>reqs := ds\<rparr>) = calls_of i s"
  by (simp_all add: calls_of_def)

lemma transcribed_move:
  assumes "transcribed json_text uuid_text s" "i < length (reqs s)" "tasks (lks s) ! i \<noteq> Over"
    and "progs s ! i = Some p" "follows (set (seen s)) p cs q"
    and s': "progs s' = (progs s)[i := Some q]" "made s' = made s @ map (Pair i) cs"
      "tasks (lks s') = (tasks (lks s))[i := t]" "reqs s' = reqs s" "outs s' = outs s"
      "seen s' = seen s @ rs" "rpc_state s' \<in> set (seen s')"
  shows "transcribed json_text uuid_text s'"
proof -
  have calls: "calls_of k s' = calls_of k s @ (if i = k then cs else [])" for k
    using s'(2) by (simp add: calls_of_def filter_map comp_def)
  have "\<exists>p'. progs s' ! k = Some p' \<and>
      follows (set (seen s')) (method_prog json_text uuid_text d) (calls_of k s') p'"
    if "k < length (reqs s)" "reqs s ! k = Some d" for k d
  proof -
    obtain p' where p': "progs s ! k = Some p'"
      "follows (set (seen s)) (method_prog json_text uuid_text d) (calls_of k s) p'"
      using transcribedD [OF assms(1) \<open>k < length (reqs s)\<close> \<open>reqs s ! k = Some d\<close>] .
    have sub: "set (seen s) \<subseteq> set (seen s')" using s'(6) by auto
    show ?thesis
    proof (cases "k = i")
      case True
      with p' assms(4,5) have "follows (set (seen s)) (method_prog json_text uuid_text d) (calls_of k s') q"
        using follows_trans [of "set (seen s)" "method_prog json_text uuid_text d" "calls_of k s" p cs q]
        by (simp add: calls)
      with True assms(1,2) s'(1) follows_mono [OF _ sub] show ?thesis by (auto simp: transcribed_def)
    next
      case False
      with p' s'(1) follows_mono [OF _ sub] show ?thesis by (auto simp: calls)
    qed
  qed
  moreover have "(k, r) \<in> set (outs s') \<Longrightarrow> k < length (reqs s) \<and> progs s' ! k = Some (Finish r) \<and>
      tasks (lks s') ! k = Over" for k r
    using assms(1,3) s'(1,3,5) by (cases "k = i") (auto simp: transcribed_def)
  ultimately show ?thesis
    using assms(1,2) s' by (auto simp: transcribed_def)
qed

text \<open>Steps of the lock alone leave the transcripts as they are.\<close>

lemma transcribed_lock:
  assumes "transcribed json_text uuid_text s" "progs s' = progs s" "made s' = made s" "reqs s' = reqs s"
    and "outs s' = outs s" "seen s' = seen s @ rs" "rpc_state s' \<in> set (seen s')"
    and "length (tasks (lks s')) = length (tasks (lks s))"
    and "\<And>i. i < length (tasks (lks s)) \<Longrightarrow> tasks (lks s) ! i = Over \<Longrightarrow> tasks (lks s') ! i = Over"
  shows "transcribed json_text uuid_text s'"
proof -
  have "calls_of i s' = calls_of i s" for i using assms(3) by (simp add: calls_of_def)
  moreover have "follows (set (seen s')) p cs q" if "follows (set (seen s)) p cs q" for p cs q
    using follows_mono [OF that, of "set (seen s')"] assms(6) by auto
  ultimately have "\<exists>p. progs s' ! i = Some p \<and>
      follows (set (seen s')) (method_prog json_text uuid_text d) (calls_of i s') p"
    if "i < length (reqs s)" "reqs s ! i = Some d" for i d
    using transcribedD [OF assms(1) that] assms(2) by metis
  moreover have "(i, r) \<in> set (outs s') \<Longrightarrow> i < length (reqs s) \<and> progs s' ! i = Some (Finish r) \<and>
      tasks (lks s') ! i = Over" for i r
    using assms by (auto simp: transcribed_def)
  ultimately show ?thesis using assms by (simp add: transcribed_def)
qed

lemma follows_guard: "p = Enter op q \<or> p = Leave q \<Longrightarrow> follows S p [] q"
  by (auto intro: follows_enter follows_leave follows_here)

lemma transcribed_task_step:
  assumes "transcribed json_text uuid_text s" "disciplined s" "queue_ok (tasks (lks s)) (waitq (lks s))"
    and "task_step E s s'"
  shows "transcribed json_text uuid_text s'"
proof -
  have len: "length (tasks (lks s)) = length (reqs s)" and now: "rpc_state s \<in> set (seen s)"
    using assms(1) by (simp_all add: transcribed_def)
  from assms(4) show ?thesis
  proof cases
    case (c_grant i op q)
    then have "waits_in (tasks (lks s) ! i) op" using assms(3) by (simp add: queue_ok_def)
    then have "tasks (lks s) ! i \<noteq> Over" by auto
    with c_grant now show ?thesis
      by (intro transcribed_lock [OF assms(1), where rs = "[]"]) (auto simp: nth_update_if)
  next
    case (c_admit i d)
    with now show ?thesis
      by (intro transcribed_lock [OF assms(1), where rs = "[]"]) (auto simp: nth_update_if)
  next
    case (c_ignore i rest)
    with now show ?thesis
      by (intro transcribed_lock [OF assms(1), where rs = "[]"]) (auto simp: nth_update_if)
  next
    case (c_enter i op rest p)
    have "follows (set (seen s)) (Enter op p) [] p" by (intro follows_guard) simp
    with c_enter len now show ?thesis
      by (intro transcribed_move [OF assms(1), where i = i and rs = "[]" and cs = "[]" and q = p]) auto
  next
    case (c_leave i op rest p)
    have "follows (set (seen s)) (Leave p) [] p" by (intro follows_guard) simp
    with c_leave len now show ?thesis
      by (intro transcribed_move [OF assms(1), where i = i and rs = "[]" and cs = "[]" and q = p]) auto
  next
    case (c_local i p0 p r)
    from c_local(3) have "tasks (lks s) ! i \<noteq> Over" by (auto simp: running_def)
    with c_local len local_step_follows [OF c_local(5) now] show ?thesis
      by (intro transcribed_move [OF assms(1), where i = i and rs = "[r]" and q = p
            and cs = "new_calls (rpc_state s) r" and t = "tasks (lks s) ! i"]) auto
  next
    case (c_answer i rest r)
    have "transcribed json_text uuid_text (s\<lparr>lks := (lks s)\<lparr>tasks := (tasks (lks s))[i := Over]\<rparr>\<rparr>)"
      using c_answer now by (intro transcribed_lock [OF assms(1), where rs = "[]"]) (auto simp: nth_update_if)
    with c_answer len show ?thesis
      by (auto simp: transcribed_def calls_of_def)
  qed
qed

lemma transcribed_step:
  assumes "transcribed json_text uuid_text s" "disciplined s" "queue_ok (tasks (lks s)) (waitq (lks s))"
    and "conc_step json_text uuid_text E s s'"
  shows "transcribed json_text uuid_text s'"
  using assms(4)
proof cases
  case c_task
  then show ?thesis by (rule transcribed_task_step [OF assms(1-3)])
next
  case (c_arrive l d)
  have "calls_of (length (reqs s)) s = []"
    using assms(1) by (auto simp: transcribed_def calls_of_def filter_empty_conv)
  with c_arrive assms(1) show ?thesis
    by (fastforce simp: transcribed_def nth_append less_Suc_eq intro: follows_here)
next
  case (c_stream k)
  then show ?thesis
    by (intro transcribed_lock [OF assms(1), where rs = "[run_task E k (rpc_state s)]"]) simp_all
qed

interpretation transcripts: invariant "conc_step json_text uuid_text E"
    "\<lambda>s. conc_inv n s \<and> transcribed json_text uuid_text s" for json_text uuid_text E n
proof unfold_locales
  fix s s'
  assume inv: "conc_inv n s \<and> transcribed json_text uuid_text s"
    and step: "conc_step json_text uuid_text E s s'"
  then have "disciplined s" "queue_ok (tasks (lks s)) (waitq (lks s))"
    by (simp_all add: conc_inv_def lock_inv_def)
  with inv step conc.kept transcribed_step
  show "conc_inv n s' \<and> transcribed json_text uuid_text s'" by blast
qed

lemma transcribed_reach:
  assumes "(conc_step json_text uuid_text E)\<^sup>*\<^sup>* (conc_new n r) s"
  shows "transcribed json_text uuid_text s"
proof -
  have "transcribed json_text uuid_text (conc_new n r)"
    by (simp add: transcribed_def conc_new_def lock_new_def)
  then show ?thesis using transcripts.kept_star [OF assms, of n] conc_new_inv by blast
qed

section \<open>The transcript of a query\<close>

text \<open>\<open>tells S p Q\<close>: whatever \<open>p\<close> has asked and answered at any moment satisfies \<open>Q\<close>.\<close>

fun outcome :: "prog \<Rightarrow> (failure + json) option" where
  "outcome (Finish r) = Some r"
| "outcome p = None"

definition tells :: "rpc set \<Rightarrow> prog \<Rightarrow> (db_call list \<Rightarrow> (failure + json) option \<Rightarrow> bool) \<Rightarrow> bool" where
  "tells S p Q \<longleftrightarrow> (\<forall>cs q. follows S p cs q \<longrightarrow> Q cs (outcome q))"

lemma tells_finish: "tells S (Finish r) Q \<longleftrightarrow> Q [] (Some r)"
  by (auto simp: tells_def follows_simps)

lemma tells_fresh: "tells S (Fresh k) Q \<longleftrightarrow> Q [] None \<and> (\<forall>n. tells S (k n) Q)"
  unfolding tells_def follows_simps(2) by auto

lemma tells_ask:
  "tells S (Ask c k) Q \<longleftrightarrow> Q [] None \<and> (\<forall>a. tells S (k a) (\<lambda>cs. Q (c # cs)))"
  unfolding tells_def follows_simps(3) by auto

lemma tells_guard:
  "tells S (Enter op p) Q \<longleftrightarrow> Q [] None \<and> tells S p Q"
  "tells S (Leave p) Q \<longleftrightarrow> Q [] None \<and> tells S p Q"
  unfolding tells_def follows_simps(4,5) by auto

lemma tells_look: "tells S (Look k) Q \<longleftrightarrow> Q [] None \<and> (\<forall>s \<in> S. tells S (k s) Q)"
  unfolding tells_def follows_simps(6) by auto

lemma tells_edit:
  "tells S (Edit f p) Q \<longleftrightarrow> Q [] None \<and> (\<forall>s \<in> S. tells S p (\<lambda>cs. Q (new_calls s (f s) @ cs)))"
  unfolding tells_def follows_simps(7) by auto

lemma tells_db_stmt:
  "tells S (db_stmt c k) Q \<longleftrightarrow> Q [] None \<and>
     (\<forall>e. tells S (k (Inl (failure_of_db_err e))) (\<lambda>cs. Q (c # cs))) \<and>
     (\<forall>rows. tells S (k (Inr rows)) (\<lambda>cs. Q (c # cs)))"
  by (simp add: db_stmt_def tells_ask split_sum_all)

lemmas tells_simps = tells_finish tells_fresh tells_db_stmt tells_guard tells_look tells_edit

definition query_script ::
    "(json \<Rightarrow> string) \<Rightarrow> tx \<Rightarrow> session \<Rightarrow> app_config \<Rightarrow> query_params \<Rightarrow> db_call list" where
  "query_script json_text t session cfg p = Begin t # (case auth_role session of
     Inl e \<Rightarrow> []
   | Inr role \<Rightarrow> context_calls json_text (OnTx t) session cfg role @ [Fetch (OnTx t) (query_stm p), Commit t])"

text \<open>\<open>scripted t script\<close>: a beginning of the script, at most with its transaction dropped after it; all
  of it when there is a value.\<close>

definition scripted :: "tx \<Rightarrow> db_call list \<Rightarrow> db_call list \<Rightarrow> (failure + json) option \<Rightarrow> bool" where
  "scripted t script cs out \<longleftrightarrow> (\<exists>ds. prefix ds script \<and> (cs = ds \<or> cs = ds @ [Drop t])) \<and>
     (\<forall>v. out = Some (Inr v) \<longrightarrow> cs = script)"

lemma scriptedI:
  assumes "prefix ds script" "cs = ds \<or> cs = ds @ [Drop t]" and "\<And>v. out = Some (Inr v) \<Longrightarrow> cs = script"
  shows "scripted t script cs out"
  using assms unfolding scripted_def by blast

lemma scripted_part:
  assumes "prefix ds script"
  shows "scripted t script ds None" "scripted t script ds (Some (Inl e))"
    "scripted t script (ds @ [Drop t]) None" "scripted t script (ds @ [Drop t]) (Some (Inl e))"
  using assms by (auto intro: scriptedI)

lemma scripted_all: "scripted t script script (Some r)"
  by (rule scriptedI [where ds = script]) simp_all

lemma tells_context_stmt:
  assumes "auth_role session = Inr role"
    and "\<And>ds. prefix ds (context_calls json_text c session cfg role) \<Longrightarrow> Q ds None"
    and "\<And>ds e. prefix ds (context_calls json_text c session cfg role) \<Longrightarrow> tells S (k (Inl e)) (\<lambda>cs. Q (ds @ cs))"
    and "tells S (k (Inr ())) (\<lambda>cs. Q (context_calls json_text c session cfg role @ cs))"
  shows "tells S (context_stmt json_text c session cfg k) Q"
proof (cases "sess_claims session")
  case None
  then show ?thesis using assms(1,4) assms(2) [of "[]"] assms(2,3) [of "take 1 (context_calls json_text c session cfg role)"]
      assms(3) [of "context_calls json_text c session cfg role"]
    by (auto simp: context_stmt_def config_stmt_def tells_simps context_calls_def)
next
  case (Some claims)
  then show ?thesis using assms(1,4) assms(2) [of "[]"]
      assms(2,3) [of "take 1 (context_calls json_text c session cfg role)"]
      assms(2,3) [of "take 2 (context_calls json_text c session cfg role)"]
      assms(3) [of "context_calls json_text c session cfg role"]
    by (auto simp: context_stmt_def config_stmt_def tells_simps context_calls_def)
qed

lemma query_script_prefix:
  assumes "auth_role session = Inr role" "prefix ds (context_calls json_text (OnTx t) session cfg role)"
  shows "prefix (Begin t # ds) (query_script json_text t session cfg p)"
  using assms by (auto simp: query_script_def)

definition query_told :: "(json \<Rightarrow> string) \<Rightarrow> rpc set \<Rightarrow> query_params \<Rightarrow> db_call list \<Rightarrow>
    (failure + json) option \<Rightarrow> bool" where
  "query_told json_text S p cs out \<longleftrightarrow>
     (\<exists>s0 \<in> S. \<exists>s \<in> S. \<exists>s1 \<in> S. \<exists>n. 
       scripted (Tx (session_db s0) n) (query_script json_text (Tx (session_db s0) n) (sess s) (config s1) p) cs out)"

text \<open>After the transaction has begun and the session and the configuration have been read.\<close>

lemma tells_query_rest:
  fixes json_text t session cfg p
  defines "Q \<equiv> \<lambda>cs. scripted t (query_script json_text t session cfg p) (Begin t # cs)"
  shows "tells S (context_stmt json_text (OnTx t) session cfg (\<lambda>c. case c of
         Inl e \<Rightarrow> Leave (failing t e)
       | Inr _ \<Rightarrow> Leave (db_stmt (Fetch (OnTx t) (query_stm p)) (\<lambda>r. case r of
           Inl e \<Rightarrow> failing t e
         | Inr rows \<Rightarrow> db_stmt (Commit t) (\<lambda>d. case d of
             Inl e \<Rightarrow> Finish (Inl e)
           | Inr _ \<Rightarrow> Finish (Inr (JArr (map parse_float_int (converted rows)))))))))  Q"
proof (cases "auth_role session")
  case (Inl e)
  then show ?thesis
    using scripted_part [of "[Begin t]" "query_script json_text t session cfg p" t]
    by (simp add: context_stmt_def tells_simps failing_def Q_def query_script_def)
next
  case (Inr role)
  let ?ctx = "context_calls json_text (OnTx t) session cfg role"
  have script: "query_script json_text t session cfg p =
      Begin t # ?ctx @ [Fetch (OnTx t) (query_stm p), Commit t]"
    using Inr by (simp add: query_script_def)
  have fetched: "prefix (Begin t # ?ctx @ [Fetch (OnTx t) (query_stm p)]) (query_script json_text t session cfg p)"
    by (simp add: script)
  have all: "prefix (Begin t # ?ctx @ [Fetch (OnTx t) (query_stm p), Commit t]) (query_script json_text t session cfg p)"
    by (simp add: script)
  have part: "prefix (Begin t # ds) (query_script json_text t session cfg p)" if "prefix ds ?ctx" for ds
    using Inr that by (rule query_script_prefix)
  note part = scripted_part [OF this, where t = t, unfolded script]
  note late = scripted_part [OF fetched] scripted_part [OF all]
  note whole = scripted_all [where script = "query_script json_text t session cfg p"]
  with late part whole show ?thesis
    by (intro tells_context_stmt [OF Inr]) (simp_all add: Q_def tells_simps failing_def script)
qed

lemma tells_query_prog:
  "S \<noteq> {} \<Longrightarrow> tells S (query_prog json_text p) (query_told json_text S p)"
proof -
  have mono: "tells S q Q \<Longrightarrow> (\<And>cs r. Q cs r \<Longrightarrow> R cs r) \<Longrightarrow> tells S q R" for q Q R
    by (auto simp: tells_def)
  assume "S \<noteq> {}"
  then obtain z where z: "z \<in> S" by blast
  have begins: "query_told json_text S p ds o1"
    if "s \<in> S" "prefix ds [Begin (Tx (session_db s) n)]" "\<And>v. o1 \<noteq> Some (Inr v)" for s n ds o1
  proof -
    have "prefix ds (query_script json_text (Tx (session_db s) n) (sess z) (config z) p)"
      using that(2) by (rule prefix_order.trans) (simp add: query_script_def)
    with z that(1,3) show ?thesis unfolding query_told_def by (blast intro: scriptedI)
  qed
  have none: "query_told json_text S p [] None"
    using begins [OF z, of "[]" 0 None] by simp
  have one: "query_told json_text S p [Begin (Tx (session_db s) n)] None"
    "query_told json_text S p [Begin (Tx (session_db s) n)] (Some (Inl e))" if "s \<in> S" for s n e
    using begins [OF that] by simp_all
  have rest: "tells S (context_stmt json_text (OnTx (Tx (session_db s0) n)) (sess s) (config s1) k)
      (\<lambda>cs. query_told json_text S p (Begin (Tx (session_db s0) n) # cs))"
    if "s0 \<in> S" "s \<in> S" "s1 \<in> S" "k = (\<lambda>c. case c of
         Inl e \<Rightarrow> Leave (failing (Tx (session_db s0) n) e)
       | Inr _ \<Rightarrow> Leave (db_stmt (Fetch (OnTx (Tx (session_db s0) n)) (query_stm p)) (\<lambda>r. case r of
           Inl e \<Rightarrow> failing (Tx (session_db s0) n) e
         | Inr rows \<Rightarrow> db_stmt (Commit (Tx (session_db s0) n)) (\<lambda>d. case d of
             Inl e \<Rightarrow> Finish (Inl e)
           | Inr _ \<Rightarrow> Finish (Inr (JArr (map parse_float_int (converted rows))))))))"
    for s0 s s1 n k
    unfolding that(4) by (rule mono [OF tells_query_rest]) (use that(1-3) in \<open>auto simp: query_told_def\<close>)
  show ?thesis
    by (simp add: query_prog_def begin_stmt_def read_stmt_def tells_simps none one rest)
qed

text \<open>What a method tells under any interference holds of its request on a connection.\<close>

lemma reached_tells:
  assumes "(conc_step json_text uuid_text E)\<^sup>*\<^sup>* (conc_new n r) s" "i < length (reqs s)" "reqs s ! i = Some d"
    and "\<And>S. S \<noteq> {} \<Longrightarrow> tells S (method_prog json_text uuid_text d) (Q S)"
  obtains out where "Q (set (seen s)) (calls_of i s) out" "\<forall>x. (i, x) \<in> set (outs s) \<longrightarrow> out = Some x"
proof -
  have tr: "transcribed json_text uuid_text s" by (rule transcribed_reach [OF assms(1)])
  then have "set (seen s) \<noteq> {}" by (auto simp: transcribed_def)
  note tells = assms(4) [OF this]
  obtain q where q: "progs s ! i = Some q"
      "follows (set (seen s)) (method_prog json_text uuid_text d) (calls_of i s) q"
    using transcribedD [OF tr assms(2,3)] .
  have "\<forall>x. (i, x) \<in> set (outs s) \<longrightarrow> outcome q = Some x"
    using tr q(1) by (auto simp: transcribed_def)
  moreover from tells q(2) have "Q (set (seen s)) (calls_of i s) (outcome q)"
    by (auto simp: tells_def)
  ultimately show thesis by (rule that [rotated])
qed

text \<open>A query runs under one session.  However the requests of a connection, its streaming queries
  and the database interleave, what a query has asked of the database at any moment is a beginning of
  one fixed script, at most with the transaction dropped after it: begin on a database of the
  connection, the claims of a session, the configuration, the role of the same session, the query,
  commit.  That session and that configuration are ones the connection has had; no login that runs
  meanwhile can pair the claims of one session with the role of another.  A query that was answered
  with a value has made the whole script.\<close>

theorem concurrent_query_one_session:
  assumes "(conc_step json_text uuid_text E)\<^sup>*\<^sup>* (conc_new n r) s"
    and "i < length (reqs s)" "reqs s ! i = Some (Query p)"
  shows "\<exists>s0 \<in> set (seen s). \<exists>s1 \<in> set (seen s). \<exists>s2 \<in> set (seen s). \<exists>m ds.
    let t = Tx (session_db s0) m; script = query_script json_text t (sess s1) (config s2) p in
      prefix ds script \<and> (calls_of i s = ds \<or> calls_of i s = ds @ [Drop t]) \<and>
      ((\<exists>v. (i, Inr v) \<in> set (outs s)) \<longrightarrow> calls_of i s = script)"
proof -
  have "S \<noteq> {} \<Longrightarrow> tells S (method_prog json_text uuid_text (Query p)) (query_told json_text S p)" for S
    using tells_query_prog by simp
  with assms obtain out where "query_told json_text (set (seen s)) p (calls_of i s) out"
      "\<forall>x. (i, x) \<in> set (outs s) \<longrightarrow> out = Some x"
    by (rule reached_tells)
  then show ?thesis unfolding query_told_def scripted_def Let_def by (metis (no_types, lifting))
qed

theorem concurrent_query_one_session_witness:
  "\<exists>s r t se cfg ds. (conc_step (\<lambda>_. ''{}'') (\<lambda>_. '''') two_rows)\<^sup>*\<^sup>* (conc_new 24 sample_conn) s \<and>
    (0, r) \<in> set (outs s) \<and>
    prefix ds (query_script (\<lambda>_. ''{}'') t se cfg (query_params_new ''select 1'')) \<and>
    (calls_of 0 s = ds \<or> calls_of 0 s = ds @ [Drop t])"
proof -
  let ?p = "query_params_new ''select 1''" and ?step = "conc_step (\<lambda>_. ''{}'') (\<lambda>_. '''') two_rows"
  obtain s' where run': "?step\<^sup>*\<^sup>* (conc_new 24 sample_conn) s'" and reqs: "reqs s' = [Some (Query ?p)]"
    and fin: "within_limit 24 s'" "all_over (lks s')" by (rule one_request_answered)
  from reqs have "0 \<in> {i. i < length (reqs s') \<and> reqs s' ! i \<noteq> None}" by simp
  then have "0 \<in> fst ` set (outs s')" unfolding all_answered(2) [OF fin] .
  then obtain r where r: "(0, r) \<in> set (outs s')" by (metis imageE prod.collapse)
  show ?thesis
    using concurrent_query_one_session [OF run', of 0 ?p] reqs run' r unfolding Let_def by fastforce
qed

end
