(* ===== verification/Rpc_Scripts.thy ===== *)
theory Rpc_Scripts
  imports Rpc_Transcript Rpc_In_Turn
begin

text \<open>
  The script of every method, and that every request keeps to its own while others run.
\<close>

section \<open>Scripts\<close>

definition login_script :: "(json \<Rightarrow> string) \<Rightarrow> tx \<Rightarrow> app_config \<Rightarrow> login_params \<Rightarrow> db_call list" where
  "login_script json_text t cfg p = [Begin t,
     Execute (OnTx t) (set_config_stm (json_text (db_config_json (db_config cfg)))),
     Fetch (OnTx t) (from_string (login_sql (lp_username p) (lp_password p))), Commit t]"

definition authenticate_script :: "tx \<Rightarrow> string \<Rightarrow> db_call list" where
  "authenticate_script t token = [Begin t, Fetch (OnTx t) (from_string (authenticate_sql token)), Drop t]"

definition end_script :: "(tx \<Rightarrow> db_call) \<Rightarrow> session \<Rightarrow> db_call list" where
  "end_script c session = (case sess_txn session of None \<Rightarrow> [] | Some x \<Rightarrow> [c x])"

text \<open>The script of a request, in a transaction \<open>t\<close>, under a session and a configuration; the statement
  of a stream is asked by the stream's own task.\<close>

fun request_script ::
    "(json \<Rightarrow> string) \<Rightarrow> tx \<Rightarrow> session \<Rightarrow> app_config \<Rightarrow> request_data \<Rightarrow> db_call list" where
  "request_script json_text t session cfg (Query p) = query_script json_text t session cfg p"
| "request_script json_text t session cfg (Login p) = login_script json_text t cfg p"
| "request_script json_text t session cfg (Authenticate token) = authenticate_script t token"
| "request_script json_text t session cfg (Transaction TxnBegin) = Begin t # end_script Drop session"
| "request_script json_text t session cfg (Transaction TxnCommit) = end_script Commit session"
| "request_script json_text t session cfg (Transaction TxnRollback) = end_script Rollback session"
| "request_script json_text t session cfg (QueryStream p) = [Begin t]"

definition told :: "(json \<Rightarrow> string) \<Rightarrow> rpc set \<Rightarrow> request_data \<Rightarrow> db_call list \<Rightarrow> (failure + json) option \<Rightarrow> bool" where
  "told json_text S d cs out \<longleftrightarrow> (\<exists>s0 \<in> S. \<exists>s1 \<in> S. \<exists>s2 \<in> S. \<exists>n. let t = Tx (session_db s0) n in
     scripted t (request_script json_text t (sess s1) (config s2) d) cs out)"

text \<open>A decision procedure for transcripts that are written out.\<close>

lemma scripted_iff:
  "scripted t script cs out \<longleftrightarrow>
     (prefix cs script \<or> cs \<noteq> [] \<and> last cs = Drop t \<and> prefix (butlast cs) script) \<and>
     (\<forall>v. out = Some (Inr v) \<longrightarrow> cs = script)"
  unfolding scripted_def by (metis append_butlast_last_id butlast_snoc last_snoc snoc_eq_iff_butlast)

lemma told_mono:
  assumes "s0 \<in> S" "s1 \<in> S" "s2 \<in> S" "t = Tx (session_db s0) n"
    and "tells S p (\<lambda>cs. scripted t (request_script json_text t (sess s1) (config s2) d) (pre @ cs))"
  shows "tells S p (\<lambda>cs. told json_text S d (pre @ cs))"
  using assms unfolding tells_def told_def Let_def by blast

section \<open>Every method keeps to its script\<close>

lemma told_none: "S \<noteq> {} \<Longrightarrow> told json_text S d [] None"
  unfolding told_def scripted_def Let_def by auto

lemma told_begin:
  assumes "S \<noteq> {}" and "\<And>t session cfg. prefix [Begin t] (request_script json_text t session cfg d)"
    and "\<And>e. k (Inl e) = Finish (Inl e)"
    and "\<And>s0 n t. s0 \<in> S \<Longrightarrow> t = Tx (session_db s0) n \<Longrightarrow>
      tells S (k (Inr t)) (\<lambda>cs. told json_text S d ([Begin t] @ cs))"
  shows "tells S (begin_stmt k) (told json_text S d)"
proof -
  have "told json_text S d [Begin (Tx (session_db s0) n)] o1"
    if "s0 \<in> S" "\<And>v. o1 \<noteq> Some (Inr v)" for s0 n o1
    using that assms(2) unfolding told_def scripted_def Let_def by blast
  with assms(1,3,4) told_none show ?thesis by (simp add: begin_stmt_def tells_simps)
qed

lemma told_config:
  assumes "s0 \<in> S" "t = Tx (session_db s0) n" "\<And>session cfg. prefix [Begin t] (request_script json_text t session cfg d)"
    and "\<And>s2. s2 \<in> S \<Longrightarrow> tells S (k (config s2))
      (\<lambda>cs. scripted t (request_script json_text t (sess s0) (config s2) d) ([Begin t] @ cs))"
  shows "tells S (read_stmt config k) (\<lambda>cs. told json_text S d ([Begin t] @ cs))"
proof -
  have "told json_text S d [Begin t] None"
    using assms(1-3) unfolding told_def scripted_def Let_def by blast
  moreover have "tells S (k (config s2)) (\<lambda>cs. told json_text S d ([Begin t] @ cs))" if "s2 \<in> S" for s2
    using assms(4) [OF that] by (rule told_mono [OF assms(1,1) that assms(2)])
  ultimately show ?thesis by (simp add: read_stmt_def tells_simps)
qed

lemmas told_stmts = write_stmt_def config_stmt_def login_stmt_def authenticate_stmt_def failing_def
  tells_simps split_sum_all scripted_iff

lemma told_query: "S \<noteq> {} \<Longrightarrow> tells S (query_prog json_text p) (told json_text S (Query p))"
  using tells_query_prog unfolding tells_def query_told_def told_def Let_def request_script.simps by blast

lemma told_login:
  assumes "S \<noteq> {}"
  shows "tells S (login_prog json_text p) (told json_text S (Login p))"
  unfolding login_prog_def
  by (rule told_begin [OF assms], simp add: login_script_def, simp, simp only: sum.case, rule told_config)
    (auto simp: login_script_def told_stmts set_claims_def split: sum.split)

lemma told_authenticate:
  assumes "S \<noteq> {}"
  shows "tells S (authenticate_prog token) (told json_text S (Authenticate token))"
  unfolding authenticate_prog_def
  by (rule told_begin [OF assms], simp add: authenticate_script_def, simp, rule told_mono)
    (auto simp: authenticate_script_def told_stmts set_claims_def split: sum.split)

lemma told_stream:
  assumes "S \<noteq> {}"
  shows "tells S (stream_prog uuid_text p) (told json_text S (QueryStream p))"
proof -
  have "tells S (begin_stmt k) (told json_text S (QueryStream p))"
    if "k = (\<lambda>b. case b of Inl e \<Rightarrow> Finish (Inl e) | Inr t \<Rightarrow> Edit (spawn_stream (g t)) (Finish (Inr x)))" for k g x
    unfolding that by (rule told_begin [OF assms], simp, simp, rule told_mono)
      (auto simp: told_stmts spawn_stream_def)
  with told_none [OF assms] show ?thesis by (simp add: stream_prog_def read_stmt_def tells_simps)
qed

text \<open>A transaction that is begun takes the place of the one the session had.\<close>

lemma told_transaction_begin:
  assumes "S \<noteq> {}"
  shows "tells S (transaction_prog TxnBegin) (told json_text S (Transaction TxnBegin))"
proof -
  have new: "new_calls s (insert_txn t s) = end_script Drop (sess s)" for s t
    by (simp add: insert_txn_def set_txn_def drop_tx_def end_script_def new_calls_def split: option.split)
  have "told json_text S (Transaction TxnBegin) [Begin (Tx (session_db s0) n)] None"
    "told json_text S (Transaction TxnBegin) (Begin (Tx (session_db s0) n) # end_script Drop (sess s1)) None"
    "told json_text S (Transaction TxnBegin) (Begin (Tx (session_db s0) n) # end_script Drop (sess s1)) (Some x)"
    if "s0 \<in> S" "s1 \<in> S" for s0 s1 n x
    using that unfolding told_def scripted_def Let_def by fastforce+
  then show ?thesis unfolding transaction_prog.simps
    by (intro told_begin [OF assms]) (auto simp: write_stmt_def tells_simps new)
qed

lemma told_take:
  assumes "S \<noteq> {}" "\<And>t session cfg. request_script json_text t session cfg d = end_script c session"
  shows "tells S (take_prog c) (told json_text S d)"
proof -
  have "told json_text S d (end_script c (sess s1)) (Some x)" "told json_text S d (end_script c (sess s1)) None"
    if "s1 \<in> S" for s1 x
    using that assms(2) unfolding told_def scripted_def Let_def by auto
  then show ?thesis
    using told_none [OF assms(1)]
    by (fastforce simp: take_prog_def tells_simps set_txn_def end_script_def split: option.split)
qed

lemma told_method:
  assumes "S \<noteq> {}"
  shows "tells S (method_prog json_text uuid_text d) (told json_text S d)"
proof (cases d)
  case (Transaction a)
  then show ?thesis
    using told_transaction_begin [OF assms] told_take [OF assms] by (cases a) simp_all
qed (simp_all add: assms told_query told_login told_authenticate told_stream)

text \<open>C12: every request keeps to its script.  However the requests of a connection, its streaming
  queries and the database interleave, what a request has asked of the database at any moment is a
  beginning of one fixed script, at most with its transaction dropped after it.  For a query that is
  begin, the claims of a session, the configuration, the role of the same session, the query, commit;
  for a login begin, the configuration, the login, commit; for an authentication begin, the statement,
  drop; for the begin of a transaction begin, and dropping the one the session had; for its end the
  commit or rollback of the session's transaction; for a stream begin.  Database, session and
  configuration are ones the connection has had, and no login that runs meanwhile can pair the claims
  of one session with the role of another.  A request that was answered with a value has made its
  whole script.\<close>

theorem concurrent_requests_keep_to_scripts:
  assumes "(conc_step json_text uuid_text E)\<^sup>*\<^sup>* (conc_new n r) s"
    and "i < length (reqs s)" "reqs s ! i = Some d"
  shows "\<exists>s0 \<in> set (seen s). \<exists>s1 \<in> set (seen s). \<exists>s2 \<in> set (seen s). \<exists>m ds.
    let t = Tx (session_db s0) m; script = request_script json_text t (sess s1) (config s2) d in
      prefix ds script \<and> (calls_of i s = ds \<or> calls_of i s = ds @ [Drop t]) \<and>
      ((\<exists>v. (i, Inr v) \<in> set (outs s)) \<longrightarrow> calls_of i s = script)"
proof -
  from assms told_method obtain out where "told json_text (set (seen s)) d (calls_of i s) out"
      "\<forall>x. (i, x) \<in> set (outs s) \<longrightarrow> out = Some x"
    by (rule reached_tells)
  then show ?thesis unfolding told_def scripted_def Let_def by (metis (no_types, lifting))
qed

theorem concurrent_requests_keep_to_scripts_witness:
  "\<exists>s t. (conc_step (\<lambda>_. ''{}'') (\<lambda>_. ''9'') grants_admin)\<^sup>*\<^sup>* (conc_new 1 sample_conn) s \<and>
    reqs s = [Some (Authenticate ''tok'')] \<and>
    calls_of 0 s = [Begin t, Fetch (OnTx t) (from_string (authenticate_sql ''tok'')), Drop t]"
proof -
  let ?evs = "[Incoming (Authenticate ''tok'')]" and ?step = "conc_step (\<lambda>_. ''{}'') (\<lambda>_. ''9'') grants_admin"
  obtain s where run: "?step\<^sup>*\<^sup>* (conc_new 1 sample_conn) s" and reqs: "reqs s = map Some (asked ?evs)"
    and outs: "outs s = enumerate 0 (answers_in_turn (\<lambda>_. ''{}'') (\<lambda>_. ''9'') grants_admin ?evs sample_conn)"
    by (rule run_in_turn [of 1 ?evs]) simp_all
  have "(0, Inr (JObj [(''role'', JStr ''admin'')])) \<in> set (outs s)"
    unfolding outs by (simp add: authenticate_rpc_run run_authenticate claims_eval)
  with concurrent_requests_keep_to_scripts [OF run, of 0 "Authenticate ''tok''"] reqs
  have "\<exists>t. calls_of 0 s = authenticate_script t ''tok''" by (fastforce simp: Let_def)
  with run reqs show ?thesis by (auto simp: authenticate_script_def)
qed

end
