(* ===== verification/Rpc_Replies.thy ===== *)
theory Rpc_Replies
  imports Rpc_In_Turn Request_Wire Hub
begin

text \<open>
  From the requests of a connection to the frames on its socket.  In \<open>Rpc_Concurrent\<close> an answer is a
  step that always succeeds, in \<open>Socket\<close> a request is opaque; here the two meet: a task that has its
  answer keeps its permit until the bounded channel has room (\<open>res.send(&chn).await\<close>), the other
  producers of the channel take room too, and the writer empties it.  The connection is not cancelled;
  what happens then is in \<open>Socket_Close\<close>.
\<close>

section \<open>Tasks, channel and writer\<close>

text \<open>\<open>sv_got\<close> holds the text messages that came, parsed.  A message in the channel or on the socket
  is tagged with the number of the message it answers; changes, notifications and pings have no tag.\<close>

record served =
  sv_core :: conc_state
  sv_got :: "request option list"
  sv_room :: nat
  sv_chan :: "(nat option \<times> message) list"
  sv_sent :: "(nat option \<times> message) list"

definition served_new :: "nat \<Rightarrow> rpc \<Rightarrow> served" where
  "served_new n r = \<lparr>sv_core = conc_new n r, sv_got = [], sv_room = n, sv_chan = [], sv_sent = []\<rparr>"

definition reply :: "(json \<Rightarrow> string) \<Rightarrow> request option list \<Rightarrow> nat \<times> (failure + json) \<Rightarrow> nat option \<times> message" where
  "reply json_text got out = (Some (fst out), TextMsg (response_text json_text
     \<lparr>resp_id = req_id (the (got ! fst out)), resp_result = snd out\<rparr>))"

lemma reply_eq:
  "reply json_text got = (\<lambda>(i, x). (Some i, TextMsg (response_text json_text
     \<lparr>resp_id = req_id (the (got ! i)), resp_result = x\<rparr>)))"
  by (auto simp: reply_def)

inductive serve_work :: "(json \<Rightarrow> string) \<Rightarrow> db_env \<Rightarrow> served \<Rightarrow> served \<Rightarrow> bool"
  for json_text E where
  w_task: "serve_work json_text E f (f\<lparr>sv_core := s'\<rparr>)"
    if "task_step E (sv_core f) s'" "outs s' = outs (sv_core f)"
| w_reply: "serve_work json_text E f (f\<lparr>sv_core := s', sv_chan := sv_chan f @ [reply json_text (sv_got f) out]\<rparr>)"
    if "task_step E (sv_core f) s'" "outs s' = outs (sv_core f) @ [out]" "length (sv_chan f) < sv_room f"
| w_write: "serve_work json_text E f (f\<lparr>sv_chan := q, sv_sent := sv_sent f @ [m]\<rparr>)"
    if "sv_chan f = m # q"

text \<open>Beside them: a text message is read, a stream's task is scheduled, another task queues a message.\<close>

definition untagged :: "(json \<Rightarrow> string) \<Rightarrow> (uuid \<Rightarrow> string) \<Rightarrow> message set" where
  "untagged json_text uuid_text =
     {PingMsg []} \<union> range (change_message json_text) \<union> range (notification_message json_text uuid_text)"

inductive wire_step ::
    "(json \<Rightarrow> string) \<Rightarrow> (uuid \<Rightarrow> string) \<Rightarrow> (string \<Rightarrow> request option) \<Rightarrow> db_env \<Rightarrow> served \<Rightarrow> served \<Rightarrow> bool"
  for json_text uuid_text parse E where
  v_work: "serve_work json_text E f f' \<Longrightarrow> wire_step json_text uuid_text parse E f f'"
| v_read: "wire_step json_text uuid_text parse E f (f\<lparr>sv_core := s', sv_got := sv_got f @ [parse t]\<rparr>)"
    if "conc_step json_text uuid_text E (sv_core f) s'"
      "reqs s' = reqs (sv_core f) @ [map_option req_data (parse t)]"
| v_stream: "wire_step json_text uuid_text parse E f
      (f\<lparr>sv_core := see (run_task E k (rpc_state (sv_core f))) (sv_core f)\<rparr>)"
| v_push: "wire_step json_text uuid_text parse E f (f\<lparr>sv_chan := sv_chan f @ [(None, m)]\<rparr>)"
    if "m \<in> untagged json_text uuid_text" "length (sv_chan f) < sv_room f"

inductive_cases serve_workE: "serve_work json_text E f f'"
inductive_cases wire_stepE: "wire_step json_text uuid_text parse E f f'"

text \<open>The tasks run as in \<open>Rpc_Concurrent\<close>, so what holds of every interleaving there holds here.\<close>

lemma wire_step_core:
  "wire_step json_text uuid_text parse E f f' \<Longrightarrow>
     conc_step json_text uuid_text E (sv_core f) (sv_core f') \<or> sv_core f' = sv_core f"
  by (elim wire_stepE serve_workE) (auto intro: c_task c_stream)

lemma wire_runs_core:
  "(wire_step json_text uuid_text parse E)\<^sup>*\<^sup>* f f' \<Longrightarrow>
     (conc_step json_text uuid_text E)\<^sup>*\<^sup>* (sv_core f) (sv_core f')"
proof (induction rule: rtranclp_induct)
  case (step f1 f2)
  then show ?case using wire_step_core [OF step.hyps(2)] by (metis rtranclp.rtrancl_into_rtrancl)
qed simp

section \<open>What is on the wire\<close>

definition tagged :: "(nat option \<times> message) list \<Rightarrow> (nat option \<times> message) list" where
  "tagged ms = filter (\<lambda>(k, m). k \<noteq> None) ms"

lemma tagged_simps [simp]:
  "tagged [] = []" "tagged (xs @ ys) = tagged xs @ tagged ys" "tagged [(None, m)] = []"
  "tagged [reply json_text got out] = [reply json_text got out]"
  by (simp_all add: tagged_def reply_def)

lemma tagged_Cons: "tagged (m # q) = tagged [m] @ tagged q"
  by (simp add: tagged_def)

definition replied :: "(json \<Rightarrow> string) \<Rightarrow> served \<Rightarrow> bool" where
  "replied json_text f \<longleftrightarrow> reqs (sv_core f) = map (map_option req_data) (sv_got f) \<and>
     tagged (sv_sent f @ sv_chan f) = map (reply json_text (sv_got f)) (outs (sv_core f))"

lemma task_step_reqs: "task_step E s s' \<Longrightarrow> reqs s' = reqs s"
  by (auto elim: task_stepE)

lemma answers_below: "answers_counted s \<Longrightarrow> out \<in> set (outs s) \<Longrightarrow> fst out < length (reqs s)"
  unfolding answers_counted_def by (metis (mono_tags, lifting) imageI mem_Collect_eq)

lemma reading_keeps_outs:
  "conc_step json_text uuid_text E s s' \<Longrightarrow> reqs s' = reqs s @ [d] \<Longrightarrow> outs s' = outs s"
  by (elim conc_stepE) (auto simp: task_step_reqs)

lemma replied_step:
  assumes "replied json_text f" "answers_counted (sv_core f)" "wire_step json_text uuid_text parse E f f'"
  shows "replied json_text f'"
  using assms(3)
proof cases
  case v_work
  then show ?thesis
  proof cases
    case (w_task s')
    with assms(1) task_step_reqs show ?thesis by (simp add: replied_def)
  next
    case (w_reply s' out)
    with assms(1) task_step_reqs show ?thesis by (simp add: replied_def)
  next
    case (w_write m q)
    with assms(1) tagged_Cons [of m q] show ?thesis by (simp add: replied_def)
  qed
next
  case (v_read s' t)
  have len: "length (reqs (sv_core f)) = length (sv_got f)" using assms(1) by (simp add: replied_def)
  have "reply json_text (sv_got f @ [parse t]) out = reply json_text (sv_got f) out"
    if "out \<in> set (outs (sv_core f))" for out
    using answers_below [OF assms(2) that] len by (simp add: reply_def nth_append)
  with assms(1) v_read reading_keeps_outs [OF v_read(2,3)] show ?thesis by (simp add: replied_def)
qed (use assms(1) in \<open>simp_all add: replied_def\<close>)

interpretation replies: invariant "wire_step json_text uuid_text parse E"
    "\<lambda>f. (conc_inv n (sv_core f) \<and> answers_counted (sv_core f)) \<and> replied json_text f"
  for json_text uuid_text parse E n
proof unfold_locales
  fix f f'
  assume inv: "(conc_inv n (sv_core f) \<and> answers_counted (sv_core f)) \<and> replied json_text f"
    and step: "wire_step json_text uuid_text parse E f f'"
  have "conc_inv n (sv_core f') \<and> answers_counted (sv_core f')"
    using wire_step_core [OF step] answering.kept inv by metis
  moreover have "replied json_text f'" using replied_step inv step by blast
  ultimately show "(conc_inv n (sv_core f') \<and> answers_counted (sv_core f')) \<and> replied json_text f'" ..
qed

lemma served_new_inv:
  "(conc_inv n (sv_core (served_new n r)) \<and> answers_counted (sv_core (served_new n r))) \<and>
   replied json_text (served_new n r)"
  using conc_new_inv by (simp add: served_new_def replied_def answers_counted_def conc_new_def lock_new_def)

lemma task_step_outs: "task_step E s s' \<Longrightarrow> outs s' = outs s \<or> (\<exists>out. outs s' = outs s @ [out])"
  by (auto elim: task_stepE)

lemma wire_reached:
  assumes "(wire_step json_text uuid_text parse E)\<^sup>*\<^sup>* (served_new n r) f"
  shows "conc_inv n (sv_core f)" "answers_counted (sv_core f)" "replied json_text f" "sv_room f = n"
proof -
  show "conc_inv n (sv_core f)" "answers_counted (sv_core f)" "replied json_text f"
    using replies.kept_star [OF assms served_new_inv] by blast+
  have "sv_room f' = sv_room f1" if "wire_step json_text uuid_text parse E f1 f'" for f1 f'
    using that by (auto elim!: wire_stepE serve_workE)
  then have "sv_room f = sv_room (served_new n r)"
    by (intro replies.constant_star [OF assms served_new_inv])
  then show "sv_room f = n" by (simp add: served_new_def)
qed

lemma replied_numbers:
  assumes "replied json_text f" "answers_counted (sv_core f)"
  shows "distinct (map fst (outs (sv_core f)))"
    "fst ` set (outs (sv_core f)) \<subseteq> {i. i < length (sv_got f) \<and> sv_got f ! i \<noteq> None}"
    "all_over (lks (sv_core f)) \<Longrightarrow> disciplined (sv_core f) \<Longrightarrow>
       fst ` set (outs (sv_core f)) = {i. i < length (sv_got f) \<and> sv_got f ! i \<noteq> None}"
  using assms by (auto simp: replied_def answers_counted_def all_over_def disciplined_def)

text \<open>C13: every response on a socket is the answer to a message that came on it.  However requests,
  streams, changes and pings interleave, the responses a connection has sent are a beginning of the
  answers its tasks gave, in that order, each with the id of the request it answers; no message has two
  responses, and one that did not parse has none.\<close>

theorem each_response_is_the_answer:
  assumes "(wire_step json_text uuid_text parse E)\<^sup>*\<^sup>* (served_new n r) f"
  shows "\<exists>given. prefix given (outs (sv_core f)) \<and>
    tagged (sv_sent f) = map (\<lambda>(i, x). (Some i, TextMsg (response_text json_text
       \<lparr>resp_id = req_id (the (sv_got f ! i)), resp_result = x\<rparr>))) given \<and> distinct (map fst given) \<and>
    fst ` set given \<subseteq> {i. i < length (sv_got f) \<and> sv_got f ! i \<noteq> None}"
proof -
  note ok = wire_reached [OF assms]
  let ?outs = "outs (sv_core f)" and ?k = "length (tagged (sv_sent f))"
  have "tagged (sv_sent f) @ tagged (sv_chan f) = map (reply json_text (sv_got f)) ?outs"
    using ok(3) by (simp add: replied_def)
  then have "tagged (sv_sent f) = map (reply json_text (sv_got f)) (take ?k ?outs)"
    by (metis append_eq_conv_conj take_map)
  moreover have "distinct (map fst (take ?k ?outs))"
    using replied_numbers(1) [OF ok(3,2)] by (simp add: take_map [symmetric])
  ultimately show ?thesis
    using replied_numbers(2) [OF ok(3,2)] take_is_prefix [of ?k ?outs] unfolding reply_eq
    by (intro exI [of _ "take ?k ?outs"]) (auto dest: in_set_takeD)
qed

section \<open>Below the limit, to a client that reads\<close>

interpretation wired: terminating "serve_work json_text E" "\<lambda>f. within_limit n (sv_core f) \<and> 0 < sv_room f"
    "\<lambda>f. 2 * conc_left (sv_core f) + length (sv_chan f)" "\<lambda>f. all_over (lks (sv_core f)) \<and> sv_chan f = []"
  for json_text E n
proof unfold_locales
  fix f f' :: served
  assume inv: "within_limit n (sv_core f) \<and> 0 < sv_room f" and step: "serve_work json_text E f f'"
  then show "within_limit n (sv_core f') \<and> 0 < sv_room f'"
    using serve.kept by (auto elim!: serve_workE)
  show "2 * conc_left (sv_core f') + length (sv_chan f') < 2 * conc_left (sv_core f) + length (sv_chan f)"
    using step
  proof cases
    case (w_task s')
    with serve.nearer [of n "sv_core f" E s'] inv show ?thesis by simp
  next
    case (w_reply s' out)
    with serve.nearer [of n "sv_core f" E s'] inv show ?thesis by simp
  qed simp
next
  fix f :: served
  assume inv: "within_limit n (sv_core f) \<and> 0 < sv_room f"
    and open_end: "\<not> (all_over (lks (sv_core f)) \<and> sv_chan f = [])"
  show "\<exists>f'. serve_work json_text E f f'"
  proof (cases "sv_chan f")
    case Nil
    then obtain s' where "task_step E (sv_core f) s'" using inv open_end serving_enabled by blast
    with Nil inv task_step_outs [OF this] show ?thesis using w_task w_reply by (metis list.size(3))
  next
    case (Cons m q)
    then show ?thesis using w_write by blast
  qed
qed

lemma work_is_wire: "(serve_work json_text E)\<^sup>*\<^sup>* f f' \<Longrightarrow> (wire_step json_text uuid_text parse E)\<^sup>*\<^sup>* f f'"
  by (rule mono_rtranclp [rule_format]) (auto intro: v_work)

lemma work_got: "(serve_work json_text E)\<^sup>*\<^sup>* f f' \<Longrightarrow> sv_got f' = sv_got f"
  by (induction rule: rtranclp_induct) (auto elim: serve_workE)

lemma wired_start:
  assumes "(wire_step json_text uuid_text parse E)\<^sup>*\<^sup>* (served_new n r) f" "0 < n" "unfinished (lks (sv_core f)) \<le> n"
  shows "within_limit n (sv_core f) \<and> 0 < sv_room f"
  using wire_reached [OF assms(1)] assms(2,3) by (simp add: within_limit_def)


section \<open>A connection with one request\<close>

definition commit_request :: request where
  "commit_request = \<lparr>req_id = ''7'', req_data = Transaction TxnCommit\<rparr>"

lemma one_request_read:
  obtains f where "wire_step json_text uuid_text (\<lambda>_. Some commit_request) E (served_new 24 r) f"
    "sv_got f = [Some commit_request]" "unfinished (lks (sv_core f)) \<le> 24"
proof -
  obtain s where s: "conc_step json_text uuid_text E (conc_new 24 r) s"
    "reqs s = [map_option req_data (Some commit_request)]" "unfinished (lks s) \<le> 24" by (rule one_request)
  then have "wire_step json_text uuid_text (\<lambda>_. Some commit_request) E (served_new 24 r)
      (served_new 24 r\<lparr>sv_core := s, sv_got := sv_got (served_new 24 r) @ [Some commit_request]\<rparr>)"
    by (intro v_read) (simp_all add: served_new_def conc_new_def)
  then show thesis by (rule that) (simp_all add: served_new_def s(3))
qed

lemma only_zero: "{i. i < length [Some x] \<and> [Some x] ! i \<noteq> None} = {0}"
  by auto

lemma one_response:
  assumes "tagged ms = map (reply json_text [Some commit_request]) given" "distinct (map fst given)"
    and "fst ` set given = {0}"
  shows "\<exists>x. tagged ms = [(Some 0, TextMsg (response_text json_text \<lparr>resp_id = ''7'', resp_result = x\<rparr>))]"
proof -
  have "length given = 1" using assms(2,3) distinct_card [of "map fst given"] by simp
  then obtain out where "given = [out]" by (auto simp: length_Suc_conv)
  with assms(1,3) show ?thesis by (auto simp: reply_def commit_request_def)
qed


theorem each_response_is_the_answer_witness:
  "\<exists>f given. (wire_step (\<lambda>_. ''{}'') (\<lambda>_. ''9'') (\<lambda>_. Some commit_request) two_rows)\<^sup>*\<^sup>* (served_new 24 sample_conn) f \<and>
    all_over (lks (sv_core f)) \<and> sv_chan f = [] \<and> given \<noteq> [] \<and>
    tagged (sv_sent f) = map (reply (\<lambda>_. ''{}'') [Some commit_request]) given"
proof -
  let ?step = "wire_step (\<lambda>_. ''{}'') (\<lambda>_. ''9'') (\<lambda>_. Some commit_request) two_rows"
  let ?work = "serve_work (\<lambda>_. ''{}'') two_rows"
  obtain f where step: "?step (served_new 24 sample_conn) f" and got: "sv_got f = [Some commit_request]"
    and few: "unfinished (lks (sv_core f)) \<le> 24" by (rule one_request_read)
  have start: "within_limit 24 (sv_core f) \<and> 0 < sv_room f" using step few by (intro wired_start) auto
  obtain f' where f': "?work\<^sup>*\<^sup>* f f'" "\<nexists>f''. ?work f' f''" using wired.reaches_end [OF start] by blast
  have run: "?step\<^sup>*\<^sup>* (served_new 24 sample_conn) f'"
    using step work_is_wire [OF f'(1)] by (rule converse_rtranclp_into_rtranclp)
  have over: "all_over (lks (sv_core f'))" "sv_chan f' = []"
    using wired.ends_final [OF f'(1) start f'(2)] by blast+
  note ok = wire_reached [OF run]
  have "disciplined (sv_core f')" using ok(1) by (simp add: conc_inv_def)
  then have "fst ` set (outs (sv_core f')) = {0}"
    using replied_numbers(3) [OF ok(3,2) over(1)] work_got [OF f'(1)] got only_zero by simp
  then have "tagged (sv_sent f') \<noteq> []" using ok(3) over(2) by (auto simp: replied_def)
  moreover obtain given where "tagged (sv_sent f') = map (reply (\<lambda>_. ''{}'') (sv_got f')) given"
    using each_response_is_the_answer [OF run] unfolding reply_eq by blast
  ultimately show ?thesis using run over work_got [OF f'(1)] got by auto
qed

end
