(* ===== verification/Startup.thy ===== *)
theory Startup
  imports App Server
begin

text \<open>
  \<open>main\<close> of \<open>src/main.rs\<close> from the environment to the listening server, with the address
  \<open>serve\<close> of \<open>src/server.rs\<close> listens on.  \<open>dotenvy\<close> and \<open>envy\<close>, which make an environment
  and read a configuration out of it, are parameters.
\<close>

type_synonym environment = "string \<Rightarrow> string option"

section \<open>The environment\<close>

definition CARGO_PKG_NAME :: string where
  "CARGO_PKG_NAME = ''pg_graph''"

text \<open>The filter of the log, when \<open>RUST_LOG\<close> is set.\<close>

definition log_filter :: "environment \<Rightarrow> string option" where
  "log_filter env = map_option (\<lambda>level.
     map (\<lambda>c. if c = CHR ''-'' then CHR ''_'' else c) CARGO_PKG_NAME @ ''='' @ level) (env ''RUST_LOG'')"

text \<open>\<open>"0.0.0.0:{}".parse::<SocketAddr>()\<close>: what follows the colon is a decimal number that fits
  16 bits, leading zeros allowed.\<close>

definition parse_port :: "string \<Rightarrow> 16 word option" where
  "parse_port s = (if s \<noteq> [] \<and> list_all (\<lambda>c. to_digit c \<noteq> None) s \<and> digits_value 0 s < 2 ^ 16
     then Some (word_of_nat (digits_value 0 s)) else None)"

lemma parse_port_decimal: "parse_port (decimal n) = (if n < 2 ^ 16 then Some (word_of_nat n) else None)"
  using decimal_digits [of n] by (simp add: parse_port_def decimal_not_Nil digits_value_decimal)

lemma parse_port_inject:
  "parse_port (decimal m) = parse_port (decimal n) \<Longrightarrow> m < 2 ^ 16 \<Longrightarrow> n < 2 ^ 16 \<Longrightarrow> m = n"
  by (simp add: parse_port_decimal word_of_nat_eq_iff take_bit_nat_eq_self)

definition serve_port :: "app_config \<Rightarrow> abort + 16 word" where
  "serve_port cfg = of_option Unwound (parse_port (listen_port cfg))"

section \<open>Main\<close>

text \<open>The configuration, every database connected and its change tasks spawned, then the server; each
  \<open>unwrap\<close> on the way ends the process.\<close>

definition start_main ::
    "(environment \<Rightarrow> 'e + app_config) \<Rightarrow> db_env \<Rightarrow> statement \<Rightarrow> environment \<Rightarrow>
     (server, abort + app_config \<times> 16 word) state" where
  "start_main from_env E databases_stm env =
     try_bind (expect (of_result (from_env env))) (\<lambda>cfg.
     try_bind (boot E databases_stm cfg) (\<lambda>_.
       of_result (map_sum id (Pair cfg) (serve_port cfg))))"

text \<open>A process that comes to listen has read its configuration and runs as \<open>serving\<close> says.\<close>

theorem main_listens:
  assumes "run_state (start_main from_env E databases_stm env) s = (Inr (cfg, port), s')" "started_with s"
  shows "from_env env = Inr cfg \<and> parse_port (listen_port cfg) = Some port \<and> boot_inv cfg s' \<and>
    serving json_text E alnum_match databases_stm cfg s'"
proof -
  from assms(1) have "from_env env = Inr cfg" "run_state (boot E databases_stm cfg) s = (Inr (), s')"
    "serve_port cfg = Inr port"
    by (auto simp: start_main_def expect_def split: sum.splits prod.splits)
  with assms(2) boot_establishes serving.start show ?thesis
    by (auto simp: serve_port_def of_option_def split: option.splits)
qed

text \<open>A port that is no port is found last: every database is connected and its change tasks run when
  the process ends.\<close>

theorem bad_port_found_last:
  assumes "from_env env = Inr cfg" "run_state (boot E databases_stm cfg) s = (Inr (), s')" "started_with s"
    and "parse_port (listen_port cfg) = None"
  shows "run_state (start_main from_env E databases_stm env) s = (Inl Unwound, s')"
    "set (watched s') = set (pool_list (app_db s'))"
  using assms boot_establishes [OF assms(2,3)]
  by (simp_all add: start_main_def expect_def serve_port_def of_option_def boot_inv_def)

end
