(* ===== verification/Router_Race.thy ===== *)
theory Router_Race
  imports Delivery
begin

text \<open>
  The channels before the client's router.  \<open>stream\<close> of \<open>query.rs\<close> sends the parameter that
  registers its receiver and then the request, over two channels; the \<open>select!\<close> of \<open>native.rs\<close>
  is not biased, so it takes from any channel that has something.  Which of a stream's notifications
  reach its consumer is decided by when the parameter is taken.
\<close>

section \<open>The router and its inputs\<close>

text \<open>What the client's calls have put into the two channels, and what is on the socket: \<open>en_coming\<close>
  is what the server sends once the requests are written.  The socket does not fail.\<close>

record engine =
  en_router :: router_phase
  en_params :: "param list"
  en_routes :: "route list"
  en_coming :: "message list"
  en_inbox :: "message list"

inductive engine_step ::
    "(string \<Rightarrow> json option) \<Rightarrow> (string \<Rightarrow> uuid option) \<Rightarrow> (string \<Rightarrow> bool) \<Rightarrow> (chan \<Rightarrow> bool) \<Rightarrow>
     engine \<Rightarrow> engine \<Rightarrow> bool" for pj pu header_ok alive where
  picks_param: "engine_step pj pu header_ok alive e (e\<lparr>en_params := ps,
      en_router := router_step pj pu header_ok alive (clk, Select (GotParam p)) (en_router e)\<rparr>)"
    if "en_params e = p # ps"
| picks_route: "engine_step pj pu header_ok alive e (e\<lparr>en_routes := rs,
      en_router := router_step pj pu header_ok alive (clk, Select (GotRoute r True)) (en_router e)\<rparr>)"
    if "en_routes e = r # rs"
| picks_message: "engine_step pj pu header_ok alive e (e\<lparr>en_inbox := ms,
      en_router := router_step pj pu header_ok alive (clk, Select (GotMessage m)) (en_router e)\<rparr>)"
    if "en_inbox e = m # ms"
| arrives: "engine_step pj pu header_ok alive e (e\<lparr>en_coming := ms, en_inbox := en_inbox e @ [m]\<rparr>)"
    if "en_coming e = m # ms" "en_routes e = []"

inductive_cases engine_stepE: "engine_step pj pu header_ok alive e e'"

definition all_taken :: "engine \<Rightarrow> bool" where
  "all_taken e \<longleftrightarrow> en_params e = [] \<and> en_routes e = [] \<and> en_coming e = [] \<and> en_inbox e = []"

text \<open>What a call that took the client from \<open>c\<close> to \<open>c'\<close> has sent, before a router at \<open>s\<close>.\<close>

definition call_sent :: "client \<Rightarrow> client \<Rightarrow> router_state \<Rightarrow> message list \<Rightarrow> engine" where
  "call_sent c c' s ms = \<lparr>en_router = Running s,
     en_params = drop (length (cl_sent_params c)) (cl_sent_params c'),
     en_routes = drop (length (cl_sent_routes c)) (cl_sent_routes c'), en_coming = ms, en_inbox = []\<rparr>"

lemma stream_call_sent:
  assumes "stream_call parse_uuid net i p c = (Returned (Inr (j, tx)), c')"
  shows "\<exists>r. call_sent c c' s ms = \<lparr>en_router = Running s, en_params = [param_stream i tx], en_routes = [r],
     en_coming = ms, en_inbox = []\<rparr>"
  using assms
  by (auto simp: stream_call_def send_param_def execute_query_def router_send_def call_sent_def Let_def
      split: outcome.splits prod.splits sum.splits if_splits option.splits)

section \<open>What the consumer gets\<close>

fun got_items :: "chan \<Rightarrow> delivery list \<Rightarrow> query_stream_notification list" where
  "got_items c [] = []"
| "got_items c (ToStream c' n # ds) = (if c' = c then n # got_items c ds else got_items c ds)"
| "got_items c (_ # ds) = got_items c ds"

fun notes_of :: "uuid \<Rightarrow> db_response list \<Rightarrow> query_stream_notification list" where
  "notes_of i [] = []"
| "notes_of i (QueryStreamNotification n # ds) = (if qsn_stream_id n = i then n # notes_of i ds else notes_of i ds)"
| "notes_of i (_ # ds) = notes_of i ds"

lemma got_items_append [simp]: "got_items c (xs @ ys) = got_items c xs @ got_items c ys"
  by (induction c xs rule: got_items.induct) simp_all

lemma notes_of_append [simp]: "notes_of i (xs @ ys) = notes_of i xs @ notes_of i ys"
  by (induction i xs rule: notes_of.induct) simp_all

lemma notes_of_suffix: "suffix xs (notes_of i ds) \<Longrightarrow> \<exists>k. notes_of i (drop k ds) = xs"
proof (induction ds)
  case (Cons d ds)
  have one: "notes_of i (d # ds) = notes_of i ds \<or> (\<exists>n. notes_of i (d # ds) = n # notes_of i ds)"
    by (cases d) auto
  show ?case
  proof (cases "xs = notes_of i (d # ds)")
    case True
    then show ?thesis by (intro exI [of _ 0]) simp
  next
    case False
    with Cons.prems one have "suffix xs (notes_of i ds)" by (auto simp: suffix_Cons)
    then obtain k where "notes_of i (drop k ds) = xs" using Cons.IH by blast
    then show ?thesis by (intro exI [of _ "Suc k"]) simp
  qed
qed simp

text \<open>The stream's channel is its own.\<close>

definition isolated :: "uuid \<Rightarrow> chan \<Rightarrow> router_state \<Rightarrow> bool" where
  "isolated i c s \<longleftrightarrow> (\<forall>j. live_queries s j = Some c \<longrightarrow> j = i)"

lemma isolated_deliver [simp]:
  "isolated i c (deliver x s) \<longleftrightarrow> isolated i c s" "live_queries (deliver x s) = live_queries s"
  "delivered (deliver x s) = delivered s @ [x]"
  by (simp_all add: isolated_def deliver_def)

lemma dispatch_item:
  assumes "isolated i c s" "alive c" "live_queries s i = None \<or> live_queries s i = Some c"
  shows "isolated i c (dispatch alive d s)" "live_queries (dispatch alive d s) i = live_queries s i"
    "got_items c (delivered (dispatch alive d s)) = got_items c (delivered s) @
       (if live_queries s i = None then [] else notes_of i [d])"
proof -
  have "isolated i c (dispatch alive d s) \<and> live_queries (dispatch alive d s) i = live_queries s i \<and>
    got_items c (delivered (dispatch alive d s)) = got_items c (delivered s) @
       (if live_queries s i = None then [] else notes_of i [d])"
  proof (cases d)
    case (QueryResponse r)
    then show ?thesis using assms(1)
      by (cases "routes s (resp_id r)") (simp_all add: isolated_def deliver_def Let_def)
  next
    case (QueryStreamNotification n)
    show ?thesis
    proof (cases "live_queries s (qsn_stream_id n)")
      case None
      with QueryStreamNotification assms show ?thesis by (cases "qsn_stream_id n = i") simp_all
    next
      case (Some c')
      have "c' = c \<longleftrightarrow> qsn_stream_id n = i" using Some assms(1,3) unfolding isolated_def by (metis option.distinct(1) option.inject)
      show ?thesis
      proof (cases "alive c'")
        case True
        then have to: "dispatch alive d s = deliver (ToStream c' n) s" using Some QueryStreamNotification by simp
        have item: "(if c' = c then [n] else []) = (if live_queries s i = None then [] else notes_of i [d])"
          using \<open>c' = c \<longleftrightarrow> qsn_stream_id n = i\<close> Some QueryStreamNotification by auto
        show ?thesis by (simp only: to isolated_deliver got_items_append got_items.simps item assms(1))
      next
        case False
        then have "qsn_stream_id n \<noteq> i" using \<open>c' = c \<longleftrightarrow> qsn_stream_id n = i\<close> assms(2) by blast
        with False Some assms(1) QueryStreamNotification show ?thesis by (simp add: isolated_def)
      qed
    qed
  next
    case (ListenChanel l)
    then show ?thesis using assms(1)
      by (cases "channels s (lcr_channel l)") (simp_all add: isolated_def deliver_def)
  qed
  then show "isolated i c (dispatch alive d s)" "live_queries (dispatch alive d s) i = live_queries s i"
    "got_items c (delivered (dispatch alive d s)) = got_items c (delivered s) @
       (if live_queries s i = None then [] else notes_of i [d])" by blast+
qed

definition reads_as :: "(string \<Rightarrow> json option) \<Rightarrow> (string \<Rightarrow> uuid option) \<Rightarrow> message \<Rightarrow> db_response \<Rightarrow> bool" where
  "reads_as pj pu m d \<longleftrightarrow> try_from_message pj pu m = Returned (Inr (Some d))"

lemma message_item:
  assumes "isolated i c s" "alive c" "live_queries s i = None \<or> live_queries s i = Some c" "reads_as pj pu m d"
  obtains s' where "router_step pj pu header_ok alive (clk, Select (GotMessage m)) (Running s) = Running s'"
    "isolated i c s'" "live_queries s' i = live_queries s i"
    "got_items c (delivered s') = got_items c (delivered s) @ (if live_queries s i = None then [] else notes_of i [d])"
proof -
  let ?s = "s\<lparr>last_activity := clk\<rparr>"
  have ok: "isolated i c ?s" "live_queries ?s i = None \<or> live_queries ?s i = Some c"
    using assms(1,3) by (simp_all add: isolated_def)
  note item = dispatch_item [where alive = alive and d = d, OF ok(1) assms(2) ok(2)]
  have "router_step pj pu header_ok alive (clk, Select (GotMessage m)) (Running s) = Running (dispatch alive d ?s)"
    using assms(4) by (simp add: reads_as_def router_handle_response_def)
  with item show thesis by (intro that) simp_all
qed

lemma route_item:
  obtains s' where "router_step pj pu header_ok alive (clk, Select (GotRoute r True)) (Running s) = Running s'"
    "live_queries s' = live_queries s" "delivered s' = delivered s"
  by (cases "routes s (req_id (rt_request r))") (auto simp: router_handle_route_def Let_def)

lemma param_item:
  "router_step pj pu header_ok alive (clk, Select (GotParam (param_stream i c))) (Running s) =
     Running (s\<lparr>live_queries := (live_queries s)(i \<mapsto> c)\<rparr>)"
  by (simp add: handle_param_def param_stream_def)

section \<open>Every run\<close>

text \<open>\<open>past\<close> has been handled; until the parameter is taken nothing of the stream is delivered.\<close>

definition racing ::
    "(string \<Rightarrow> json option) \<Rightarrow> (string \<Rightarrow> uuid option) \<Rightarrow> uuid \<Rightarrow> chan \<Rightarrow> db_response list \<Rightarrow> engine \<Rightarrow> bool" where
  "racing pj pu i c ds e \<longleftrightarrow> (\<exists>s past rest. en_router e = Running s \<and> isolated i c s \<and> ds = past @ rest \<and>
     list_all2 (reads_as pj pu) (en_inbox e @ en_coming e) rest \<and>
     (en_params e = [param_stream i c] \<and> live_queries s i = None \<and> got_items c (delivered s) = [] \<or>
      en_params e = [] \<and> live_queries s i = Some c \<and> suffix (got_items c (delivered s)) (notes_of i past)))"

lemma racing_step:
  assumes "racing pj pu i c ds e" "alive c" "engine_step pj pu header_ok alive e e'"
  shows "racing pj pu i c ds e'"
proof -
  from assms(1) obtain s past rest where e: "en_router e = Running s" "isolated i c s" "ds = past @ rest"
    "list_all2 (reads_as pj pu) (en_inbox e @ en_coming e) rest"
    and at: "en_params e = [param_stream i c] \<and> live_queries s i = None \<and> got_items c (delivered s) = [] \<or>
      en_params e = [] \<and> live_queries s i = Some c \<and> suffix (got_items c (delivered s)) (notes_of i past)"
    unfolding racing_def by blast
  from assms(3) show ?thesis
  proof cases
    case (picks_param p ps clk)
    with at have "p = param_stream i c" "ps = []" "got_items c (delivered s) = []" by auto
    with picks_param e param_item [of pj pu header_ok alive clk i c s] show ?thesis
      unfolding racing_def
      by (intro exI [of _ "s\<lparr>live_queries := (live_queries s)(i \<mapsto> c)\<rparr>"] exI [of _ past] exI [of _ rest])
        (simp add: isolated_def)
  next
    case (picks_route r rs clk)
    obtain s' where "router_step pj pu header_ok alive (clk, Select (GotRoute r True)) (Running s) = Running s'"
      "live_queries s' = live_queries s" "delivered s' = delivered s" by (rule route_item)
    with picks_route e at show ?thesis
      unfolding racing_def by (intro exI [of _ s'] exI [of _ past] exI [of _ rest]) (simp add: isolated_def)
  next
    case (picks_message m ms clk)
    with e(4) obtain d rest' where rest: "rest = d # rest'" "reads_as pj pu m d"
      "list_all2 (reads_as pj pu) (ms @ en_coming e) rest'" by (auto simp: list_all2_Cons1)
    have "live_queries s i = None \<or> live_queries s i = Some c" using at by blast
    then obtain s' where s': "router_step pj pu header_ok alive (clk, Select (GotMessage m)) (Running s) = Running s'"
      "isolated i c s'" "live_queries s' i = live_queries s i"
      "got_items c (delivered s') = got_items c (delivered s) @ (if live_queries s i = None then [] else notes_of i [d])"
      by (rule message_item [where alive = alive and c = c, OF e(2) assms(2) _ rest(2)])
    have "suffix (got_items c (delivered s) @ notes_of i [d]) (notes_of i (past @ [d]))"
      if "suffix (got_items c (delivered s)) (notes_of i past)"
      using that by (auto simp: suffix_def)
    with picks_message e(1,3) rest s' at show ?thesis
      unfolding racing_def by (intro exI [of _ s'] exI [of _ "past @ [d]"] exI [of _ rest']) auto
  next
    case (arrives m ms)
    with e at show ?thesis unfolding racing_def by (intro exI [of _ s] exI [of _ past] exI [of _ rest]) simp
  qed
qed

interpretation race: invariant "engine_step pj pu header_ok alive" "\<lambda>e. racing pj pu i c ds e \<and> alive c"
  for pj pu header_ok alive i c ds
  by unfold_locales (use racing_step in blast)

lemma racing_start:
  assumes "isolated i c s" "live_queries s i = None" "got_items c (delivered s) = []" "list_all2 (reads_as pj pu) ms ds"
  shows "racing pj pu i c ds \<lparr>en_router = Running s, en_params = [param_stream i c], en_routes = [r],
     en_coming = ms, en_inbox = []\<rparr>"
  using assms by (auto simp: racing_def)

section \<open>Some run\<close>

lemma all_arrive:
  "en_routes e = [] \<Longrightarrow> (engine_step pj pu header_ok alive)\<^sup>*\<^sup>* e (e\<lparr>en_coming := [], en_inbox := en_inbox e @ en_coming e\<rparr>)"
proof (induction "en_coming e" arbitrary: e)
  case (Cons m ms)
  let ?e = "e\<lparr>en_coming := ms, en_inbox := en_inbox e @ [m]\<rparr>"
  have "engine_step pj pu header_ok alive e ?e" using Cons by (intro arrives) simp_all
  moreover have "(engine_step pj pu header_ok alive)\<^sup>*\<^sup>* ?e (?e\<lparr>en_coming := [], en_inbox := en_inbox ?e @ en_coming ?e\<rparr>)"
    using Cons.prems by (intro Cons.hyps(1)) simp_all
  ultimately show ?case using Cons.hyps(2) [symmetric] by (simp add: converse_rtranclp_into_rtranclp)
next
  case Nil
  then have "e\<lparr>en_coming := [], en_inbox := en_inbox e @ en_coming e\<rparr> = e" by (cases e) simp
  then show ?case by simp
qed

lemma messages_picked:
  assumes "en_router e = Running s" "isolated i c s" "alive c" "live_queries s i = None \<or> live_queries s i = Some c"
    and "list_all2 (reads_as pj pu) ms ds" "en_inbox e = ms @ ms'"
  shows "\<exists>s'. (engine_step pj pu header_ok alive)\<^sup>*\<^sup>* e (e\<lparr>en_inbox := ms', en_router := Running s'\<rparr>) \<and>
    isolated i c s' \<and> live_queries s' i = live_queries s i \<and>
    got_items c (delivered s') = got_items c (delivered s) @ (if live_queries s i = None then [] else notes_of i ds)"
  using assms(5,1,2,4,6)
proof (induction arbitrary: e s rule: list_all2_induct)
  case Nil
  then have "e\<lparr>en_inbox := ms', en_router := Running s\<rparr> = e" by (cases e) simp
  then have "(engine_step pj pu header_ok alive)\<^sup>*\<^sup>* e (e\<lparr>en_inbox := ms', en_router := Running s\<rparr>)"
    by (metis rtranclp.rtrancl_refl)
  with Nil show ?case by (intro exI [of _ s] conjI) simp_all
next
  case (Cons m ms d ds)
  obtain s1 where s1: "router_step pj pu header_ok alive (0, Select (GotMessage m)) (Running s) = Running s1"
    "isolated i c s1" "live_queries s1 i = live_queries s i"
    "got_items c (delivered s1) = got_items c (delivered s) @ (if live_queries s i = None then [] else notes_of i [d])"
    by (rule message_item [where alive = alive and c = c, OF Cons.prems(2) assms(3) Cons.prems(3) Cons.hyps(1)])
  let ?e = "e\<lparr>en_inbox := ms @ ms', en_router := Running s1\<rparr>"
  have step: "engine_step pj pu header_ok alive e ?e"
    using picks_message [of e m "ms @ ms'" pj pu header_ok alive 0] Cons.prems(1,4) s1(1) by simp
  have both: "notes_of i (d # ds) = notes_of i [d] @ notes_of i ds"
    using notes_of_append [of i "[d]" ds] by simp
  obtain s' where "(engine_step pj pu header_ok alive)\<^sup>*\<^sup>* ?e (?e\<lparr>en_inbox := ms', en_router := Running s'\<rparr>)"
    "isolated i c s'" "live_queries s' i = live_queries s1 i"
    "got_items c (delivered s') = got_items c (delivered s1) @ (if live_queries s1 i = None then [] else notes_of i ds)"
    using Cons.IH [of ?e s1] s1(2,3) Cons.prems(3) by auto
  with step s1(3,4) both show ?case
    by (intro exI [of _ s']) (auto intro: converse_rtranclp_into_rtranclp)
qed

text \<open>The parameter taken after the messages \<open>ms1\<close>: the stream begins with what comes next.\<close>

lemma late_parameter:
  assumes "isolated i c s" "live_queries s i = None" "got_items c (delivered s) = []" "alive c"
    and "list_all2 (reads_as pj pu) ms1 ds1" "list_all2 (reads_as pj pu) ms2 ds2"
  shows "\<exists>e s'. (engine_step pj pu header_ok alive)\<^sup>*\<^sup>* \<lparr>en_router = Running s, en_params = [param_stream i c],
      en_routes = [r], en_coming = ms1 @ ms2, en_inbox = []\<rparr> e \<and> all_taken e \<and> en_router e = Running s' \<and>
    got_items c (delivered s') = notes_of i ds2"
proof -
  let ?run = "(engine_step pj pu header_ok alive)\<^sup>*\<^sup>*"
  let ?e = "\<lparr>en_router = Running s, en_params = [param_stream i c], en_routes = [r],
      en_coming = ms1 @ ms2, en_inbox = []\<rparr>"
  obtain s0 where s0: "router_step pj pu header_ok alive (0, Select (GotRoute r True)) (Running s) = Running s0"
    "live_queries s0 = live_queries s" "delivered s0 = delivered s" by (rule route_item)
  let ?routed = "?e\<lparr>en_routes := [], en_router := Running s0\<rparr>"
  have "engine_step pj pu header_ok alive ?e ?routed"
    using picks_route [of ?e r "[]" pj pu header_ok alive 0] s0(1) by (simp del: router_step.simps)
  moreover let ?arrived = "?routed\<lparr>en_coming := [], en_inbox := ms1 @ ms2\<rparr>"
  have "?run ?routed ?arrived" using all_arrive [of ?routed] by simp
  moreover have clean: "isolated i c s0" "live_queries s0 i = None"
    using assms(1,2) s0(2) by (simp_all add: isolated_def)
  obtain s1 where s1: "?run ?arrived (?arrived\<lparr>en_inbox := ms2, en_router := Running s1\<rparr>)" "isolated i c s1"
    "live_queries s1 i = None" "got_items c (delivered s1) = []"
    using messages_picked [where alive = alive and c = c, OF _ clean(1) assms(4) _ assms(5), of ?arrived ms2]
      clean(2) assms(3) s0(3) by auto
  moreover let ?early = "?arrived\<lparr>en_inbox := ms2, en_router := Running s1\<rparr>"
  let ?s' = "s1\<lparr>live_queries := (live_queries s1)(i \<mapsto> c)\<rparr>"
  let ?known = "?early\<lparr>en_params := [], en_router := Running ?s'\<rparr>"
  have "engine_step pj pu header_ok alive ?early ?known"
    using picks_param [of ?early "param_stream i c" "[]" pj pu header_ok alive 0]
      param_item [of pj pu header_ok alive 0 i c s1] by (simp del: router_step.simps)
  moreover have "isolated i c ?s'" using s1(2) by (simp add: isolated_def)
  then obtain s3 where "?run ?known (?known\<lparr>en_inbox := [], en_router := Running s3\<rparr>)"
    "got_items c (delivered s3) = notes_of i ds2"
    using messages_picked [where alive = alive and c = c, OF _ _ assms(4) _ assms(6), of ?known ?s' i "[]"] s1(4) by auto
  ultimately show ?thesis
    by (intro exI [of _ "?known\<lparr>en_inbox := [], en_router := Running s3\<rparr>"] exI [of _ s3])
      (auto simp: all_taken_def intro: converse_rtranclp_into_rtranclp rtranclp_trans)
qed

text \<open>C7: the first rows of a stream can be lost.  A client asks for a stream on a connection that does
  not fail; the server answers with any messages.  Whatever the order in which the router takes the
  parameter, the request and the messages, the consumer gets the notifications of its stream in order
  and from some point on without a gap; and each such end of the notifications, the empty one too, is
  what it gets in some order.  Nothing makes the router take the parameter, which was sent first,
  before the first row.\<close>

theorem stream_gets_any_suffix:
  assumes "stream_call parse_uuid net i p c = (Returned (Inr (j, tx)), c')"
    and "isolated i tx s" "live_queries s i = None" "got_items tx (delivered s) = []" "alive tx"
    and "list_all2 (reads_as pj pu) ms ds"
  shows "{got_items tx (delivered s') | e s'. (engine_step pj pu header_ok alive)\<^sup>*\<^sup>* (call_sent c c' s ms) e \<and>
    all_taken e \<and> en_router e = Running s'} = {xs. suffix xs (notes_of i ds)}" (is "?got = ?suffixes")
proof (intro equalityI subsetI)
  obtain r where start: "call_sent c c' s ms = \<lparr>en_router = Running s, en_params = [param_stream i tx],
      en_routes = [r], en_coming = ms, en_inbox = []\<rparr>" using stream_call_sent [OF assms(1)] by blast
  fix xs
  {
    assume "xs \<in> ?got"
    then obtain e s' where e: "(engine_step pj pu header_ok alive)\<^sup>*\<^sup>* (call_sent c c' s ms) e" "all_taken e"
      "en_router e = Running s'" "xs = got_items tx (delivered s')" by blast
    have "racing pj pu i tx ds e"
      using race.kept_star [OF e(1)] racing_start [OF assms(2-4,6)] assms(5) start by metis
    with e show "xs \<in> ?suffixes" by (auto simp: racing_def all_taken_def)
  next
    assume "xs \<in> ?suffixes"
    then obtain k where k: "notes_of i (drop k ds) = xs" using notes_of_suffix by blast
    have "list_all2 (reads_as pj pu) (take k ms) (take k ds)" "list_all2 (reads_as pj pu) (drop k ms) (drop k ds)"
      using assms(6) by (simp_all add: list_all2_takeI list_all2_dropI)
    from late_parameter [where alive = alive, OF assms(2-5) this, of header_ok r] k obtain e s' where
      "(engine_step pj pu header_ok alive)\<^sup>*\<^sup>* (call_sent c c' s ms) e" "all_taken e" "en_router e = Running s'"
      "xs = got_items tx (delivered s')" unfolding start by auto
    then show "xs \<in> ?got" by blast
  }
qed

text \<open>The row is handled before the parameter is taken: the consumer gets the end mark only.\<close>

definition stream_net :: net where
  "stream_net = \<lparr>net_routes_open = True, net_params_open = True, net_answer = (\<lambda>_. Some (Inr (JStr ''u'')))\<rparr>"

theorem stream_gets_any_suffix_witness:
  "\<exists>c' e s'. stream_call (\<lambda>_. Some 9) stream_net 9 (query_params_new ''q'') connected = (Returned (Inr (9, 0)), c') \<and>
    (engine_step (table_parse two_texts) (\<lambda>_. Some 9) (\<lambda>_. True) (\<lambda>_. True))\<^sup>*\<^sup>*
      (call_sent connected c' (router_state_new 1 0) [TextMsg ''a'', TextMsg ''end'']) e \<and>
    all_taken e \<and> en_router e = Running s' \<and> got_items 0 (delivered s') = [row_notice 9 None]"
proof -
  let ?pj = "table_parse two_texts" and ?pu = "\<lambda>_. Some 9" and ?jt = "table_text two_texts"
  let ?ds = "[QueryStreamNotification (row_notice 9 (Some (JStr ''a''))), QueryStreamNotification (row_notice 9 None)]"
  obtain c' where call: "stream_call ?pu stream_net 9 (query_params_new ''q'') connected = (Returned (Inr (9, 0)), c')"
    by (simp add: stream_call_def send_param_def client_eval connected_def new_from_router_waiter_def stream_net_def)
  have "reads_as ?pj ?pu (TextMsg (?jt (enc_db_response (\<lambda>_. ''u'') d))) d" if "d \<in> set ?ds" for d
    unfolding reads_as_def
    by (rule read_sent_message) (use that in \<open>auto simp: reads_back_def table_text_def table_parse_def two_texts_def
        row_notice_def enc_notification_def\<close>)
  then have "list_all2 (reads_as ?pj ?pu) (map (\<lambda>d. TextMsg (?jt (enc_db_response (\<lambda>_. ''u'') d))) ?ds) ?ds"
    by (simp del: enc_db_response.simps)
  moreover have "map (\<lambda>d. TextMsg (?jt (enc_db_response (\<lambda>_. ''u'') d))) ?ds = [TextMsg ''a'', TextMsg ''end'']"
    by (simp add: table_text_def two_texts_def row_notice_def enc_notification_def)
  ultimately have reads: "list_all2 (reads_as ?pj ?pu) [TextMsg ''a'', TextMsg ''end''] ?ds" by simp
  have clean: "isolated 9 0 (router_state_new 1 0)" "live_queries (router_state_new 1 0) 9 = None"
    "got_items 0 (delivered (router_state_new 1 0)) = []"
    by (simp_all add: isolated_def router_state_new_def)
  note all = stream_gets_any_suffix [OF call clean _ reads, where alive = "\<lambda>_. True" and header_ok = "\<lambda>_. True", OF TrueI]
  have "suffix [row_notice 9 None] (notes_of 9 ?ds)" by (simp add: row_notice_def suffix_def)
  then have "[row_notice 9 None] \<in> {xs. suffix xs (notes_of 9 ?ds)}" by simp
  then obtain e s' where "(engine_step ?pj ?pu (\<lambda>_. True) (\<lambda>_. True))\<^sup>*\<^sup>*
      (call_sent connected c' (router_state_new 1 0) [TextMsg ''a'', TextMsg ''end'']) e" "all_taken e"
    "en_router e = Running s'" "got_items 0 (delivered s') = [row_notice 9 None]"
    unfolding all [symmetric] by auto
  with call show ?thesis by blast
qed

end
