(* ===== verification/Client_Futures.thy ===== *)
theory Client_Futures
  imports Client
begin

text \<open>
  The values a client's methods return before they are awaited (\<open>method/*.rs\<close>, the builders of
  \<open>method/mod.rs\<close>), how its streams are polled, the \<open>OnceLock\<close> of \<open>lib.rs\<close> and the sizes of
  \<open>native.rs\<close>.  \<open>Client\<close> says what awaiting them does.
\<close>

section \<open>Futures\<close>

record authenticate_future =
  af_token :: string

record login_future =
  lf_username :: string
  lf_password :: string

record query_future =
  qf_params :: query_params

definition authenticate_new :: "string \<Rightarrow> authenticate_future" where
  "authenticate_new tok = \<lparr>af_token = tok\<rparr>"

definition login_new :: "string \<Rightarrow> string \<Rightarrow> login_future" where
  "login_new username password = \<lparr>lf_username = username, lf_password = password\<rparr>"

section \<open>Polling\<close>

text \<open>\<open>Poll\<close>, and the streams over the channel below them: a channel is \<open>Ready None\<close> when it is
  closed and empty.\<close>

datatype 'a poll = Ready 'a | Pending

definition listen_poll :: "transaction option poll \<Rightarrow> transaction option poll" where
  "listen_poll p = (case p of
     Ready (Some n) \<Rightarrow> Ready (Some n) | Ready None \<Rightarrow> Ready None | Pending \<Rightarrow> Pending)"

definition stream_poll ::
    "(json \<Rightarrow> 'a option) \<Rightarrow> query_stream_notification option poll \<Rightarrow> 'a option poll" where
  "stream_poll from_value p = (case p of
     Ready (Some n) \<Rightarrow> Ready (Option.bind (qsn_data n) from_value) | Ready None \<Rightarrow> Ready None | Pending \<Rightarrow> Pending)"

definition interval_poll :: "'i poll \<Rightarrow> 'i option poll" where
  "interval_poll p = map_poll Some p"

text \<open>A consumer polls until the stream ends; \<open>Pending\<close> means it is woken up and polls again.\<close>

fun consume :: "('m poll \<Rightarrow> 'a option poll) \<Rightarrow> 'm poll list \<Rightarrow> 'a list" where
  "consume f [] = []"
| "consume f (p # ps) = (case f p of
     Ready None \<Rightarrow> [] | Ready (Some x) \<Rightarrow> x # consume f ps | Pending \<Rightarrow> consume f ps)"

fun arrivals :: "'n option poll list \<Rightarrow> 'n list" where
  "arrivals [] = []"
| "arrivals (Ready (Some n) # ps) = n # arrivals ps"
| "arrivals (Ready None # ps) = []"
| "arrivals (Pending # ps) = arrivals ps"

text \<open>However often it is woken up in vain, the consumer of a query's stream gets what \<open>collect\<close>
  gives, and the consumer of changes gets every change that arrives before the channel is closed.\<close>

lemma stream_consumed: "consume (stream_poll from_value) ps = collect from_value (arrivals ps)"
  by (induction ps rule: arrivals.induct)
    (auto simp: stream_poll_def poll_next_def split: option.split)

lemma listen_consumed: "consume listen_poll ps = arrivals ps"
  by (induction ps rule: arrivals.induct) (simp_all add: listen_poll_def)

lemma interval_never_ends: "interval_poll p \<noteq> Ready None"
  by (cases p) (simp_all add: interval_poll_def)

section \<open>A cell that is set once\<close>

definition once_set :: "'a \<Rightarrow> 'a option \<Rightarrow> ('a + unit) \<times> 'a option" where
  "once_set v cell = (case cell of None \<Rightarrow> (Inr (), Some v) | Some _ \<Rightarrow> (Inl v, cell))"

definition once_with_value :: "'a \<Rightarrow> 'a option outcome" where
  "once_with_value v = (case once_set v None of (Inr _, cell) \<Rightarrow> Returned cell | (Inl _, _) \<Rightarrow> Panic)"

text \<open>The \<open>unreachable!\<close> is.\<close>

lemma once_with_value [simp]: "once_with_value v = Returned (Some v)"
  by (simp add: once_with_value_def once_set_def)

section \<open>Method names\<close>

text \<open>\<open>Method\<close> of \<open>conn.rs\<close> and the names serde gives its variants; nothing in the client uses it.\<close>

datatype api_method = Authenticating | Invalidate | Kill | Live | Querying | LoggingIn | Version

primrec api_method_name :: "api_method \<Rightarrow> string" where
  "api_method_name Authenticating = ''authenticate''"
| "api_method_name Invalidate = ''invalidate''"
| "api_method_name Kill = ''kill''"
| "api_method_name Live = ''live''"
| "api_method_name Querying = ''query''"
| "api_method_name LoggingIn = ''login''"
| "api_method_name Version = ''version''"

lemma api_method_name_inject: "api_method_name m = api_method_name m' \<longleftrightarrow> m = m'"
  by (cases m; cases m') simp_all

section \<open>Sizes\<close>

text \<open>\<open>usize\<close> has 64 bits, or 32.\<close>

definition MAX_MESSAGE_SIZE :: "'w::len word" where
  "MAX_MESSAGE_SIZE = push_bit 20 64"

definition MAX_FRAME_SIZE :: "'w::len word" where
  "MAX_FRAME_SIZE = push_bit 20 16"

definition WRITE_BUFFER_SIZE :: "'w::len word" where
  "WRITE_BUFFER_SIZE = 128000"

definition MAX_WRITE_BUFFER_SIZE :: "'w::len word" where
  "MAX_WRITE_BUFFER_SIZE = WRITE_BUFFER_SIZE + MAX_MESSAGE_SIZE"

lemma sizes_fit:
  "unat (MAX_WRITE_BUFFER_SIZE :: 64 word) = 128000 + 64 * 1024 * 1024"
  "unat (MAX_WRITE_BUFFER_SIZE :: 32 word) = 128000 + 64 * 1024 * 1024"
  "(MAX_FRAME_SIZE :: 32 word) < MAX_MESSAGE_SIZE" "(MAX_FRAME_SIZE :: 64 word) < MAX_MESSAGE_SIZE"
  by (simp_all add: MAX_WRITE_BUFFER_SIZE_def MAX_FRAME_SIZE_def MAX_MESSAGE_SIZE_def WRITE_BUFFER_SIZE_def)

end
