(* ===== verification/Spec2Isabelle.thy ===== *)
theory Spec2Isabelle
  imports Delivery Socket_Close Server Hub_Round Notifier Message_Types Rpc_Claims Rpc_Scripts Rpc_Replies Startup Router_Race Client_Futures
begin

text \<open>
  pg-graphql: a multi-tenant RPC server in front of PostgreSQL, and its client library, in Rust.

  The program.  Every organization has a database of its own.  At its start the server
  (\<open>src/main.rs\<close>) connects to each of them, keeps the connections in a pool
  (\<open>src/db.rs\<close>) and spawns two tasks per database: one reads the database's replication
  stream and groups its changes into transactions (\<open>tenant/src/cdc/watch.rs\<close>), the other
  forwards them to the connected clients that may see them (\<open>src/handler/rpc/mod.rs\<close>).  A
  client opens a WebSocket at \<open>/<organization>/rpc\<close>; its token, if it has one, is exchanged for
  claims (\<open>src/session.rs\<close>, \<open>src/sql.rs\<close>).  A connection
  (\<open>src/handler/rpc/connection.rs\<close>) runs three tasks and one more per message; the requests are
  query, login, authenticate, transaction and streaming query.  An HTTP route creates and fills the
  database of a new organization (\<open>src/handler/organization.rs\<close>, \<open>src/sql.rs\<close>, the
  scripts read by \<open>tenant/src/sql/script.rs\<close>).  The client (\<open>src/api\<close>) has methods that
  hand requests to a router task, which owns the socket, matches responses to callers and reconnects.

  Conventions.  A Rust \<open>Result\<close> is a sum with the error on the left, a panic is \<open>Panic\<close> of
  type \<open>outcome\<close>, \<open>?\<close> is \<open>try_bind\<close> over a state monad (\<open>Prelude\<close>).  The
  database is a parameter: a function from the calls made so far and the next call to its answer
  (\<open>Database\<close>), so a statement about all such functions covers every database; each call is
  recorded, and dropping a transaction is a call.  Concurrent code is a step relation with one step
  per await point.  Fixed-width integers are words.  JSON text, UUID text, the \<open>regex\<close>,
  \<open>url\<close>, \<open>tokio_postgres\<close>, \<open>axum_server\<close> and socket libraries are parameters or inputs;
  what the theorems need of them stands in their hypotheses.

  Theories and what they model.
    \<^item> \<open>Prelude\<close>, \<open>Transition\<close>: result types, early return, lists, sorting, decimal text;
      locales for invariants, progress and termination of a step relation.
    \<^item> \<open>Json_Value\<close>, \<open>Failures\<close>, \<open>Sql_Value\<close>, \<open>Cdc\<close>, \<open>Rpc\<close>: the data of
      \<open>tenant/src\<close>.  \<open>Wire\<close>, \<open>Request_Wire\<close>: its JSON form, with the locale
      \<open>codec\<close> interpreted for every type that is sent.
    \<^item> \<open>Scripts\<close>: \<open>script.rs\<close>.  \<open>Util_Float\<close>: \<open>util.rs\<close> over exact doubles.
    \<^item> \<open>Watch\<close>: \<open>watch.rs\<close>, with grouping of actions as its specification.
    \<^item> \<open>Database\<close>, \<open>Sql_Ops\<close>, \<open>Pool\<close>, \<open>App\<close>, \<open>Session\<close>: the database interface,
      \<open>sql.rs\<close>, \<open>db.rs\<close>, \<open>main.rs\<close> with \<open>organization.rs\<close>, \<open>session.rs\<close>.
    \<^item> \<open>Connection\<close>: the five methods and the task of a stream.  \<open>Rpc_Contract\<close>: the locale
      \<open>rpc_method\<close>, the contract every method keeps (its own database, transactions accounted for),
      interpreted for each.  \<open>Rpc_Safety\<close>: what follows for sequences of requests.
    \<^item> \<open>Socket\<close>, \<open>Socket_Safety\<close>, \<open>Socket_Close\<close>: the tasks \<open>serve\<close>, \<open>ping\<close>,
      \<open>read\<close>, \<open>write\<close>, \<open>handle_message\<close> and their interleavings: bounds, one response per
      request, order, cancellation, when a connection can end and when it cannot.
    \<^item> \<open>Rpc_Lock\<close>, \<open>Rpc_Progress\<close>: the guards and permits the tasks of a connection take:
      exclusion, a deadlock beyond the limit, termination within it.
    \<^item> \<open>Rpc_Programs\<close>: the methods again, as programs whose steps are what another task can come
      between; \<open>Rpc_Alone\<close>: run without interruption they are the methods of \<open>Connection\<close>.
      \<open>Rpc_Discipline\<close>: a typing of programs by the guards they take, and their length.
      \<open>Rpc_Concurrent\<close>: the product of the lock and the connection, any number of requests and
      streams at once.  \<open>Rpc_In_Turn\<close>: requests that come one after another are the sequential
      connection.  \<open>Rpc_Races\<close>: no data races, every request answered.
      \<open>Rpc_Transcript\<close>, \<open>Rpc_Scripts\<close>: what each request asks of the database while the
      others run.  \<open>Rpc_Ownership\<close>: a linear typing of programs by the transaction they hold, and
      the books of a connection: who holds each open transaction.  \<open>Rpc_Claims\<close>: a typing by the
      claims the database has vouched for, and where the claims of a session come from.
      \<open>Rpc_Replies\<close>: the answers through the bounded channel and the writer to the socket.
    \<^item> \<open>Rw_Lock\<close>, \<open>Hub_Lock\<close>, \<open>Hub_Safety\<close>, \<open>Hub_Round\<close>: tokio's lock as a value; the
      change task of \<open>handler/rpc/mod.rs\<close> between its await points, with the guards it takes and the
      room it waits for; a deadlock, a slow client, whom changes reach; a round that is not disturbed is
      the broadcast of \<open>Hub\<close>.  \<open>Notifier\<close>: the same for the task that delivers the
      notifications of all streaming queries, with the channel of bound 100 before it.
    \<^item> \<open>Message_Types\<close>: a typing of the messages a server sends, and that its client reads them.
    \<^item> \<open>Hub\<close>: \<open>handler/rpc/mod.rs\<close>.  \<open>Shutdown\<close>, \<open>Server\<close>: \<open>shutdown.rs\<close>,
      \<open>server.rs\<close>, \<open>constants.rs\<close>.  \<open>Startup\<close>: \<open>main\<close> from the environment to the
      listening server.
    \<^item> \<open>Router\<close>, \<open>Router_Wasm\<close>, \<open>Router_Safety\<close>: the client's engine on both platforms.
      \<open>Endpoint\<close>, \<open>Client\<close>, \<open>Client_Safety\<close>: its addresses, connecting, methods; \<open>Client_Futures\<close>: builders, polling, the router's cell.
      \<open>Router_Race\<close>: the two channels before the router, and what a stream can lose to their order.
    \<^item> \<open>Delivery\<close>: server and client together, for calls, changes and streams.  This theory: from
      the start of the server to the database calls of a connection.

  What the lemmas show.  Tenant isolation: a request reaches the database of its organization only,
  under a role of that organization, with claims that came from the database; however the requests of
  a connection interleave, each keeps to one script of calls.  Every method is one transaction, and
  none is leaked.  Changes and rows arrive at the client's consumer as they left the
  database.  Every call of a client gets its own answer and at most one.  Beside these, theorems state
  where the code does not do what it means to: the deadlock of concurrent commits and that of the
  change task, connections that never end, tokens lost on reconnection, results cut off at either end that look complete, and others.

  Bounds.  Nothing needs fuel: all functions are structurally recursive or have a measure; loops that
  run as long as the process are step relations or folds over their inputs.  The limit of concurrent
  requests is a variable \<open>n\<close>; the environment may set it, 24 is the default (\<open>Server\<close>).

  Not modelled.  Path matching, the CORS layer and the axum extractors (wiring); logging;
  waiting on the client's own
  bounded channels; the lock around the pool (each use is one critical section); the SQL scripts (data).
  The lock of a connection and of the registry is tokio's \<open>RwLock\<close>, modelled after its
  documentation: first come, first served, a reader behind a waiting writer.  In \<open>Rpc_Replies\<close> the
  connection is not cancelled and frames are texts; cancellation and the panic of a binary frame are in
  \<open>Socket\<close>, where the requests are opaque.  The tasks of \<open>mod.rs\<close> run beside the connections in
  \<open>Hub_Lock\<close> and \<open>Notifier\<close>, where what a connection does with its guards is any sequence of
  acquisitions.  What is left of the Rust files is derived code (\<open>Clone\<close>, \<open>Debug\<close>), trait
  declarations, tests and commented-out lines.
\<close>

section \<open>From a request to the database\<close>

text \<open>The database of the session that a request gets.\<close>

lemma session_database:
  assumes "serving json_text E alnum_match databases_stm cfg srv"
    and "run_state (from_request_parts E (app_db srv) parts) srv = (Inr session, srv')"
  shows "path_org parts = Inr (sess_org session)" "sess_txn session = None"
    "Connect (db_url cfg @ ''/'' @ sess_org session) (sess_db session) \<in> set (calls srv)"
proof -
  show "path_org parts = Inr (sess_org session)" "sess_txn session = None"
    using from_request_parts_session [OF assms(2)] by simp_all
  have "pool_sound cfg srv" using assms(1) by (rule serving_pool_sound)
  then show "Connect (db_url cfg @ ''/'' @ sess_org session) (sess_db session) \<in> set (calls srv)"
    using from_request_parts_session [OF assms(2)] pool_soundD by blast
qed

text \<open>Tenant isolation end to end: in a server that has been started and has initialised any
  organizations, a connection opened for an organization makes its database calls, whatever it is asked
  and whatever the databases answer, only on a connection that was opened to that organization's
  database.\<close>

theorem requests_reach_own_database:
  assumes "serving json_text E alnum_match databases_stm cfg srv"
    and "run_state (from_request_parts E (app_db srv) parts) srv = (Inr session, srv')"
    and "s = rpc_run json_text uuid_text E' evs (connection_new i session cfg)" and "c \<in> set (calls s)"
  shows "path_org parts = Inr (sess_org session) \<and>
    Connect (db_url cfg @ ''/'' @ sess_org session) (call_db c) \<in> set (calls srv)"
  using session_database [OF assms(1,2)] connection_calls_own_db [OF _ assms(3,4)] by simp

theorem requests_reach_own_database_witness:
  "Begin (Tx 1 0) \<in> set (calls (rpc_run (\<lambda>_. ''{}'') (\<lambda>_. ''9'') two_rows
      [Incoming (Transaction TxnBegin)] (connection_new 7 (session_new ''acme'' 1) sample_config))) \<and>
    Connect ''pg/acme'' (call_db (Begin (Tx 1 0))) \<in> set (calls booted)"
proof -
  let ?parts = "\<lparr>path_org = Inr ''acme'', x_auth = None, query_token = Inr None\<rparr>"
  let ?s = "rpc_run (\<lambda>_. ''{}'') (\<lambda>_. ''9'') two_rows [Incoming (Transaction TxnBegin)]
      (connection_new 7 (session_new ''acme'' 1) sample_config)"
  have up: "serving (\<lambda>_. ''{}'') acme_server (\<lambda>_. True) (from_string ''dbs'') sample_config booted"
    by (rule serving.start [OF boot_cold started_cold])
  have session: "run_state (from_request_parts acme_server (app_db booted) ?parts) booted =
      (Inr (session_new ''acme'' 1), booted)"
    by (simp add: from_request_parts_def presented_token_def booted_def pool_get_def)
  have call: "Begin (Tx 1 0) \<in> set (calls ?s)"
    by (simp add: rpc_eval two_rows_def)
  from requests_reach_own_database [OF up session refl call] call show ?thesis
    by (simp add: session_new_def sample_config_def)
qed

text \<open>C1: tenant isolation for concurrent requests: in a server that has been started and has
  initialised any organizations, a connection opened for an organization makes its database calls,
  however its requests and streams interleave, whatever it is asked and whatever the databases answer,
  only on a connection that was opened to that organization's database.\<close>

theorem concurrent_requests_reach_own_database:
  assumes "serving json_text E alnum_match databases_stm cfg srv"
    and "run_state (from_request_parts E (app_db srv) parts) srv = (Inr session, srv')"
    and "(conc_step json_text uuid_text E')\<^sup>*\<^sup>* (conc_new n (connection_new i session cfg)) s"
    and "c \<in> set (calls (rpc_state s))"
  shows "path_org parts = Inr (sess_org session) \<and>
    Connect (db_url cfg @ ''/'' @ sess_org session) (call_db c) \<in> set (calls srv)"
  using session_database [OF assms(1,2)] concurrent_calls_own_db [OF assms(3) _ assms(4)] by simp

theorem concurrent_requests_reach_own_database_witness:
  "\<exists>s. (conc_step (\<lambda>_. ''{}'') (\<lambda>_. ''9'') two_rows)\<^sup>*\<^sup>*
      (conc_new 24 (connection_new 7 (session_new ''acme'' 1) sample_config)) s \<and>
    Begin (Tx 1 0) \<in> set (calls (rpc_state s)) \<and> Connect ''pg/acme'' (call_db (Begin (Tx 1 0))) \<in> set (calls booted)"
proof -
  let ?parts = "\<lparr>path_org = Inr ''acme'', x_auth = None, query_token = Inr None\<rparr>"
  let ?r = "connection_new 7 (session_new ''acme'' 1) sample_config"
  let ?evs = "[Incoming (Transaction TxnBegin)]"
  have up: "serving (\<lambda>_. ''{}'') acme_server (\<lambda>_. True) (from_string ''dbs'') sample_config booted"
    by (rule serving.start [OF boot_cold started_cold])
  have session: "run_state (from_request_parts acme_server (app_db booted) ?parts) booted =
      (Inr (session_new ''acme'' 1), booted)"
    by (simp add: from_request_parts_def presented_token_def booted_def pool_get_def)
  obtain s where run: "(conc_step (\<lambda>_. ''{}'') (\<lambda>_. ''9'') two_rows)\<^sup>*\<^sup>* (conc_new 24 ?r) s"
    and "rpc_state s = rpc_run (\<lambda>_. ''{}'') (\<lambda>_. ''9'') two_rows ?evs ?r"
    by (rule run_in_turn [of 24 ?evs]) simp_all
  then have call: "Begin (Tx 1 0) \<in> set (calls (rpc_state s))"
    by (simp add: rpc_eval two_rows_def)
  from concurrent_requests_reach_own_database [OF up session run call] run call show ?thesis
    by (auto simp: session_new_def sample_config_def)
qed

end
